(* ===== verification/Prelude.thy ===== *)
theory Prelude
  imports Main "HOL-Library.Word" "HOL-Library.Multiset" "HOL-Library.Product_Lexorder"
begin

text \<open>
  Shared vocabulary of the development: the machine types of the C++ sources, the
  null hash, and the generic facts on lists, maps and words that the component
  theories use.

  \<^item> \<open>uint256\<close> stands for \<^verbatim>\<open>src/src/uint256.h\<close>. The 32 bytes of a blob are read
    big-endian, so the order of the word is the byte-wise (memcmp) order that
    \<open>base_blob::operator<\<close> compares with, and the null blob is \<open>0\<close>.
  \<^item> \<open>uint64\<close>, \<open>uint32\<close> and \<open>int64\<close> keep the width of the source type wherever
    arithmetic may wrap around.
\<close>

type_synonym uint256 = "256 word"
type_synonym uint64 = "64 word"
type_synonym uint32 = "32 word"
type_synonym uint8 = "8 word"

definition IsNull :: "uint256 \<Rightarrow> bool" where
  "IsNull h \<longleftrightarrow> h = 0"

named_theorems dag_simps \<open>unfolding rules of the DAG components\<close>

declare IsNull_def [dag_simps]

section \<open>Lists\<close>

lemma sorted_wrt_distinct:
  assumes "sorted_wrt R xs" and "\<And>x. \<not> R x x"
  shows "distinct xs"
  using assms by (induction xs) auto

lemma sorted_wrt_take: "sorted_wrt R xs \<Longrightarrow> sorted_wrt R (take n xs)"
  by (metis append_take_drop_id sorted_wrt_append)

lemma fold_invariant:
  assumes "P s" and "\<And>x s. x \<in> set xs \<Longrightarrow> P s \<Longrightarrow> P (f x s)"
  shows "P (fold f xs s)"
  using assms by (induction xs arbitrary: s) auto

section \<open>Words\<close>

lemma unat_add_small:
  "unat a + unat (b :: 'a::len word) < 2 ^ LENGTH('a) \<Longrightarrow> unat (a + b) = unat a + unat b"
  by (rule unat_add_lem [THEN iffD1])

lemma unat_of_nat_small: "n < 2 ^ LENGTH('a) \<Longrightarrow> unat (of_nat n :: 'a::len word) = n"
  by (simp add: unat_of_nat take_bit_nat_eq_self)

lemma odd_unat_div: "odd (unat (w :: 'a::len word) div 2 ^ n) \<longleftrightarrow> bit w n"
proof -
  have "bit (unat w) n \<longleftrightarrow> bit w n" by (simp add: bit_unsigned_iff)
  then show ?thesis by (simp add: bit_iff_odd)
qed

lemma unat_diff_le: "(b::'a::len word) \<le> a \<Longrightarrow> unat (a - b) = unat a - unat b"
  by (rule unat_sub)

end
