(* ===== verification/Tip_Tracker.thy ===== *)
theory Tip_Tracker
  imports Prelude
begin

text \<open>
  The interface that block acceptance (\<^verbatim>\<open>ChainstateManager::AcceptBlock\<close>) and block
  creation (\<^verbatim>\<open>BlockAssembler::CreateNewBlock\<close>) rely on when they use the tip tracker of
  \<^verbatim>\<open>src/src/dag/dagtipset.h\<close>: an abstract map from the current tips to their blue
  scores, an operation that connects a block and one that proposes mining parents. The
  lemmas of the locale are about any tracker with these laws.
\<close>

type_synonym arrival = "uint256 \<times> uint64 \<times> uint256 list"

text \<open>
  Blocks arrive parents first when no block names itself or a block that arrives later
  as a parent.
\<close>

definition parents_first :: "arrival list \<Rightarrow> bool" where
  "parents_first as \<longleftrightarrow>
     sorted_wrt (\<lambda>a b. fst b \<notin> set (snd (snd a))) as \<and>
     list_all (\<lambda>a. fst a \<notin> set (snd (snd a))) as"

definition childless :: "arrival list \<Rightarrow> uint256 \<Rightarrow> bool" where
  "childless as h \<longleftrightarrow> list_all (\<lambda>a. h \<notin> set (snd (snd a))) as"

lemma parents_first_snoc:
  "parents_first (as @ [(h, s, ps)]) \<longleftrightarrow> parents_first as \<and> childless as h \<and> h \<notin> set ps"
  by (auto simp: parents_first_def childless_def sorted_wrt_append list_all_iff)

lemma childless_snoc: "childless (as @ [(h, s, ps)]) g \<longleftrightarrow> childless as g \<and> g \<notin> set ps"
  by (auto simp: childless_def)

locale tip_tracker =
  fixes invar :: "'s \<Rightarrow> bool"
    and tips :: "'s \<Rightarrow> uint256 \<rightharpoonup> uint64"
    and init :: 's
    and connect :: "uint256 \<Rightarrow> uint64 \<Rightarrow> uint256 list \<Rightarrow> 's \<Rightarrow> 's"
    and candidates :: "uint32 \<Rightarrow> 's \<Rightarrow> uint256 list"
  assumes invar_init: "invar init"
    and tips_init: "tips init = Map.empty"
    and invar_connect: "invar t \<Longrightarrow> tips t h = None \<Longrightarrow> invar (connect h s ps t)"
    and tips_connect: "invar t \<Longrightarrow> tips (connect h s ps t) = (tips t |` (- set ps))(h \<mapsto> s)"
    and candidates_distinct: "invar t \<Longrightarrow> distinct (candidates n t)"
    and candidates_tips: "invar t \<Longrightarrow> set (candidates n t) \<subseteq> dom (tips t)"
    and candidates_length: "invar t \<Longrightarrow> length (candidates n t) = min (unat n) (card (dom (tips t)))"
begin

text \<open>
  After any number of arrivals in an order that respects parents, the tips are exactly
  the blocks without a child, each with the score it arrived with.
\<close>

lemma connect_all_tips:
  assumes "distinct (map fst as)" and "parents_first as"
  defines "run \<equiv> fold (\<lambda>(h, s, ps). connect h s ps)"
  shows "invar (run as init) \<and>
    (\<forall>h s. tips (run as init) h = Some s \<longleftrightarrow> (\<exists>ps. (h, s, ps) \<in> set as) \<and> childless as h)"
  using assms(1,2)
proof (induction as rule: rev_induct)
  case Nil
  then show ?case by (simp add: run_def invar_init tips_init)
next
  case (snoc a as)
  obtain h s ps where a: "a = (h, s, ps)" by (cases a)
  let ?t = "run as init"
  have IH: "invar ?t" "\<And>g r. tips ?t g = Some r \<longleftrightarrow> (\<exists>qs. (g, r, qs) \<in> set as) \<and> childless as g"
    using snoc a by (auto simp: parents_first_snoc)
  have fresh: "h \<notin> fst ` set as" using snoc.prems(1) a by simp
  then have none: "tips ?t h = None"
    using IH(2) [of h] by (cases "tips ?t h") force+
  have inv: "invar (connect h s ps ?t)" using IH(1) none by (rule invar_connect)
  have "tips (connect h s ps ?t) g = Some r \<longleftrightarrow>
      (\<exists>qs. (g, r, qs) \<in> set (as @ [a])) \<and> childless (as @ [a]) g" for g r
  proof (cases "g = h")
    case True
    have "\<nexists>r qs. (h, r, qs) \<in> set as" using fresh by force
    moreover have "childless (as @ [(h, s, ps)]) h"
      using snoc.prems(2) a by (simp add: parents_first_snoc childless_snoc)
    ultimately show ?thesis using True a by (auto simp: tips_connect [OF IH(1)])
  next
    case False
    then show ?thesis
      by (auto simp: a tips_connect [OF IH(1)] IH(2) childless_snoc restrict_map_def)
  qed
  then show ?case using inv by (simp add: a run_def)
qed

text \<open>
  The extra parents of a block template: the candidates without the selected parent.
  They are distinct tips other than the selected parent, at most \<open>n\<close> of them.
\<close>

lemma extra_parents_ok:
  assumes "invar t"
  shows "distinct (filter (\<lambda>p. p \<noteq> prev) (candidates n t))"
    and "prev \<notin> set (filter (\<lambda>p. p \<noteq> prev) (candidates n t))"
    and "set (filter (\<lambda>p. p \<noteq> prev) (candidates n t)) \<subseteq> dom (tips t)"
    and "length (filter (\<lambda>p. p \<noteq> prev) (candidates n t)) \<le> unat n"
proof -
  show "distinct (filter (\<lambda>p. p \<noteq> prev) (candidates n t))"
    using candidates_distinct [OF assms] by (rule distinct_filter)
  show "set (filter (\<lambda>p. p \<noteq> prev) (candidates n t)) \<subseteq> dom (tips t)"
    using candidates_tips [OF assms] by auto
  have "length (filter (\<lambda>p. p \<noteq> prev) (candidates n t)) \<le> length (candidates n t)"
    by (rule length_filter_le)
  also have "\<dots> \<le> unat n" by (simp add: candidates_length [OF assms])
  finally show "length (filter (\<lambda>p. p \<noteq> prev) (candidates n t)) \<le> unat n" .
qed simp

end

end
