(* ===== verification/Dag_Tip_Set.thy ===== *)
theory Dag_Tip_Set
  imports Tip_Tracker
begin

text \<open>
  The tip tracker \<^verbatim>\<open>dag::DagTipSet\<close> (\<^verbatim>\<open>src/src/dag/dagtipset.h\<close>,
  \<^verbatim>\<open>src/src/dag/dagtipset.cpp\<close>). The class keeps three containers; all of them are
  fields of the record below. The \<open>std::set\<close> ordered by \<open>TipOrder\<close> is its iteration
  sequence, a list that \<open>emplace\<close> and \<open>erase\<close> keep sorted; the two \<open>std::map\<close>s are
  partial functions. Log output is left out.

  The lemmas show the class invariant (the ordered set and the reverse map describe the
  same tips, and every tip has a known score), that the operations refine updates of one
  finite map from tips to scores, and what mining templates get out of it.
\<close>

section \<open>State and order\<close>

definition MAX_BLOCK_PARENTS :: uint32 where
  "MAX_BLOCK_PARENTS = 64"

definition KNOWN_SCORES_PRUNE_DEPTH :: uint64 where
  "KNOWN_SCORES_PRUNE_DEPTH = 1000"

record DagTipSet =
  m_score_to_hash :: "(uint64 \<times> uint256) list"
  m_hash_to_score :: "uint256 \<rightharpoonup> uint64"
  m_known_scores :: "uint256 \<rightharpoonup> uint64"

definition empty_tips :: DagTipSet where
  "empty_tips = \<lparr>m_score_to_hash = [], m_hash_to_score = Map.empty, m_known_scores = Map.empty\<rparr>"

fun TipOrder :: "uint64 \<times> uint256 \<Rightarrow> uint64 \<times> uint256 \<Rightarrow> bool" where
  "TipOrder a b = (if fst a \<noteq> fst b then fst a > fst b else snd a < snd b)"

text \<open>\<open>std::set::emplace\<close> and \<open>std::set::erase\<close> with the comparator \<open>TipOrder\<close>.\<close>

fun set_emplace :: "uint64 \<times> uint256 \<Rightarrow> (uint64 \<times> uint256) list \<Rightarrow> (uint64 \<times> uint256) list" where
  "set_emplace x [] = [x]"
| "set_emplace x (y # ys) =
     (if TipOrder x y then x # y # ys
      else if TipOrder y x then y # set_emplace x ys
      else y # ys)"

definition set_erase :: "uint64 \<times> uint256 \<Rightarrow> (uint64 \<times> uint256) list \<Rightarrow> (uint64 \<times> uint256) list" where
  "set_erase x xs = filter (\<lambda>y. TipOrder x y \<or> TipOrder y x) xs"

section \<open>Operations\<close>

definition InsertTip :: "uint256 \<Rightarrow> uint64 \<Rightarrow> DagTipSet \<Rightarrow> DagTipSet" where
  "InsertTip hash blue_score t =
     t\<lparr>m_score_to_hash := set_emplace (blue_score, hash) (m_score_to_hash t),
       m_hash_to_score := (m_hash_to_score t)(hash \<mapsto> blue_score),
       m_known_scores := (m_known_scores t)(hash \<mapsto> blue_score)\<rparr>"

definition RemoveTip :: "uint256 \<Rightarrow> DagTipSet \<Rightarrow> DagTipSet" where
  "RemoveTip hash t =
     (case m_hash_to_score t hash of
        None \<Rightarrow> t
      | Some score \<Rightarrow>
          t\<lparr>m_score_to_hash := set_erase (score, hash) (m_score_to_hash t),
            m_hash_to_score := (m_hash_to_score t)(hash := None)\<rparr>)"

definition PruneKnownScores :: "uint64 \<Rightarrow> DagTipSet \<Rightarrow> DagTipSet" where
  "PruneKnownScores best_score t =
     (if best_score \<le> KNOWN_SCORES_PRUNE_DEPTH then t
      else let cutoff = best_score - KNOWN_SCORES_PRUNE_DEPTH in
        t\<lparr>m_known_scores := (\<lambda>h. case m_known_scores t h of
            None \<Rightarrow> None
          | Some s \<Rightarrow> if s < cutoff \<and> m_hash_to_score t h = None then None else Some s)\<rparr>)"

definition BlockConnected :: "uint256 \<Rightarrow> uint64 \<Rightarrow> uint256 list \<Rightarrow> DagTipSet \<Rightarrow> DagTipSet" where
  "BlockConnected block_hash blue_score parents t =
     PruneKnownScores blue_score (InsertTip block_hash blue_score (fold RemoveTip parents t))"

definition restore_parent :: "uint256 \<Rightarrow> DagTipSet \<Rightarrow> DagTipSet" where
  "restore_parent p t =
     (if IsNull p \<or> m_hash_to_score t p \<noteq> None then t
      else case m_known_scores t p of
             Some s \<Rightarrow> InsertTip p s t
           | None \<Rightarrow> t)"

definition BlockDisconnected :: "uint256 \<Rightarrow> uint256 list \<Rightarrow> DagTipSet \<Rightarrow> DagTipSet" where
  "BlockDisconnected block_hash parent_hashes t =
     fold restore_parent parent_hashes (RemoveTip block_hash t)"

text \<open>The loop of \<open>GetMiningParents\<close>, with its early exit.\<close>

fun mining_parents_loop :: "nat \<Rightarrow> uint256 list \<Rightarrow> (uint64 \<times> uint256) list \<Rightarrow> uint256 list" where
  "mining_parents_loop max_parents result [] = result"
| "mining_parents_loop max_parents result ((score, hash) # rest) =
     (if length result \<ge> max_parents then result
      else mining_parents_loop max_parents (result @ [hash]) rest)"

definition GetMiningParents :: "uint32 \<Rightarrow> DagTipSet \<Rightarrow> uint256 list" where
  "GetMiningParents max_parents t = mining_parents_loop (unat max_parents) [] (m_score_to_hash t)"

definition IsTip :: "uint256 \<Rightarrow> DagTipSet \<Rightarrow> bool" where
  "IsTip hash t \<longleftrightarrow> m_hash_to_score t hash \<noteq> None"

definition Size :: "DagTipSet \<Rightarrow> nat" where
  "Size t = length (m_score_to_hash t)"

definition Clear :: "DagTipSet \<Rightarrow> DagTipSet" where
  "Clear t = t\<lparr>m_score_to_hash := [], m_hash_to_score := Map.empty, m_known_scores := Map.empty\<rparr>"

section \<open>The ordered set\<close>

lemma TipOrder_irrefl [simp]: "\<not> TipOrder x x"
  by simp

lemma TipOrder_trans: "TipOrder x y \<Longrightarrow> TipOrder y z \<Longrightarrow> TipOrder x z"
  by (auto split: if_splits)

lemma TipOrder_total: "x \<noteq> y \<Longrightarrow> TipOrder x y \<or> TipOrder y x"
  by (cases x; cases y) auto

declare TipOrder.simps [simp del]

lemma TipOrder_neq: "(TipOrder x y \<or> TipOrder y x) \<longleftrightarrow> x \<noteq> y"
  using TipOrder_total TipOrder_irrefl by blast

lemma set_set_emplace [simp]: "set (set_emplace x xs) = insert x (set xs)"
proof (induction xs)
  case (Cons y ys)
  then show ?case using TipOrder_total [of x y] by (cases "x = y") auto
qed simp

lemma sorted_set_emplace: "sorted_wrt TipOrder xs \<Longrightarrow> sorted_wrt TipOrder (set_emplace x xs)"
proof (induction xs)
  case (Cons y ys)
  then show ?case by (auto intro: TipOrder_trans)
qed simp

lemma set_erase_filter: "set_erase x xs = filter (\<lambda>y. y \<noteq> x) xs"
  by (auto simp: set_erase_def TipOrder_neq intro: filter_cong)

lemma set_set_erase [simp]: "set (set_erase x xs) = set xs - {x}"
  by (auto simp: set_erase_filter)

lemma sorted_set_erase: "sorted_wrt TipOrder xs \<Longrightarrow> sorted_wrt TipOrder (set_erase x xs)"
  by (simp add: set_erase_filter sorted_wrt_filter)

text \<open>A sequence sorted by \<open>TipOrder\<close> is determined by its elements.\<close>

lemma TipOrder_sorted_unique:
  "sorted_wrt TipOrder xs \<Longrightarrow> sorted_wrt TipOrder ys \<Longrightarrow> set xs = set ys \<Longrightarrow> xs = ys"
proof (induction xs arbitrary: ys)
  case (Cons x xs)
  then obtain y ys' where ys: "ys = y # ys'" by (cases ys) auto
  have lo: "\<forall>z\<in>set xs. TipOrder x z" "\<forall>z\<in>set ys'. TipOrder y z"
    using Cons.prems ys by auto
  have "x = y"
  proof (rule ccontr)
    assume "x \<noteq> y"
    then have "y \<in> set xs" and "x \<in> set ys'" using Cons.prems(3) ys by auto
    then show False using lo TipOrder_trans [of x y x] by simp
  qed
  moreover have "x \<notin> set xs" and "y \<notin> set ys'" using lo by auto
  then have "set xs = set ys'" using Cons.prems(3) ys \<open>x = y\<close> by auto
  ultimately show ?case using Cons ys by simp
qed simp

section \<open>The class invariant\<close>

definition tips_inv :: "DagTipSet \<Rightarrow> bool" where
  "tips_inv t \<longleftrightarrow>
     sorted_wrt TipOrder (m_score_to_hash t) \<and>
     (\<forall>s h. (s, h) \<in> set (m_score_to_hash t) \<longleftrightarrow> m_hash_to_score t h = Some s) \<and>
     (\<forall>h s. m_hash_to_score t h = Some s \<longrightarrow> m_known_scores t h = Some s)"

lemma tips_invD:
  assumes "tips_inv t"
  shows "sorted_wrt TipOrder (m_score_to_hash t)"
    and "(s, h) \<in> set (m_score_to_hash t) \<longleftrightarrow> m_hash_to_score t h = Some s"
    and "m_hash_to_score t h = Some s \<Longrightarrow> m_known_scores t h = Some s"
  using assms by (auto simp: tips_inv_def)

lemma tips_inv_empty [simp]: "tips_inv empty_tips"
  by (simp add: tips_inv_def empty_tips_def)

lemma tips_inv_Clear [simp]: "tips_inv (Clear t)"
  by (simp add: tips_inv_def Clear_def)

lemma tips_inv_RemoveTip: "tips_inv t \<Longrightarrow> tips_inv (RemoveTip h t)"
  by (auto simp: tips_inv_def RemoveTip_def sorted_set_erase split: option.splits if_splits)

lemma tips_inv_InsertTip:
  assumes "tips_inv t" and "m_hash_to_score t h = None \<or> m_hash_to_score t h = Some s"
  shows "tips_inv (InsertTip h s t)"
  using assms by (auto simp: tips_inv_def InsertTip_def sorted_set_emplace)

lemma tips_inv_PruneKnownScores: "tips_inv t \<Longrightarrow> tips_inv (PruneKnownScores s t)"
  by (auto simp: tips_inv_def PruneKnownScores_def Let_def split: option.splits)

lemma tips_inv_restore_parent: "tips_inv t \<Longrightarrow> tips_inv (restore_parent p t)"
  by (auto simp: restore_parent_def intro: tips_inv_InsertTip split: option.splits)

lemmas tips_inv_intros =
  tips_inv_RemoveTip tips_inv_InsertTip tips_inv_PruneKnownScores tips_inv_restore_parent

lemma tips_inv_fold_RemoveTip: "tips_inv t \<Longrightarrow> tips_inv (fold RemoveTip ps t)"
  by (rule fold_invariant) (auto intro: tips_inv_RemoveTip)

lemma tips_inv_BlockDisconnected: "tips_inv t \<Longrightarrow> tips_inv (BlockDisconnected h ps t)"
  unfolding BlockDisconnected_def
  by (rule fold_invariant) (auto intro: tips_inv_intros)

section \<open>Refinement to a map from tips to scores\<close>

lemma tips_RemoveTip [simp]: "m_hash_to_score (RemoveTip h t) = (m_hash_to_score t)(h := None)"
  by (auto simp: RemoveTip_def fun_eq_iff split: option.splits)

lemma tips_fold_RemoveTip [simp]:
  "m_hash_to_score (fold RemoveTip ps t) = m_hash_to_score t |` (- set ps)"
  by (induction ps arbitrary: t) (auto simp: restrict_map_def fun_eq_iff)

lemma tips_InsertTip [simp]: "m_hash_to_score (InsertTip h s t) = (m_hash_to_score t)(h \<mapsto> s)"
  by (simp add: InsertTip_def)

lemma tips_PruneKnownScores [simp]: "m_hash_to_score (PruneKnownScores s t) = m_hash_to_score t"
  by (simp add: PruneKnownScores_def Let_def)

lemma tips_BlockConnected:
  "m_hash_to_score (BlockConnected h s ps t) = (m_hash_to_score t |` (- set ps))(h \<mapsto> s)"
  by (simp add: BlockConnected_def)

lemma tips_inv_BlockConnected:
  assumes "tips_inv t" and "m_hash_to_score t h = None \<or> h \<in> set ps \<or> m_hash_to_score t h = Some s"
  shows "tips_inv (BlockConnected h s ps t)"
  unfolding BlockConnected_def using assms
  by (intro tips_inv_intros tips_inv_fold_RemoveTip) (auto simp: restrict_map_def)

lemma mining_parents_loop_take:
  "mining_parents_loop n result xs = result @ map snd (take (n - length result) xs)"
proof (induction n result xs rule: mining_parents_loop.induct)
  case (2 n result score hash rest)
  then show ?case
    by (cases "n \<le> length result") (auto simp: Suc_diff_Suc [symmetric] not_le)
qed simp

lemma GetMiningParents_take:
  "GetMiningParents n t = map snd (take (unat n) (m_score_to_hash t))"
  by (simp add: GetMiningParents_def mining_parents_loop_take)

lemma inj_tips: "tips_inv t \<Longrightarrow> inj_on snd (set (m_score_to_hash t))"
  by (auto simp: inj_on_def tips_invD)

lemma tips_dom: "tips_inv t \<Longrightarrow> dom (m_hash_to_score t) = snd ` set (m_score_to_hash t)"
  by (force simp: tips_invD(2) [symmetric] dom_def image_iff)

lemma Size_card:
  assumes "tips_inv t"
  shows "Size t = card (dom (m_hash_to_score t))"
proof -
  have "distinct (m_score_to_hash t)"
    using tips_invD(1) [OF assms] by (rule sorted_wrt_distinct) simp
  then show ?thesis
    by (simp add: Size_def tips_dom [OF assms] card_image [OF inj_tips [OF assms]] distinct_card)
qed

lemma distinct_mining_parents:
  assumes "tips_inv t"
  shows "distinct (GetMiningParents n t)"
proof -
  have "distinct (m_score_to_hash t)"
    using tips_invD(1) [OF assms] by (rule sorted_wrt_distinct) simp
  then have "distinct (map snd (m_score_to_hash t))"
    by (simp add: distinct_map inj_tips [OF assms])
  then show ?thesis by (simp add: GetMiningParents_take take_map [symmetric] distinct_take)
qed

lemma set_mining_parents:
  assumes "tips_inv t"
  shows "set (GetMiningParents n t) \<subseteq> dom (m_hash_to_score t)"
  unfolding tips_dom [OF assms] GetMiningParents_take using set_take_subset by fastforce

lemma length_mining_parents:
  assumes "tips_inv t"
  shows "length (GetMiningParents n t) = min (unat n) (card (dom (m_hash_to_score t)))"
  using Size_card [OF assms] by (simp add: GetMiningParents_take Size_def min.commute)

text \<open>A tip that is passed over ranks behind every tip that is taken.\<close>

lemma mining_parents_best:
  assumes inv: "tips_inv t" and h: "m_hash_to_score t h = Some s" "h \<notin> set (GetMiningParents n t)"
    and g: "g \<in> set (GetMiningParents n t)"
  shows "\<exists>s'. m_hash_to_score t g = Some s' \<and> TipOrder (s', g) (s, h)"
proof -
  let ?xs = "m_score_to_hash t"
  obtain s' where s': "(s', g) \<in> set (take (unat n) ?xs)"
    using g by (auto simp: GetMiningParents_take)
  have "(s, h) \<in> set ?xs" using inv h by (simp add: tips_invD)
  moreover have "(s, h) \<notin> set (take (unat n) ?xs)"
    using h(2) by (force simp: GetMiningParents_take)
  ultimately have "(s, h) \<in> set (drop (unat n) ?xs)"
    by (metis Un_iff append_take_drop_id set_append)
  moreover have "sorted_wrt TipOrder (take (unat n) ?xs @ drop (unat n) ?xs)"
    using tips_invD(1) [OF inv] by simp
  ultimately have "TipOrder (s', g) (s, h)"
    using s' unfolding sorted_wrt_append by blast
  then show ?thesis using s' inv by (auto simp: tips_invD(2) [symmetric] dest: in_set_takeD)
qed

interpretation dagtips: tip_tracker tips_inv m_hash_to_score empty_tips BlockConnected GetMiningParents
proof unfold_locales
  show "m_hash_to_score empty_tips = Map.empty" by (simp add: empty_tips_def)
qed (auto simp: tips_BlockConnected distinct_mining_parents length_mining_parents
  intro: tips_inv_BlockConnected dest: set_mining_parents [THEN subsetD])

section \<open>Properties\<close>

text \<open>Every way the tracker can change: a block is connected that is not a tip already, one
  is disconnected, or the tracker is cleared.\<close>

inductive tips_step :: "DagTipSet \<Rightarrow> DagTipSet \<Rightarrow> bool" where
  connect: "\<not> IsTip h t \<Longrightarrow> tips_step t (BlockConnected h s ps t)"
| disconnect: "tips_step t (BlockDisconnected h ps t)"
| clear: "tips_step t (Clear t)"

inductive reachable_tips :: "DagTipSet \<Rightarrow> bool" where
  init: "reachable_tips empty_tips"
| step: "reachable_tips t \<Longrightarrow> tips_step t t' \<Longrightarrow> reachable_tips t'"

lemma tips_step_inv: "tips_step t t' \<Longrightarrow> tips_inv t \<Longrightarrow> tips_inv t'"
  by (induction rule: tips_step.induct)
    (auto simp: IsTip_def intro: tips_inv_BlockConnected tips_inv_BlockDisconnected)

lemma reachable_tips_inv: "reachable_tips t \<Longrightarrow> tips_inv t"
  by (induction rule: reachable_tips.induct) (auto intro: tips_step_inv)

lemma tips_restore_parent:
  "m_hash_to_score (restore_parent p t) q =
     (if q = p \<and> \<not> IsNull p \<and> m_hash_to_score t p = None then m_known_scores t p
      else m_hash_to_score t q)"
  by (auto simp: restore_parent_def split: option.splits)

lemma known_restore_parent [simp]: "m_known_scores (restore_parent p t) = m_known_scores t"
  by (auto simp: restore_parent_def InsertTip_def fun_eq_iff split: option.splits)

lemma tips_fold_restore_parent:
  "m_hash_to_score (fold restore_parent ps t) q =
     (if q \<in> set ps \<and> \<not> IsNull q \<and> m_hash_to_score t q = None then m_known_scores t q
      else m_hash_to_score t q)"
  by (induction ps arbitrary: t) (auto simp: tips_restore_parent)

lemma known_fold_RemoveTip [simp]: "m_known_scores (fold RemoveTip ps t) = m_known_scores t"
  by (induction ps arbitrary: t) (auto simp: RemoveTip_def split: option.splits)

lemma known_RemoveTip [simp]: "m_known_scores (RemoveTip h t) = m_known_scores t"
  by (auto simp: RemoveTip_def split: option.splits)

text \<open>What pruning keeps: an entry survives when it is a tip or recent enough.\<close>

lemma known_BlockConnected:
  "m_known_scores (BlockConnected h s ps t) g =
     (if g = h then Some s
      else case m_known_scores t g of None \<Rightarrow> None
       | Some r \<Rightarrow>
           if KNOWN_SCORES_PRUNE_DEPTH < s \<and> r < s - KNOWN_SCORES_PRUNE_DEPTH \<and>
              (m_hash_to_score t |` (- set ps)) g = None
           then None else Some r)"
  by (auto simp: BlockConnected_def PruneKnownScores_def InsertTip_def Let_def not_le split: option.splits)

text \<open>C28: In every state the tracker can reach, its containers agree: the ordered set is sorted
  by \<open>TipOrder\<close> (highest blue score first, then lowest hash), holds a pair exactly for
  each entry of the reverse map, every tip has its score among the known scores, and
  \<open>Size\<close> counts the tips.\<close>

theorem tip_containers_agree:
  assumes "reachable_tips t"
  shows "sorted_wrt TipOrder (m_score_to_hash t) \<and>
    (\<forall>s h. (s, h) \<in> set (m_score_to_hash t) \<longleftrightarrow> m_hash_to_score t h = Some s) \<and>
    (\<forall>h s. m_hash_to_score t h = Some s \<longrightarrow> m_known_scores t h = Some s) \<and>
    Size t = card {h. IsTip h t}"
  using reachable_tips_inv [OF assms]
  by (auto simp: tips_invD Size_card dom_def IsTip_def)

theorem tip_containers_agree_witness:
  "let t = BlockConnected 2 1 [1] (BlockConnected 1 0 [] empty_tips) in
   m_score_to_hash t = [(1, 2)] \<and> Size t = card {h. IsTip h t}"
proof -
  let ?t = "BlockConnected 2 1 [1] (BlockConnected 1 0 [] empty_tips)"
  have "reachable_tips ?t"
    by (intro reachable_tips.step [OF _ tips_step.connect] reachable_tips.init)
      (simp_all add: IsTip_def tips_BlockConnected empty_tips_def)
  from tip_containers_agree [OF this] show ?thesis
    by (simp add: BlockConnected_def PruneKnownScores_def InsertTip_def RemoveTip_def
        empty_tips_def KNOWN_SCORES_PRUNE_DEPTH_def set_erase_def)
qed

text \<open>C29: When blocks are connected parents first, the tips are exactly the connected blocks
  that no connected block names as a parent, each with the blue score it was connected
  with.\<close>

theorem tips_are_childless_blocks:
  assumes "distinct (map fst as)" and "parents_first as"
  shows "m_hash_to_score (fold (\<lambda>(h, s, ps). BlockConnected h s ps) as empty_tips) h = Some s \<longleftrightarrow>
    (\<exists>ps. (h, s, ps) \<in> set as) \<and> childless as h"
  using dagtips.connect_all_tips [OF assms] by blast

theorem tips_are_childless_blocks_witness:
  "m_hash_to_score (fold (\<lambda>(h, s, ps). BlockConnected h s ps)
     [(1, 0, []), (2, 1, [1]), (3, 1, [1]), (4, 3, [2])] empty_tips) 3 = Some 1"
  by (subst tips_are_childless_blocks) (auto simp: parents_first_def childless_def)

text \<open>\<open>GetMiningParents\<close> returns distinct tips, as many as there are up to the requested
  maximum, and never passes over a tip for one that ranks behind it in \<open>TipOrder\<close>.\<close>

theorem GetMiningParents_best_tips:
  assumes "reachable_tips t"
  shows "distinct (GetMiningParents n t) \<and>
    length (GetMiningParents n t) = min (unat n) (card {h. IsTip h t}) \<and>
    (\<forall>g\<in>set (GetMiningParents n t). IsTip g t) \<and>
    (\<forall>g h s. g \<in> set (GetMiningParents n t) \<longrightarrow> h \<notin> set (GetMiningParents n t) \<longrightarrow>
       m_hash_to_score t h = Some s \<longrightarrow>
       (\<exists>s'. m_hash_to_score t g = Some s' \<and> TipOrder (s', g) (s, h)))"
proof -
  have inv: "tips_inv t" using assms by (rule reachable_tips_inv)
  have dom: "{h. IsTip h t} = dom (m_hash_to_score t)" by (auto simp: IsTip_def dom_def)
  show ?thesis
    using distinct_mining_parents [OF inv, of n] length_mining_parents [OF inv, of n]
      set_mining_parents [OF inv, of n] mining_parents_best [OF inv, of _ _ n]
    unfolding dom by (auto simp: IsTip_def)
qed

theorem GetMiningParents_best_tips_witness:
  "let t = BlockConnected 3 5 [1] (BlockConnected 2 4 [1] (BlockConnected 1 0 [] empty_tips)) in
   GetMiningParents 1 t = [3] \<and> length (GetMiningParents 1 t) = min 1 (card {h. IsTip h t})"
proof -
  let ?t = "BlockConnected 3 5 [1] (BlockConnected 2 4 [1] (BlockConnected 1 0 [] empty_tips))"
  have "reachable_tips ?t"
    by (intro reachable_tips.step [OF _ tips_step.connect] reachable_tips.init)
      (simp_all add: IsTip_def tips_BlockConnected empty_tips_def)
  from GetMiningParents_best_tips [OF this, of 1] show ?thesis
    by (simp add: BlockConnected_def PruneKnownScores_def InsertTip_def RemoveTip_def
        empty_tips_def KNOWN_SCORES_PRUNE_DEPTH_def set_erase_def TipOrder.simps GetMiningParents_def)
qed

text \<open>Disconnecting a block right after connecting it restores the tips and their order,
  provided the block was not a tip, its parents were tips with non-null hashes, and each
  parent's score is within \<open>KNOWN_SCORES_PRUNE_DEPTH\<close> of the block's (an older parent's
  score is pruned, and the parent is then not restored).\<close>

theorem disconnect_undoes_connect:
  assumes "reachable_tips t" and "\<not> IsTip h t"
    and "\<forall>p\<in>set ps. \<not> IsNull p \<and> (\<exists>r. m_hash_to_score t p = Some r \<and>
           (s \<le> KNOWN_SCORES_PRUNE_DEPTH \<or> s - KNOWN_SCORES_PRUNE_DEPTH \<le> r))"
  shows "m_hash_to_score (BlockDisconnected h ps (BlockConnected h s ps t)) = m_hash_to_score t \<and>
    m_score_to_hash (BlockDisconnected h ps (BlockConnected h s ps t)) = m_score_to_hash t"
proof -
  let ?u = "BlockDisconnected h ps (BlockConnected h s ps t)"
  have inv: "tips_inv t" using assms(1) by (rule reachable_tips_inv)
  have hne: "m_hash_to_score t h = None" using assms(2) by (simp add: IsTip_def)
  have known: "m_known_scores (BlockConnected h s ps t) p = m_hash_to_score t p" if "p \<in> set ps" for p
    using bspec [OF assms(3) that] hne tips_invD(3) [OF inv, of p]
    by (auto simp: known_BlockConnected not_le not_less)
  have tips: "m_hash_to_score ?u = m_hash_to_score t"
    using hne assms(3)
    by (auto simp: fun_eq_iff BlockDisconnected_def tips_fold_restore_parent tips_BlockConnected
        known restrict_map_def)
  have inv': "tips_inv ?u"
    using inv hne by (intro tips_inv_BlockDisconnected tips_inv_BlockConnected) simp_all
  have "set (m_score_to_hash ?u) = set (m_score_to_hash t)"
    using tips_invD(2) [OF inv] tips_invD(2) [OF inv'] tips by auto
  then have "m_score_to_hash ?u = m_score_to_hash t"
    using tips_invD(1) [OF inv] tips_invD(1) [OF inv'] by (intro TipOrder_sorted_unique)
  with tips show ?thesis ..
qed

theorem disconnect_undoes_connect_witness:
  "let t = BlockConnected 1 0 [] empty_tips in
   m_score_to_hash (BlockDisconnected 2 [1] (BlockConnected 2 1 [1] t)) = [(0, 1)]"
proof -
  let ?t = "BlockConnected 1 0 [] empty_tips"
  have r: "reachable_tips ?t"
    by (intro reachable_tips.step [OF _ tips_step.connect] reachable_tips.init)
      (simp_all add: IsTip_def empty_tips_def)
  have "m_score_to_hash (BlockDisconnected 2 [1] (BlockConnected 2 1 [1] ?t)) = m_score_to_hash ?t"
    using disconnect_undoes_connect [OF r, of 2 "[1]" 1]
    by (simp add: IsTip_def tips_BlockConnected empty_tips_def IsNull_def KNOWN_SCORES_PRUNE_DEPTH_def)
  then show ?thesis
    by (simp add: BlockConnected_def PruneKnownScores_def InsertTip_def empty_tips_def
        KNOWN_SCORES_PRUNE_DEPTH_def)
qed

text \<open>Connecting a block with a blue score beyond \<open>KNOWN_SCORES_PRUNE_DEPTH\<close> leaves in
  the known scores only current tips and blocks at most that depth behind it.\<close>

theorem known_scores_bounded:
  assumes "KNOWN_SCORES_PRUNE_DEPTH < s" and "m_known_scores (BlockConnected h s ps t) g = Some r"
  shows "IsTip g (BlockConnected h s ps t) \<or> unat s \<le> unat r + 1000"
proof -
  have "g = h \<or> (m_hash_to_score t |` (- set ps)) g \<noteq> None \<or> s - KNOWN_SCORES_PRUNE_DEPTH \<le> r"
    using assms by (auto simp: known_BlockConnected not_less split: if_splits option.splits)
  moreover have "unat s \<le> unat r + 1000" if "s - KNOWN_SCORES_PRUNE_DEPTH \<le> r"
    using that unat_sub [OF less_imp_le [OF assms(1)]]
    by (simp add: word_le_nat_alt KNOWN_SCORES_PRUNE_DEPTH_def)
  ultimately show ?thesis by (auto simp: IsTip_def tips_BlockConnected)
qed

theorem known_scores_bounded_witness:
  "let t = BlockConnected 2 1500 [1] (BlockConnected 1 700 [] empty_tips) in
   m_known_scores t 1 = Some 700 \<and> (IsTip 1 t \<or> unat (1500::uint64) \<le> unat (700::uint64) + 1000)"
proof -
  have k: "m_known_scores (BlockConnected 2 1500 [1] (BlockConnected 1 700 [] empty_tips)) 1 = Some 700"
    by (simp add: known_BlockConnected KNOWN_SCORES_PRUNE_DEPTH_def)
  show ?thesis
    using k known_scores_bounded [OF _ k] by (simp add: KNOWN_SCORES_PRUNE_DEPTH_def)
qed

text \<open>Disconnecting a block is meant to restore parents that are childless again, but the tracker
  does not know the other children. Two blocks extend block 1; when the second is disconnected, block
  1 becomes a tip although the first still extends it, and the next template names both.\<close>

theorem disconnect_restores_parent_with_child:
  "let t = fold (\<lambda>(h, sc, ps). BlockConnected h sc ps) [(1, 0, []), (2, 1, [1]), (3, 1, [1])] empty_tips;
       t' = BlockDisconnected 3 [1] t
   in \<not> IsTip 1 t \<and> IsTip 1 t' \<and> IsTip 2 t' \<and> GetMiningParents MAX_BLOCK_PARENTS t' = [2, 1]"
  by (simp add: TipOrder.simps BlockConnected_def BlockDisconnected_def restore_parent_def PruneKnownScores_def InsertTip_def RemoveTip_def IsTip_def
      GetMiningParents_def MAX_BLOCK_PARENTS_def IsNull_def empty_tips_def KNOWN_SCORES_PRUNE_DEPTH_def set_erase_def)

end
