(* ===== verification/Serialize.thy ===== *)
theory Serialize
  imports Prelude
begin

text \<open>
  The byte formats of \<^verbatim>\<open>src/src/serialize.h\<close> the block header uses: fixed-width little-endian
  integers, 256-bit blobs in memory order, and the variable-length \<open>CompactSize\<close>. A stream is the
  list of bytes still to be read; every \<^verbatim>\<open>std::ios_base::failure\<close> is a value of \<open>ser_error\<close>.
\<close>

section \<open>Little-endian digits\<close>

fun le_bytes :: "nat \<Rightarrow> nat \<Rightarrow> uint8 list" where
  "le_bytes 0 x = []"
| "le_bytes (Suc n) x = of_nat x # le_bytes n (x div 256)"

fun le_val :: "uint8 list \<Rightarrow> nat" where
  "le_val [] = 0"
| "le_val (b # bs) = unat b + 256 * le_val bs"

section \<open>Streams\<close>

datatype ser_error = EndOfData | NonCanonicalCompactSize | SizeTooLarge | TooManyParents

type_synonym 'a read_result = "ser_error + 'a \<times> uint8 list"

definition stream_read :: "nat \<Rightarrow> uint8 list \<Rightarrow> uint8 list read_result" where
  "stream_read n st = (if n > length st then Inl EndOfData else Inr (take n st, drop n st))"

definition bind_read :: "'a read_result \<Rightarrow> ('a \<Rightarrow> uint8 list \<Rightarrow> 'b read_result) \<Rightarrow> 'b read_result" where
  "bind_read r f = (case r of Inl e \<Rightarrow> Inl e | Inr (x, st) \<Rightarrow> f x st)"

definition ser_writedata32 :: "uint32 \<Rightarrow> uint8 list" where
  "ser_writedata32 obj = le_bytes 4 (unat obj)"

definition ser_readdata32 :: "uint8 list \<Rightarrow> uint32 read_result" where
  "ser_readdata32 st = bind_read (stream_read 4 st) (\<lambda>bs st'. Inr (of_nat (le_val bs), st'))"

text \<open>A blob is written as its bytes stand in memory: most significant byte of \<open>uint256\<close> first.\<close>

definition uint256_Serialize :: "uint256 \<Rightarrow> uint8 list" where
  "uint256_Serialize h = rev (le_bytes 32 (unat h))"

definition uint256_Unserialize :: "uint8 list \<Rightarrow> uint256 read_result" where
  "uint256_Unserialize st = bind_read (stream_read 32 st) (\<lambda>bs st'. Inr (of_nat (le_val (rev bs)), st'))"

section \<open>Variable-length sizes\<close>

definition MAX_SIZE :: nat where
  "MAX_SIZE = 0x02000000"

definition WriteCompactSize :: "uint64 \<Rightarrow> uint8 list" where
  "WriteCompactSize nSize =
     (if unat nSize < 253 then le_bytes 1 (unat nSize)
      else if unat nSize \<le> 0xffff then 253 # le_bytes 2 (unat nSize)
      else if unat nSize \<le> 0xffffffff then 254 # le_bytes 4 (unat nSize)
      else 255 # le_bytes 8 (unat nSize))"

definition compact_tail :: "nat \<Rightarrow> nat \<Rightarrow> uint8 list \<Rightarrow> nat read_result" where
  "compact_tail width least st =
     bind_read (stream_read width st) (\<lambda>bs st'.
       if le_val bs < least then Inl NonCanonicalCompactSize else Inr (le_val bs, st'))"

definition ReadCompactSize :: "bool \<Rightarrow> uint8 list \<Rightarrow> nat read_result" where
  "ReadCompactSize range_check st =
     bind_read (stream_read 1 st) (\<lambda>bs st1.
       let chSize = le_val bs in
       bind_read
         (if chSize < 253 then Inr (chSize, st1)
          else if chSize = 253 then compact_tail 2 253 st1
          else if chSize = 254 then compact_tail 4 0x10000 st1
          else compact_tail 8 0x100000000 st1)
         (\<lambda>nSizeRet st2. if range_check \<and> nSizeRet > MAX_SIZE then Inl SizeTooLarge else Inr (nSizeRet, st2)))"

section \<open>Facts about digits\<close>

lemma length_le_bytes [simp]: "length (le_bytes n x) = n"
  by (induction n x rule: le_bytes.induct) auto

lemma unat_of_nat_byte: "unat (of_nat x :: uint8) = x mod 256"
  by (simp add: unsigned_of_nat take_bit_eq_mod)

lemma le_val_le_bytes: "x < 256 ^ n \<Longrightarrow> le_val (le_bytes n x) = x"
proof (induction n x rule: le_bytes.induct)
  case (2 n x)
  then have "x div 256 < 256 ^ n" by (simp add: less_mult_imp_div_less mult.commute)
  then show ?case using 2 by (simp add: unat_of_nat_byte)
qed simp

lemma le_val_bound: "le_val bs < 256 ^ length bs"
proof (induction bs)
  case (Cons b bs)
  have "unat b < 256" using unsigned_less [of b, where ?'a = nat] by simp
  then show ?case using Cons by simp
qed simp

lemma le_bytes_le_val: "le_bytes (length bs) (le_val bs) = bs"
proof (induction bs)
  case (Cons b bs)
  have b: "unat b < 256" using unsigned_less [of b, where ?'a = nat] by simp
  have "of_nat (unat b + 256 * le_val bs) = b"
  proof (rule unsigned_word_eqI [where ?'a = nat])
    show "unat (of_nat (unat b + 256 * le_val bs) :: uint8) = unat b"
      using b by (simp only: unat_of_nat_byte) simp
  qed
  then show ?case using Cons b by simp
qed simp

lemma le_bytes_inj: "x < 256 ^ n \<Longrightarrow> y < 256 ^ n \<Longrightarrow> le_bytes n x = le_bytes n y \<Longrightarrow> x = y"
  by (metis le_val_le_bytes)

lemma stream_read_append [simp]: "length bs = n \<Longrightarrow> stream_read n (bs @ rest) = Inr (bs, rest)"
  by (simp add: stream_read_def)

lemma bind_read_simps [simp]:
  "bind_read (Inl e) f = Inl e" "bind_read (Inr (x, st)) f = f x st"
  by (simp_all add: bind_read_def)

lemma bind_read_InrE:
  assumes "bind_read r f = Inr y"
  obtains x st where "r = Inr (x, st)" and "f x st = Inr y"
  using assms by (auto simp: bind_read_def split: sum.splits)

lemma stream_read_InrD: "stream_read n st = Inr (bs, st') \<Longrightarrow> st = bs @ st' \<and> length bs = n"
  by (auto simp: stream_read_def split: if_splits)

section \<open>Round trips\<close>

lemma uint32_bound: "unat (x :: uint32) < 256 ^ 4"
  using unsigned_less [of x, where ?'a = nat] by simp

lemma uint256_bound: "unat (x :: uint256) < 256 ^ 32"
  using unsigned_less [of x, where ?'a = nat] by simp

lemma length_ser [simp]:
  "length (ser_writedata32 x) = 4" "length (uint256_Serialize h) = 32"
  by (simp_all add: ser_writedata32_def uint256_Serialize_def)

lemma ser_readdata32_write [simp]: "ser_readdata32 (ser_writedata32 x @ rest) = Inr (x, rest)"
  using le_val_le_bytes [OF uint32_bound [of x]]
  by (simp add: ser_readdata32_def ser_writedata32_def)

lemma uint256_Unserialize_Serialize [simp]: "uint256_Unserialize (uint256_Serialize h @ rest) = Inr (h, rest)"
  using le_val_le_bytes [OF uint256_bound [of h]]
  by (simp add: uint256_Unserialize_def uint256_Serialize_def)

lemma ser_writedata32_inj: "ser_writedata32 x = ser_writedata32 y \<Longrightarrow> x = y"
  using ser_readdata32_write [of x "[]"] ser_readdata32_write [of y "[]"] by simp

lemma uint256_Serialize_inj: "uint256_Serialize x = uint256_Serialize y \<Longrightarrow> x = y"
  using uint256_Unserialize_Serialize [of x "[]"] uint256_Unserialize_Serialize [of y "[]"] by simp

lemma ser_readdata32_InrD:
  assumes "ser_readdata32 st = Inr (x, st')"
  shows "st = ser_writedata32 x @ st'"
proof -
  obtain bs where bs: "stream_read 4 st = Inr (bs, st')" "x = of_nat (le_val bs)"
    using assms by (auto simp: ser_readdata32_def elim!: bind_read_InrE)
  then have st: "st = bs @ st'" "length bs = 4" by (auto dest: stream_read_InrD)
  have "le_val bs < 2 ^ 32" using le_val_bound [of bs] st(2) by simp
  then have "unat x = le_val bs" using bs(2) by (simp add: unat_of_nat_small)
  then show ?thesis using st le_bytes_le_val [of bs] by (simp add: ser_writedata32_def)
qed

lemma uint256_Unserialize_InrD:
  assumes "uint256_Unserialize st = Inr (h, st')"
  shows "st = uint256_Serialize h @ st'"
proof -
  obtain bs where bs: "stream_read 32 st = Inr (bs, st')" "h = of_nat (le_val (rev bs))"
    using assms by (auto simp: uint256_Unserialize_def elim!: bind_read_InrE)
  then have st: "st = bs @ st'" "length bs = 32" by (auto dest: stream_read_InrD)
  have "le_val (rev bs) < 2 ^ 256" using le_val_bound [of "rev bs"] st(2) by simp
  then have "unat h = le_val (rev bs)" using bs(2) by (simp add: unat_of_nat_small)
  then have "uint256_Serialize h = rev (le_bytes (length (rev bs)) (le_val (rev bs)))"
    using st(2) by (simp add: uint256_Serialize_def)
  then show ?thesis using st le_bytes_le_val [of "rev bs"] by simp
qed

lemma compact_tail_write:
  "x < 256 ^ width \<Longrightarrow> least \<le> x \<Longrightarrow> compact_tail width least (le_bytes width x @ rest) = Inr (x, rest)"
  by (simp add: compact_tail_def le_val_le_bytes)

lemma ReadCompactSize_Write:
  "ReadCompactSize False (WriteCompactSize n @ rest) = Inr (unat n, rest)"
proof -
  have "unat n < 2 ^ 64" using unsigned_less [of n, where ?'a = nat] by simp
  then show ?thesis
    using le_val_le_bytes [of "unat n" 1]
    by (auto simp: ReadCompactSize_def WriteCompactSize_def compact_tail_write stream_read_def
        simp flip: append_Cons)
qed

lemma ReadCompactSize_checked:
  "unat n \<le> MAX_SIZE \<Longrightarrow> ReadCompactSize True (WriteCompactSize n @ rest) = Inr (unat n, rest)"
  using ReadCompactSize_Write [of n rest]
  by (auto simp: ReadCompactSize_def Let_def elim!: bind_read_InrE)

lemma compact_tail_InrD:
  assumes "compact_tail width least st = Inr (x, st')"
  shows "st = le_bytes width x @ st'" and "x < 256 ^ width" and "least \<le> x"
proof -
  obtain bs where bs: "stream_read width st = Inr (bs, st')" "x = le_val bs" "least \<le> x"
    using assms by (auto simp: compact_tail_def elim!: bind_read_InrE split: if_splits)
  then have "st = bs @ st'" "length bs = width" by (auto dest: stream_read_InrD)
  then show "st = le_bytes width x @ st'" and "x < 256 ^ width" and "least \<le> x"
    using bs le_bytes_le_val [of bs] le_val_bound [of bs] by auto
qed

text \<open>Only the shortest encoding of a size is readable.\<close>

lemma ReadCompactSize_canonical:
  assumes "ReadCompactSize rc st = Inr (x, st')"
  shows "x < 2 ^ 64 \<and> st = WriteCompactSize (of_nat x) @ st'"
proof -
  obtain bs st1 st2 where rd: "stream_read 1 st = Inr (bs, st1)"
    and t: "(if le_val bs < 253 then Inr (le_val bs, st1)
          else if le_val bs = 253 then compact_tail 2 253 st1
          else if le_val bs = 254 then compact_tail 4 0x10000 st1
          else compact_tail 8 0x100000000 st1) = Inr (x, st')"
    using assms by (auto simp: ReadCompactSize_def Let_def elim!: bind_read_InrE split: if_splits)
  from rd have st: "st = bs @ st1" "length bs = 1" by (auto dest: stream_read_InrD)
  then obtain b where b: "bs = [b]" by (cases bs) auto
  have byte: "b = of_nat n" if "le_val bs = n" for n using b that by auto
  have lt: "le_val bs < 256" using le_val_bound [of bs] st(2) by simp
  consider "le_val bs < 253" | "le_val bs = 253" | "le_val bs = 254" | "le_val bs = 255" using lt by linarith
  then show ?thesis
  proof cases
    case 1
    then have x: "x = le_val bs" "st' = st1" using t by auto
    then have "unat (of_nat x :: uint64) = x" using 1 by (intro unat_of_nat_small) simp
    moreover have "le_bytes 1 x = bs" using x st(2) le_bytes_le_val [of bs] by simp
    ultimately show ?thesis using 1 st x by (simp add: WriteCompactSize_def)
  next
    case 2
    then have c: "compact_tail 2 253 st1 = Inr (x, st')" using t by simp
    from compact_tail_InrD [OF c] show ?thesis
      using st(1) b byte [OF 2] by (simp add: WriteCompactSize_def unat_of_nat_small)
  next
    case 3
    then have c: "compact_tail 4 0x10000 st1 = Inr (x, st')" using t by simp
    from compact_tail_InrD [OF c] show ?thesis
      using st(1) b byte [OF 3] by (simp add: WriteCompactSize_def unat_of_nat_small)
  next
    case 4
    then have c: "compact_tail 8 0x100000000 st1 = Inr (x, st')" using t by simp
    from compact_tail_InrD [OF c] show ?thesis
      using st(1) b byte [OF 4] by (simp add: WriteCompactSize_def unat_of_nat_small)
  qed
qed

end
