(* ===== verification/Sha256.thy ===== *)
theory Sha256
  imports Prelude
begin

unbundle bit_operations_syntax

text \<open>
  SHA-256 as the node computes it (\<^verbatim>\<open>src/src/crypto/sha256.cpp\<close>) and the double hash
  of \<^verbatim>\<open>HashWriter\<close> (\<^verbatim>\<open>src/src/hash.h\<close>). The unrolled rounds of \<open>Transform\<close> rename
  their eight registers instead of moving them; the model moves them, and it keeps the sixteen
  message words as a window whose head is the word the round uses.

  The streaming class buffers partial blocks; the lemmas show that the buffered computation is
  the hash of the concatenation of everything written, however the writes are cut.
\<close>

section \<open>The compression function\<close>

definition Ch :: "uint32 \<Rightarrow> uint32 \<Rightarrow> uint32 \<Rightarrow> uint32" where
  "Ch x y z = z XOR (x AND (y XOR z))"

definition Maj :: "uint32 \<Rightarrow> uint32 \<Rightarrow> uint32 \<Rightarrow> uint32" where
  "Maj x y z = (x AND y) OR (z AND (x OR y))"

definition Sigma0 :: "uint32 \<Rightarrow> uint32" where
  "Sigma0 x = (drop_bit 2 x OR push_bit 30 x) XOR (drop_bit 13 x OR push_bit 19 x) XOR
     (drop_bit 22 x OR push_bit 10 x)"

definition Sigma1 :: "uint32 \<Rightarrow> uint32" where
  "Sigma1 x = (drop_bit 6 x OR push_bit 26 x) XOR (drop_bit 11 x OR push_bit 21 x) XOR
     (drop_bit 25 x OR push_bit 7 x)"

definition sigma0 :: "uint32 \<Rightarrow> uint32" where
  "sigma0 x = (drop_bit 7 x OR push_bit 25 x) XOR (drop_bit 18 x OR push_bit 14 x) XOR drop_bit 3 x"

definition sigma1 :: "uint32 \<Rightarrow> uint32" where
  "sigma1 x = (drop_bit 17 x OR push_bit 15 x) XOR (drop_bit 19 x OR push_bit 13 x) XOR drop_bit 10 x"

type_synonym registers = "uint32 \<times> uint32 \<times> uint32 \<times> uint32 \<times> uint32 \<times> uint32 \<times> uint32 \<times> uint32"

definition Round :: "uint32 \<Rightarrow> registers \<Rightarrow> registers" where
  "Round k regs = (case regs of (a, b, c, d, e, f, g, h) \<Rightarrow>
     let t1 = h + Sigma1 e + Ch e f g + k;
         t2 = Sigma0 a + Maj a b c
     in (t1 + t2, a, b, c, d + t1, e, f, g))"

definition sha256_Initialize :: registers where
  "sha256_Initialize = (0x6a09e667, 0xbb67ae85, 0x3c6ef372, 0xa54ff53a, 0x510e527f, 0x9b05688c, 0x1f83d9ab, 0x5be0cd19)"

text \<open>The constants of the unrolled rounds, one row for each cycle of the eight registers.\<close>

definition round_constants :: "uint32 list" where
  "round_constants =
    [0x428a2f98, 0x71374491, 0xb5c0fbcf, 0xe9b5dba5, 0x3956c25b, 0x59f111f1, 0x923f82a4, 0xab1c5ed5] @
    [0xd807aa98, 0x12835b01, 0x243185be, 0x550c7dc3, 0x72be5d74, 0x80deb1fe, 0x9bdc06a7, 0xc19bf174] @
    [0xe49b69c1, 0xefbe4786, 0x0fc19dc6, 0x240ca1cc, 0x2de92c6f, 0x4a7484aa, 0x5cb0a9dc, 0x76f988da] @
    [0x983e5152, 0xa831c66d, 0xb00327c8, 0xbf597fc7, 0xc6e00bf3, 0xd5a79147, 0x06ca6351, 0x14292967] @
    [0x27b70a85, 0x2e1b2138, 0x4d2c6dfc, 0x53380d13, 0x650a7354, 0x766a0abb, 0x81c2c92e, 0x92722c85] @
    [0xa2bfe8a1, 0xa81a664b, 0xc24b8b70, 0xc76c51a3, 0xd192e819, 0xd6990624, 0xf40e3585, 0x106aa070] @
    [0x19a4c116, 0x1e376c08, 0x2748774c, 0x34b0bcb5, 0x391c0cb3, 0x4ed8aa4a, 0x5b9cca4f, 0x682e6ff3] @
    [0x748f82ee, 0x78a5636f, 0x84c87814, 0x8cc70208, 0x90befffa, 0xa4506ceb, 0xbef9a3f7, 0xc67178f2]"

text \<open>The word that takes the place of \<open>w0\<close> sixteen rounds later.\<close>

definition next_word :: "uint32 list \<Rightarrow> uint32" where
  "next_word w = w ! 0 + (sigma1 (w ! 14) + w ! 9 + sigma0 (w ! 1))"

fun rounds :: "uint32 list \<Rightarrow> uint32 list \<Rightarrow> registers \<Rightarrow> registers" where
  "rounds [] w regs = regs"
| "rounds (k # ks) w regs = rounds ks (tl w @ [next_word w]) (Round (k + hd w) regs)"

definition ReadBE32 :: "uint8 list \<Rightarrow> uint32" where
  "ReadBE32 b = push_bit 24 (ucast (b ! 0)) OR push_bit 16 (ucast (b ! 1)) OR push_bit 8 (ucast (b ! 2)) OR ucast (b ! 3)"

definition WriteBE32 :: "uint32 \<Rightarrow> uint8 list" where
  "WriteBE32 x = [ucast (drop_bit 24 x), ucast (drop_bit 16 x), ucast (drop_bit 8 x), ucast x]"

definition WriteBE64 :: "uint64 \<Rightarrow> uint8 list" where
  "WriteBE64 x = map (\<lambda>i. ucast (drop_bit (56 - 8 * i) x)) [0..<8]"

definition message_words :: "uint8 list \<Rightarrow> uint32 list" where
  "message_words chunk = map (\<lambda>i. ReadBE32 (drop (4 * i) chunk)) [0..<16]"

definition Transform1 :: "registers \<Rightarrow> uint8 list \<Rightarrow> registers" where
  "Transform1 s chunk =
     (case (s, rounds round_constants (message_words chunk) s) of
        ((a, b, c, d, e, f, g, h), (a', b', c', d', e', f', g', h')) \<Rightarrow>
          (a + a', b + b', c + c', d + d', e + e', f + f', g + g', h + h'))"

fun Transform :: "registers \<Rightarrow> uint8 list \<Rightarrow> nat \<Rightarrow> registers" where
  "Transform s chunk 0 = s"
| "Transform s chunk (Suc blocks) = Transform (Transform1 s chunk) (drop 64 chunk) blocks"

section \<open>The streaming class\<close>

record CSHA256 =
  s :: registers
  buf :: "uint8 list"
  bytes :: uint64

definition CSHA256_new :: CSHA256 where
  "CSHA256_new = \<lparr>s = sha256_Initialize, buf = replicate 64 0, bytes = 0\<rparr>"

text \<open>\<open>memcpy(dst + at, src, n)\<close> into a buffer.\<close>

definition memcpy_at :: "'a list \<Rightarrow> nat \<Rightarrow> 'a list \<Rightarrow> 'a list" where
  "memcpy_at dst at src = take at dst @ src @ drop (at + length src) dst"

definition sha_fill :: "CSHA256 \<Rightarrow> uint8 list \<Rightarrow> CSHA256 \<times> uint8 list" where
  "sha_fill ctx data =
     (let bufsize = unat (bytes ctx mod 64) in
      if bufsize \<noteq> 0 \<and> bufsize + length data \<ge> 64
      then let b = memcpy_at (buf ctx) bufsize (take (64 - bufsize) data)
           in (ctx\<lparr>buf := b, bytes := bytes ctx + of_nat (64 - bufsize), s := Transform (s ctx) b 1\<rparr>,
               drop (64 - bufsize) data)
      else (ctx, data))"

definition sha_blocks :: "CSHA256 \<Rightarrow> uint8 list \<Rightarrow> CSHA256 \<times> uint8 list" where
  "sha_blocks ctx data =
     (if length data \<ge> 64
      then let blocks = length data div 64
           in (ctx\<lparr>s := Transform (s ctx) data blocks, bytes := bytes ctx + of_nat (64 * blocks)\<rparr>,
               drop (64 * blocks) data)
      else (ctx, data))"

definition sha_rest :: "nat \<Rightarrow> CSHA256 \<Rightarrow> uint8 list \<Rightarrow> CSHA256" where
  "sha_rest bufsize ctx data =
     (if data \<noteq> [] then ctx\<lparr>buf := memcpy_at (buf ctx) bufsize data, bytes := bytes ctx + of_nat (length data)\<rparr>
      else ctx)"

definition Write :: "CSHA256 \<Rightarrow> uint8 list \<Rightarrow> CSHA256" where
  "Write ctx data =
     (let bufsize = unat (bytes ctx mod 64);
          bufsize' = (if bufsize \<noteq> 0 \<and> bufsize + length data \<ge> 64 then 0 else bufsize);
          (ctx1, data1) = sha_fill ctx data;
          (ctx2, data2) = sha_blocks ctx1 data1
      in sha_rest bufsize' ctx2 data2)"

definition sha_digest :: "registers \<Rightarrow> uint8 list" where
  "sha_digest regs = (case regs of (a, b, c, d, e, f, g, h) \<Rightarrow>
     WriteBE32 a @ WriteBE32 b @ WriteBE32 c @ WriteBE32 d @ WriteBE32 e @ WriteBE32 f @ WriteBE32 g @ WriteBE32 h)"

definition sha_pad :: "uint8 list" where
  "sha_pad = 0x80 # replicate 63 0"

definition Finalize :: "CSHA256 \<Rightarrow> CSHA256 \<times> uint8 list" where
  "Finalize ctx =
     (let sizedesc = WriteBE64 (push_bit 3 (bytes ctx));
          ctx1 = Write ctx (take (1 + (119 - unat (bytes ctx mod 64)) mod 64) sha_pad);
          ctx2 = Write ctx1 sizedesc
      in (ctx2, sha_digest (s ctx2)))"

definition Reset :: "CSHA256 \<Rightarrow> CSHA256" where
  "Reset ctx = ctx\<lparr>bytes := 0, s := sha256_Initialize\<rparr>"

section \<open>The double hash of a writer stream\<close>

definition HashWriter_GetHash :: "CSHA256 \<Rightarrow> uint8 list" where
  "HashWriter_GetHash ctx =
     (let (ctx1, result) = Finalize ctx in snd (Finalize (Write (Reset ctx1) result)))"

section \<open>Streaming\<close>

lemma message_words_append: "64 \<le> length x \<Longrightarrow> message_words (x @ y) = message_words x"
  by (auto simp: message_words_def ReadBE32_def nth_append)

lemma Transform1_append: "64 \<le> length x \<Longrightarrow> Transform1 st (x @ y) = Transform1 st x"
  by (simp add: Transform1_def message_words_append)

lemma Transform_append: "64 * n \<le> length x \<Longrightarrow> Transform st (x @ y) n = Transform st x n"
  by (induction st x n rule: Transform.induct) (auto simp: Transform1_append)

lemma Transform_add: "Transform st x (n + k) = Transform (Transform st x n) (drop (64 * n) x) k"
  by (induction st x n rule: Transform.induct) (auto simp: add.commute)

text \<open>\<open>written ctx m\<close>: the object has received exactly the bytes \<open>m\<close>.\<close>

definition written :: "CSHA256 \<Rightarrow> uint8 list \<Rightarrow> bool" where
  "written ctx m \<longleftrightarrow> length (buf ctx) = 64 \<and> bytes ctx = of_nat (length m) \<and>
     s ctx = Transform sha256_Initialize m (length m div 64) \<and>
     take (length m mod 64) (buf ctx) = drop (64 * (length m div 64)) m"

lemma written_new: "written CSHA256_new []"
  by (simp add: written_def CSHA256_new_def)

lemma written_Reset: "length (buf ctx) = 64 \<Longrightarrow> written (Reset ctx) []"
  by (simp add: written_def Reset_def)

lemma unat_of_nat_mod_64: "unat ((of_nat n :: uint64) mod 64) = n mod 64"
proof -
  have "unat ((of_nat n :: uint64) mod 64) = unat (of_nat n :: uint64) mod 64"
    by (simp add: unat_mod_distrib)
  also have "unat (of_nat n :: uint64) = n mod 2 ^ 64"
    by (simp add: unsigned_of_nat take_bit_eq_mod)
  finally show ?thesis by (simp add: mod_mod_cancel)
qed

lemma written_bufsize: "written ctx m \<Longrightarrow> unat (bytes ctx mod 64) = length m mod 64"
  by (simp add: written_def unat_of_nat_mod_64)

lemma written_sha_fill:
  assumes w: "written ctx m" and r: "length m mod 64 \<noteq> 0" "length m mod 64 + length data \<ge> 64"
    and k: "k = 64 - length m mod 64"
  obtains ctx1 where "sha_fill ctx data = (ctx1, drop k data)" and "written ctx1 (m @ take k data)"
    and "length (m @ take k data) mod 64 = 0"
proof -
  let ?n = "length m" and ?b = "memcpy_at (buf ctx) (length m mod 64) (take k data)"
  let ?ctx1 = "ctx\<lparr>buf := ?b, bytes := bytes ctx + of_nat k, s := Transform (s ctx) ?b 1\<rparr>"
  have len: "length (take k data) = k" using r k by simp
  have n: "?n + k = 64 * (?n div 64 + 1)" unfolding k by presburger
  have b: "?b = drop (64 * (?n div 64)) m @ take k data"
    using w len k by (simp add: memcpy_at_def written_def)
  have "Transform sha256_Initialize (m @ take k data) (?n div 64 + 1) = Transform (s ctx) ?b 1"
    using w by (simp only: Transform_add b) (simp add: written_def Transform_append)
  moreover have "length ?b = 64" using w len k by (simp add: memcpy_at_def written_def)
  moreover have "(?n + k) div 64 = ?n div 64 + 1" "(?n + k) mod 64 = 0" using n by simp_all
  moreover have "k \<le> 64 + 64 * (?n div 64) - ?n" using n by simp
  ultimately have "written ?ctx1 (m @ take k data)" using w len by (simp add: written_def)
  moreover have "sha_fill ctx data = (?ctx1, drop k data)"
    using r k by (simp add: sha_fill_def Let_def written_bufsize [OF w])
  ultimately show ?thesis using that len \<open>(?n + k) mod 64 = 0\<close> by simp
qed

lemma written_sha_blocks:
  assumes w: "written ctx m" and r: "length m mod 64 = 0 \<or> length data < 64"
  defines "k \<equiv> (if length m mod 64 = 0 then 64 * (length data div 64) else 0)"
  obtains ctx1 where "sha_blocks ctx data = (ctx1, drop k data)" and "written ctx1 (m @ take k data)"
    and "length (m @ take k data) mod 64 = length m mod 64"
proof (cases "length data \<ge> 64")
  case False
  then have "k = 0" by (simp add: k_def)
  then show ?thesis using that w False by (simp add: sha_blocks_def)
next
  case True
  let ?q = "length m div 64" and ?p = "length data div 64"
  let ?ctx1 = "ctx\<lparr>s := Transform (s ctx) data ?p, bytes := bytes ctx + of_nat (64 * ?p)\<rparr>"
  have r0: "length m mod 64 = 0" and m: "length m = 64 * ?q" using True r by auto
  have k: "k = 64 * ?p" "k \<le> length data" using r0 by (simp_all add: k_def)
  have "Transform sha256_Initialize (m @ take k data) (?q + ?p) =
      Transform (Transform sha256_Initialize m ?q) (take k data) ?p"
    using m by (simp add: Transform_add Transform_append)
  also have "\<dots> = Transform (s ctx) (take k data @ drop k data) ?p"
    using w k by (subst Transform_append) (auto simp: written_def)
  finally have t: "Transform sha256_Initialize (m @ take k data) (?q + ?p) = Transform (s ctx) data ?p" by simp
  have len: "length (m @ take k data) = 64 * (?q + ?p)" using m k by simp
  then have "length (m @ take k data) div 64 = ?q + ?p" "length (m @ take k data) mod 64 = 0" by simp_all
  then have "written ?ctx1 (m @ take k data)"
    using w t len k m unfolding written_def by (simp add: add.commute)
  moreover have "sha_blocks ctx data = (?ctx1, drop k data)" using True k(1) by (simp add: sha_blocks_def Let_def)
  ultimately show ?thesis using that r0 \<open>length (m @ take k data) mod 64 = 0\<close> by simp
qed

lemma written_sha_rest:
  assumes w: "written ctx m" and r: "length m mod 64 + length data < 64"
  shows "written (sha_rest (length m mod 64) ctx data) (m @ data)"
proof -
  let ?n = "length m"
  have "?n + length data = 64 * (?n div 64) + (?n mod 64 + length data)" by simp
  then have d: "(?n + length data) div 64 = ?n div 64" "(?n + length data) mod 64 = ?n mod 64 + length data"
    using r by (metis div_mult_self4 div_less add.right_neutral zero_neq_numeral)
      (metis \<open>?n + length data = 64 * (?n div 64) + (?n mod 64 + length data)\<close> r mod_less mod_mult_self4)
  show ?thesis using w r
    by (auto simp: sha_rest_def written_def d Transform_append memcpy_at_def minus_mult_div_eq_mod)
qed

lemma written_Write:
  assumes w: "written ctx m"
  shows "written (Write ctx data) (m @ data)"
proof (cases "length m mod 64 \<noteq> 0 \<and> length m mod 64 + length data \<ge> 64")
  case True
  define k where "k = 64 - length m mod 64"
  obtain ctx1 where 1: "sha_fill ctx data = (ctx1, drop k data)" "written ctx1 (m @ take k data)"
    "length (m @ take k data) mod 64 = 0" using written_sha_fill [OF w _ _ k_def] True by blast
  let ?j = "64 * (length (drop k data) div 64)"
  obtain ctx2 where 2: "sha_blocks ctx1 (drop k data) = (ctx2, drop ?j (drop k data))"
    "written ctx2 ((m @ take k data) @ take ?j (drop k data))"
    "length ((m @ take k data) @ take ?j (drop k data)) mod 64 = 0"
    using written_sha_blocks [OF 1(2), of "drop k data"] 1(3) by auto
  have "length (drop ?j (drop k data)) < 64"
    by (metis length_drop minus_mult_div_eq_mod mod_less_divisor zero_less_numeral)
  then have "written (sha_rest 0 ctx2 (drop ?j (drop k data))) (m @ data)"
    using written_sha_rest [OF 2(2), of "drop ?j (drop k data)"] 2(3)
    by (simp only: append_assoc append_take_drop_id add_0)
  then show ?thesis using 1(1) 2(1) True by (simp add: Write_def Let_def written_bufsize [OF w])
next
  case False
  then have fill: "sha_fill ctx data = (ctx, data)" by (auto simp: sha_fill_def Let_def written_bufsize [OF w])
  define k where "k = (if length m mod 64 = 0 then 64 * (length data div 64) else 0)"
  have "length m mod 64 = 0 \<or> length data < 64" using False by auto
  then obtain ctx2 where 2: "sha_blocks ctx data = (ctx2, drop k data)"
    "written ctx2 (m @ take k data)" "length (m @ take k data) mod 64 = length m mod 64"
    by (rule written_sha_blocks [OF w, of data, folded k_def])
  have "length m mod 64 + length (drop k data) < 64"
    using False by (auto simp: k_def minus_mult_div_eq_mod)
  then have "written (sha_rest (length m mod 64) ctx2 (drop k data)) (m @ data)"
    using written_sha_rest [OF 2(2), of "drop k data"] 2(3) by simp
  then show ?thesis using fill 2(1) False by (auto simp: Write_def Let_def written_bufsize [OF w])
qed

section \<open>Padding\<close>

text \<open>The message as the standard pads it, and the digest of the padded message in one pass.\<close>

definition padded :: "uint8 list \<Rightarrow> uint8 list" where
  "padded m = m @ 0x80 # replicate ((119 - length m mod 64) mod 64) 0 @ WriteBE64 (of_nat (8 * length m))"

definition sha256_digest :: "uint8 list \<Rightarrow> uint8 list" where
  "sha256_digest m = sha_digest (Transform sha256_Initialize (padded m) (length (padded m) div 64))"

lemma length_WriteBE64: "length (WriteBE64 x) = 8"
  by (simp add: WriteBE64_def)

lemma length_padded: "length (padded m) mod 64 = 0"
proof -
  define q r where "q = length m div 64" and "r = length m mod 64"
  have m: "length m = 64 * q + r" and r: "r < 64" by (simp_all add: q_def r_def)
  have len: "length (padded m) = 64 * q + r + 9 + (119 - r) mod 64"
    using m by (simp add: padded_def length_WriteBE64 r_def)
  show ?thesis
  proof (cases "r \<le> 55")
    case True
    then have "119 - r = 64 + (55 - r)" by simp
    then have "(119 - r) mod 64 = 55 - r" using True by (simp only: mod_add_self1) simp
    then have "length (padded m) = 64 * (q + 1)" using len True by simp
    then show ?thesis by simp
  next
    case False
    then have "length (padded m) = 64 * (q + 2)" using len r by simp
    then show ?thesis by simp
  qed
qed

lemma push_bit_3_of_nat: "push_bit 3 (of_nat n :: uint64) = of_nat (8 * n)"
  by (simp add: push_bit_eq_mult mult.commute)

lemma Finalize_digest:
  assumes w: "written ctx m"
  shows "snd (Finalize ctx) = sha256_digest m" and "length (buf (fst (Finalize ctx))) = 64"
proof -
  let ?z = "(119 - length m mod 64) mod 64"
  have "?z < 64" by simp
  then have pad: "take (1 + ?z) sha_pad = 0x80 # replicate ?z 0" by (simp add: sha_pad_def)
  have size: "push_bit 3 (bytes ctx) = of_nat (8 * length m)"
    using w push_bit_3_of_nat [of "length m"] by (simp only: written_def)
  let ?ctx2 = "Write (Write ctx (0x80 # replicate ?z 0)) (WriteBE64 (of_nat (8 * length m)))"
  have w2: "written ?ctx2 (padded m)"
    using written_Write [OF written_Write [OF w], of "0x80 # replicate ?z 0" "WriteBE64 (of_nat (8 * length m))"]
    unfolding padded_def by (simp only: append_assoc append_Cons)
  have fin: "Finalize ctx = (?ctx2, sha_digest (s ?ctx2))"
    unfolding Finalize_def Let_def written_bufsize [OF w] pad size ..
  show "snd (Finalize ctx) = sha256_digest m"
    using w2 unfolding fin by (simp add: written_def sha256_digest_def)
  show "length (buf (fst (Finalize ctx))) = 64" using w2 unfolding fin by (simp add: written_def)
qed

lemma HashWriter_digest:
  assumes w: "written ctx m"
  shows "HashWriter_GetHash ctx = sha256_digest (sha256_digest m)"
proof -
  obtain ctx1 d where f: "Finalize ctx = (ctx1, d)" by fastforce
  then have d: "d = sha256_digest m" and "length (buf ctx1) = 64" using Finalize_digest [OF w] by auto
  then have "written (Write (Reset ctx1) d) d"
    using written_Write [OF written_Reset, of ctx1 d] by simp
  then show ?thesis using f d Finalize_digest(1) by (simp add: HashWriter_GetHash_def)
qed

lemma length_sha256_digest: "length (sha256_digest m) = 32"
  by (simp add: sha256_digest_def sha_digest_def WriteBE32_def split: prod.splits)

lemma written_foldl: "written ctx m \<Longrightarrow> written (foldl Write ctx chunks) (m @ concat chunks)"
proof (induction chunks arbitrary: ctx m)
  case (Cons c cs)
  then show ?case using written_Write [of ctx m c] by fastforce
qed simp

section \<open>Properties\<close>

text \<open>However a sequence of writes cuts the data into pieces, \<open>HashWriter\<close> returns 32 bytes:
  the double SHA-256 of the concatenation, padded with a one bit, zeros and the 64-bit length to a
  whole number of 64-byte blocks. The partial-block buffer never loses, repeats or reorders a
  byte.\<close>

theorem HashWriter_streaming:
  "HashWriter_GetHash (foldl Write CSHA256_new chunks) = sha256_digest (sha256_digest (concat chunks)) \<and>
   length (padded (concat chunks)) mod 64 = 0 \<and>
   length (HashWriter_GetHash (foldl Write CSHA256_new chunks)) = 32"
  using HashWriter_digest [OF written_foldl [OF written_new]] length_padded length_sha256_digest
  by simp

end
