(* ===== verification/Block_Header.thy ===== *)
theory Block_Header
  imports Serialize Sha256
begin

unbundle bit_operations_syntax

text \<open>
  Block headers (\<^verbatim>\<open>src/src/primitives/block.h\<close>, \<^verbatim>\<open>src/src/primitives/block.cpp\<close>): the
  header record, its two wire formats (80 bytes, or 112 bytes and a parent vector in DAG mode), the
  commitment to the extra parents and the block hash.

  The lemmas show that reading inverts writing and accepts nothing else, and that the hash pins
  down the parent set unless double SHA-256 is broken.
\<close>

section \<open>The header\<close>

definition MAX_BLOCK_PARENTS_SERIALIZATION :: nat where
  "MAX_BLOCK_PARENTS_SERIALIZATION = 64"

definition BLOCK_VERSION_DAGMODE :: uint32 where
  "BLOCK_VERSION_DAGMODE = push_bit 28 1"

record CBlockHeader =
  nVersion :: uint32
  hashPrevBlock :: uint256
  hashMerkleRoot :: uint256
  nTime :: uint32
  nBits :: uint32
  nNonce :: uint32
  hashParentsRoot :: uint256
  hashParents :: "uint256 list"

definition SetNull :: CBlockHeader where
  "SetNull = \<lparr>nVersion = 0, hashPrevBlock = 0, hashMerkleRoot = 0, nTime = 0, nBits = 0, nNonce = 0,
     hashParentsRoot = 0, hashParents = []\<rparr>"

definition IsDagBlock :: "CBlockHeader \<Rightarrow> bool" where
  "IsDagBlock h \<longleftrightarrow> nVersion h AND BLOCK_VERSION_DAGMODE \<noteq> 0"

definition GetAllParents :: "CBlockHeader \<Rightarrow> uint256 list" where
  "GetAllParents h =
     (if \<not> IsNull (hashPrevBlock h) then [hashPrevBlock h] else []) @ filter (\<lambda>p. \<not> IsNull p) (hashParents h)"

section \<open>Wire format\<close>

definition header_Serialize :: "CBlockHeader \<Rightarrow> uint8 list" where
  "header_Serialize h =
     ser_writedata32 (nVersion h) @ uint256_Serialize (hashPrevBlock h) @ uint256_Serialize (hashMerkleRoot h) @
     ser_writedata32 (nTime h) @ ser_writedata32 (nBits h) @
     (if IsDagBlock h then uint256_Serialize (hashParentsRoot h) else []) @
     ser_writedata32 (nNonce h) @
     (if IsDagBlock h
      then WriteCompactSize (of_nat (length (hashParents h))) @ concat (map uint256_Serialize (hashParents h))
      else [])"

fun read_hashes :: "nat \<Rightarrow> uint8 list \<Rightarrow> uint256 list read_result" where
  "read_hashes 0 st = Inr ([], st)"
| "read_hashes (Suc n) st =
     bind_read (uint256_Unserialize st) (\<lambda>h st1.
       bind_read (read_hashes n st1) (\<lambda>hs st2. Inr (h # hs, st2)))"

definition read_parents :: "uint8 list \<Rightarrow> uint256 list read_result" where
  "read_parents st =
     bind_read (ReadCompactSize True st) (\<lambda>nSize st1.
       if nSize > MAX_BLOCK_PARENTS_SERIALIZATION then Inl TooManyParents else read_hashes nSize st1)"

text \<open>Reading fills an existing object; the DAG fields stay as they were in the 80-byte format.\<close>

definition header_Unserialize :: "CBlockHeader \<Rightarrow> uint8 list \<Rightarrow> CBlockHeader read_result" where
  "header_Unserialize obj st =
     bind_read (ser_readdata32 st) (\<lambda>v st1.
     bind_read (uint256_Unserialize st1) (\<lambda>prev st2.
     bind_read (uint256_Unserialize st2) (\<lambda>mroot st3.
     bind_read (ser_readdata32 st3) (\<lambda>t st4.
     bind_read (ser_readdata32 st4) (\<lambda>b st5.
       let obj1 = obj\<lparr>nVersion := v, hashPrevBlock := prev, hashMerkleRoot := mroot, nTime := t, nBits := b\<rparr> in
       if IsDagBlock obj1
       then bind_read (uint256_Unserialize st5) (\<lambda>proot st6.
            bind_read (ser_readdata32 st6) (\<lambda>n st7.
            bind_read (read_parents st7) (\<lambda>ps st8.
              Inr (obj1\<lparr>hashParentsRoot := proot, nNonce := n, hashParents := ps\<rparr>, st8))))
       else bind_read (ser_readdata32 st5) (\<lambda>n st6. Inr (obj1\<lparr>nNonce := n\<rparr>, st6)))))))"

section \<open>Hashes\<close>

definition digest_uint256 :: "uint8 list \<Rightarrow> uint256" where
  "digest_uint256 bs = of_nat (le_val (rev bs))"

definition ComputeParentsRoot :: "uint256 list \<Rightarrow> uint256" where
  "ComputeParentsRoot parents =
     (if parents = [] then 0
      else digest_uint256 (HashWriter_GetHash (foldl Write CSHA256_new (map uint256_Serialize parents))))"

text \<open>The pieces streamed into the hasher, in order.\<close>

definition hash_pieces :: "CBlockHeader \<Rightarrow> uint8 list list" where
  "hash_pieces h =
     [ser_writedata32 (nVersion h), uint256_Serialize (hashPrevBlock h), uint256_Serialize (hashMerkleRoot h),
      ser_writedata32 (nTime h), ser_writedata32 (nBits h)] @
     (if IsDagBlock h then [uint256_Serialize (hashParentsRoot h)] else []) @
     [ser_writedata32 (nNonce h)]"

definition GetHash :: "CBlockHeader \<Rightarrow> uint256" where
  "GetHash h = digest_uint256 (HashWriter_GetHash (foldl Write CSHA256_new (hash_pieces h)))"

section \<open>Facts about the wire format\<close>

lemma read_hashes_write: "read_hashes (length hs) (concat (map uint256_Serialize hs) @ rest) = Inr (hs, rest)"
  by (induction hs) auto

lemma read_hashes_InrD:
  "read_hashes n st = Inr (hs, rest) \<Longrightarrow> length hs = n \<and> st = concat (map uint256_Serialize hs) @ rest"
proof (induction n st arbitrary: hs rest rule: read_hashes.induct)
  case (2 n st)
  from "2.prems" obtain h st1 hs' where "uint256_Unserialize st = Inr (h, st1)"
    "read_hashes n st1 = Inr (hs', rest)" "hs = h # hs'"
    by (auto elim!: bind_read_InrE)
  then show ?case using "2.IH" by (auto dest: uint256_Unserialize_InrD)
qed simp

lemma read_parents_write:
  assumes "length hs \<le> MAX_BLOCK_PARENTS_SERIALIZATION"
  shows "read_parents (WriteCompactSize (of_nat (length hs)) @ concat (map uint256_Serialize hs) @ rest) = Inr (hs, rest)"
proof -
  have "unat (of_nat (length hs) :: uint64) = length hs"
    using assms by (intro unat_of_nat_small) (simp add: MAX_BLOCK_PARENTS_SERIALIZATION_def)
  then show ?thesis
    using assms ReadCompactSize_checked [of "of_nat (length hs)"] read_hashes_write
    by (simp add: read_parents_def MAX_BLOCK_PARENTS_SERIALIZATION_def MAX_SIZE_def)
qed

lemma read_parents_InrD:
  assumes "read_parents st = Inr (hs, rest)"
  shows "length hs \<le> MAX_BLOCK_PARENTS_SERIALIZATION"
    and "st = WriteCompactSize (of_nat (length hs)) @ concat (map uint256_Serialize hs) @ rest"
proof -
  obtain n st1 where n: "ReadCompactSize True st = Inr (n, st1)" "n \<le> MAX_BLOCK_PARENTS_SERIALIZATION"
    "read_hashes n st1 = Inr (hs, rest)"
    using assms by (auto simp: read_parents_def elim!: bind_read_InrE split: if_splits)
  then show "length hs \<le> MAX_BLOCK_PARENTS_SERIALIZATION"
    and "st = WriteCompactSize (of_nat (length hs)) @ concat (map uint256_Serialize hs) @ rest"
    using ReadCompactSize_canonical [OF n(1)] read_hashes_InrD [OF n(3)] by auto
qed

lemma IsDagBlock_version: "nVersion a = nVersion b \<Longrightarrow> IsDagBlock a = IsDagBlock b"
  by (simp add: IsDagBlock_def)

section \<open>Facts about the hash\<close>

definition hash_preimage :: "CBlockHeader \<Rightarrow> uint8 list" where
  "hash_preimage h = concat (hash_pieces h)"

definition sha256d :: "uint8 list \<Rightarrow> uint8 list" where
  "sha256d m = sha256_digest (sha256_digest m)"

lemma GetHash_preimage: "GetHash h = digest_uint256 (sha256d (hash_preimage h))"
  using HashWriter_digest [OF written_foldl [OF written_new]]
  by (simp add: GetHash_def hash_preimage_def sha256d_def)

lemma ComputeParentsRoot_preimage:
  "ps \<noteq> [] \<Longrightarrow> ComputeParentsRoot ps = digest_uint256 (sha256d (concat (map uint256_Serialize ps)))"
  using HashWriter_digest [OF written_foldl [OF written_new]]
  by (simp add: ComputeParentsRoot_def sha256d_def)

lemma length_sha256d [simp]: "length (sha256d m) = 32"
  by (simp add: sha256d_def length_sha256_digest)

lemma digest_uint256_inj:
  assumes "length a = 32" "length b = 32" "digest_uint256 a = digest_uint256 b"
  shows "a = b"
proof -
  have "unat (of_nat (le_val (rev x)) :: uint256) = le_val (rev x)" if "length x = 32" for x
    using that le_val_bound [of "rev x"] by (intro unat_of_nat_small) simp
  then have "le_val (rev a) = le_val (rev b)" using assms unfolding digest_uint256_def by metis
  then have "rev a = rev b" using le_bytes_le_val [of "rev a"] le_bytes_le_val [of "rev b"] assms by simp
  then show ?thesis by simp
qed

lemma append_eq_lengths: "length a = length b \<Longrightarrow> a @ x = b @ y \<Longrightarrow> a = b \<and> x = y"
  by simp

lemma hash_preimage_inj:
  assumes "hash_preimage a = hash_preimage b"
  shows "nVersion a = nVersion b" "hashPrevBlock a = hashPrevBlock b" "hashMerkleRoot a = hashMerkleRoot b"
    "nTime a = nTime b" "nBits a = nBits b" "nNonce a = nNonce b"
    "IsDagBlock a \<Longrightarrow> hashParentsRoot a = hashParentsRoot b"
proof -
  show v: "nVersion a = nVersion b"
    using assms by (auto simp: hash_preimage_def hash_pieces_def intro: ser_writedata32_inj)
  have d: "IsDagBlock a = IsDagBlock b" by (rule IsDagBlock_version [OF v])
  show "hashPrevBlock a = hashPrevBlock b" "hashMerkleRoot a = hashMerkleRoot b"
    "nTime a = nTime b" "nBits a = nBits b" "nNonce a = nNonce b"
    "IsDagBlock a \<Longrightarrow> hashParentsRoot a = hashParentsRoot b"
    using assms d
    by (auto simp: hash_preimage_def hash_pieces_def split: if_splits
        intro: ser_writedata32_inj uint256_Serialize_inj)
qed

lemma concat_Serialize_inj:
  "concat (map uint256_Serialize xs) = concat (map uint256_Serialize ys) \<Longrightarrow> xs = ys"
proof (induction xs arbitrary: ys)
  case Nil
  then have "length (concat (map uint256_Serialize ys)) = 0" by simp
  then show ?case by (cases ys) auto
next
  case (Cons x xs)
  then have "length (concat (map uint256_Serialize ys)) = length (concat (map uint256_Serialize (x # xs)))" by simp
  then obtain y ys' where "ys = y # ys'" by (cases ys) auto
  then show ?case using Cons by (auto intro: uint256_Serialize_inj)
qed

section \<open>Properties\<close>

lemma header_Unserialize_write:
  assumes "IsDagBlock h \<Longrightarrow> length (hashParents h) \<le> MAX_BLOCK_PARENTS_SERIALIZATION"
  shows "header_Unserialize obj (header_Serialize h @ rest) =
    Inr (if IsDagBlock h then h else h\<lparr>hashParentsRoot := hashParentsRoot obj, hashParents := hashParents obj\<rparr>, rest)"
proof -
  have d: "IsDagBlock (obj\<lparr>nVersion := nVersion h, hashPrevBlock := p, hashMerkleRoot := m, nTime := t, nBits := b\<rparr>)
      = IsDagBlock h" for p m t b by (rule IsDagBlock_version) simp
  show ?thesis
    using assms by (cases "IsDagBlock h")
      (simp_all add: header_Unserialize_def header_Serialize_def d read_parents_write)
qed

lemma header_Unserialize_InrD:
  assumes "header_Unserialize obj st = Inr (h, rest)"
  shows "st = header_Serialize h @ rest"
    and "IsDagBlock h \<Longrightarrow> length (hashParents h) \<le> MAX_BLOCK_PARENTS_SERIALIZATION"
    and "\<not> IsDagBlock h \<Longrightarrow> hashParentsRoot h = hashParentsRoot obj \<and> hashParents h = hashParents obj"
proof -
  obtain v st1 prev st2 mroot st3 t st4 b st5 where rd:
    "ser_readdata32 st = Inr (v, st1)" "uint256_Unserialize st1 = Inr (prev, st2)"
    "uint256_Unserialize st2 = Inr (mroot, st3)" "ser_readdata32 st3 = Inr (t, st4)"
    "ser_readdata32 st4 = Inr (b, st5)" and k:
    "(let obj1 = obj\<lparr>nVersion := v, hashPrevBlock := prev, hashMerkleRoot := mroot, nTime := t, nBits := b\<rparr> in
       if IsDagBlock obj1
       then bind_read (uint256_Unserialize st5) (\<lambda>proot st6.
            bind_read (ser_readdata32 st6) (\<lambda>n st7.
            bind_read (read_parents st7) (\<lambda>ps st8.
              Inr (obj1\<lparr>hashParentsRoot := proot, nNonce := n, hashParents := ps\<rparr>, st8))))
       else bind_read (ser_readdata32 st5) (\<lambda>n st6. Inr (obj1\<lparr>nNonce := n\<rparr>, st6))) = Inr (h, rest)"
    using assms unfolding header_Unserialize_def by (elim bind_read_InrE)
  let ?o = "obj\<lparr>nVersion := v, hashPrevBlock := prev, hashMerkleRoot := mroot, nTime := t, nBits := b\<rparr>"
  have base: "st = ser_writedata32 v @ uint256_Serialize prev @ uint256_Serialize mroot @
      ser_writedata32 t @ ser_writedata32 b @ st5"
    using rd by (auto dest!: ser_readdata32_InrD uint256_Unserialize_InrD)
  have "st = header_Serialize h @ rest \<and>
      (if IsDagBlock h then length (hashParents h) \<le> MAX_BLOCK_PARENTS_SERIALIZATION
       else hashParentsRoot h = hashParentsRoot obj \<and> hashParents h = hashParents obj)"
  proof (cases "IsDagBlock ?o")
    case True
    then obtain proot st6 n st7 ps where "uint256_Unserialize st5 = Inr (proot, st6)"
      "ser_readdata32 st6 = Inr (n, st7)" and rp: "read_parents st7 = Inr (ps, rest)"
      and h: "h = ?o\<lparr>hashParentsRoot := proot, nNonce := n, hashParents := ps\<rparr>"
      using k by (auto simp: Let_def elim!: bind_read_InrE)
    then have tail: "st5 = uint256_Serialize proot @ ser_writedata32 n @
        WriteCompactSize (of_nat (length ps)) @ concat (map uint256_Serialize ps) @ rest"
      by (auto dest!: ser_readdata32_InrD uint256_Unserialize_InrD read_parents_InrD(2))
    moreover have "length ps \<le> MAX_BLOCK_PARENTS_SERIALIZATION" by (rule read_parents_InrD(1) [OF rp])
    moreover have "IsDagBlock h" using True h by (simp add: IsDagBlock_def)
    ultimately show ?thesis using base h by (simp add: header_Serialize_def)
  next
    case False
    then obtain n where "ser_readdata32 st5 = Inr (n, rest)" and h: "h = ?o\<lparr>nNonce := n\<rparr>"
      using k by (auto simp: Let_def elim!: bind_read_InrE)
    then have "st5 = ser_writedata32 n @ rest" by (auto dest!: ser_readdata32_InrD)
    moreover have "\<not> IsDagBlock h" using False h by (simp add: IsDagBlock_def)
    ultimately show ?thesis using base h by (simp add: header_Serialize_def)
  qed
  then show "st = header_Serialize h @ rest"
    and "IsDagBlock h \<Longrightarrow> length (hashParents h) \<le> MAX_BLOCK_PARENTS_SERIALIZATION"
    and "\<not> IsDagBlock h \<Longrightarrow> hashParentsRoot h = hashParentsRoot obj \<and> hashParents h = hashParents obj"
    by (auto split: if_splits)
qed

text \<open>C30: Reading a header into a fresh object succeeds on exactly the bytes that writing the
  resulting header produces, and leaves the rest of the stream: headers have one encoding, a
  DAG-mode header of up to 64 extra parents survives the round trip whole, longer parent vectors
  and non-minimal sizes are refused, and a header outside DAG mode carries no DAG fields.\<close>

theorem header_wire_format:
  "header_Unserialize SetNull st = Inr (h, rest) \<longleftrightarrow>
     st = header_Serialize h @ rest \<and>
     (if IsDagBlock h then length (hashParents h) \<le> MAX_BLOCK_PARENTS_SERIALIZATION
      else hashParentsRoot h = 0 \<and> hashParents h = [])"
proof
  assume r: "header_Unserialize SetNull st = Inr (h, rest)"
  then show "st = header_Serialize h @ rest \<and>
     (if IsDagBlock h then length (hashParents h) \<le> MAX_BLOCK_PARENTS_SERIALIZATION
      else hashParentsRoot h = 0 \<and> hashParents h = [])"
    using header_Unserialize_InrD [OF r] by (simp add: SetNull_def)
next
  assume "st = header_Serialize h @ rest \<and>
     (if IsDagBlock h then length (hashParents h) \<le> MAX_BLOCK_PARENTS_SERIALIZATION
      else hashParentsRoot h = 0 \<and> hashParents h = [])"
  then show "header_Unserialize SetNull st = Inr (h, rest)"
    using header_Unserialize_write [of h SetNull rest] by (simp add: SetNull_def split: if_splits)
qed

lemma length_hash_preimage: "IsDagBlock h \<Longrightarrow> length (hash_preimage h) = 112"
  by (simp add: hash_preimage_def hash_pieces_def)

text \<open>What two headers with the same hash give: a collision of double SHA-256 between the two hashed
  headers or the two parent lists, or a parent list whose double hash is all zeros (the root of
  the empty list).\<close>

definition sha256d_broken_by :: "CBlockHeader \<Rightarrow> CBlockHeader \<Rightarrow> bool" where
  "sha256d_broken_by a b \<longleftrightarrow>
    (hash_preimage a \<noteq> hash_preimage b \<and> sha256d (hash_preimage a) = sha256d (hash_preimage b)) \<or>
    (let x = concat (map uint256_Serialize (hashParents a)); y = concat (map uint256_Serialize (hashParents b)) in
       x \<noteq> y \<and> (sha256d x = sha256d y \<or> sha256d x = replicate 32 0 \<or> sha256d y = replicate 32 0))"

lemma same_hash_breaks_sha256d:
  assumes "IsDagBlock a" and "GetHash a = GetHash b"
    and "hashParentsRoot a = ComputeParentsRoot (hashParents a)"
    and "hashParentsRoot b = ComputeParentsRoot (hashParents b)"
  shows "a = b \<or> sha256d_broken_by a b"
proof (cases "hash_preimage a = hash_preimage b")
  case False
  then show ?thesis
    using assms(2) digest_uint256_inj [OF length_sha256d length_sha256d] unfolding GetHash_preimage sha256d_broken_by_def by blast
next
  case True
  let ?x = "concat (map uint256_Serialize (hashParents a))" and ?y = "concat (map uint256_Serialize (hashParents b))"
  note eq = hash_preimage_inj [OF True]
  have root: "ComputeParentsRoot (hashParents a) = ComputeParentsRoot (hashParents b)"
    using assms eq by simp
  have zero: "digest_uint256 (sha256d m) = 0 \<Longrightarrow> sha256d m = replicate 32 0" for m
    by (rule digest_uint256_inj) (simp_all add: digest_uint256_def numeral_eq_Suc)
  show ?thesis
  proof (cases "hashParents a = hashParents b")
    case True
    then have "a = b" using eq assms(1) by (cases a, cases b) simp
    then show ?thesis ..
  next
    case False
    then have ne: "?x \<noteq> ?y" using concat_Serialize_inj by blast
    have "sha256d ?x = sha256d ?y \<or> sha256d ?x = replicate 32 0 \<or> sha256d ?y = replicate 32 0"
    proof (cases "hashParents a = [] \<or> hashParents b = []")
      case True
      then have "digest_uint256 (sha256d ?x) = 0 \<or> digest_uint256 (sha256d ?y) = 0"
        using False root ComputeParentsRoot_preimage by (metis ComputeParentsRoot_def)
      then show ?thesis using zero by blast
    next
      case False
      then show ?thesis
        using root digest_uint256_inj [OF length_sha256d length_sha256d] by (simp add: ComputeParentsRoot_preimage)
    qed
    then show ?thesis using ne by (simp add: sha256d_broken_by_def Let_def)
  qed
qed

text \<open>C31: The proof of work of a DAG-mode block covers its extra parents, through the parents root that
  \<open>GetHash\<close> puts between \<open>nBits\<close> and \<open>nNonce\<close>: the hashed bytes are 112, not the 80 of the base header.
  If two different headers, one of them in DAG mode, both satisfy the parents-root check, in
  particular if they differ in nothing but the parents, then they have different hashes, unless
  double SHA-256 is broken by them. \<^verbatim>\<open>doc/ghostdag.md\<close>, section 3.4 of \<^verbatim>\<open>WHITEPAPER.md\<close> and a comment in
  \<^verbatim>\<open>chainparams.cpp\<close> state the opposite, that \<open>GetHash\<close> covers the 80-byte header only; the
  comment in \<^verbatim>\<open>block.cpp\<close> and the code say what is proved here.\<close>

theorem hash_commits_to_parents:
  assumes "IsDagBlock a" and "a \<noteq> b"
    and "hashParentsRoot a = ComputeParentsRoot (hashParents a)"
    and "hashParentsRoot b = ComputeParentsRoot (hashParents b)"
  shows "GetHash a = digest_uint256 (sha256d (hash_preimage a)) \<and> length (hash_preimage a) = 112 \<and>
    (GetHash a = GetHash b \<longrightarrow> sha256d_broken_by a b)"
  using same_hash_breaks_sha256d [OF assms(1) _ assms(3,4)] assms(2) length_hash_preimage [OF assms(1)] GetHash_preimage by blast

definition example_header :: "uint256 list \<Rightarrow> CBlockHeader" where
  "example_header parents = SetNull\<lparr>nVersion := 0x30000000, hashPrevBlock := 7, hashParents := parents,
     hashParentsRoot := ComputeParentsRoot parents\<rparr>"

theorem hash_commits_to_parents_witness:
  "example_header [5, 9] \<noteq> example_header [5] \<and> length (hash_preimage (example_header [5, 9])) = 112 \<and>
   \<not> (GetHash (example_header [5, 9]) = GetHash (example_header [5]) \<and>
      \<not> sha256d_broken_by (example_header [5, 9]) (example_header [5]))"
proof -
  have d: "IsDagBlock (example_header [5, 9])" by (simp add: example_header_def IsDagBlock_def BLOCK_VERSION_DAGMODE_def)
  have r: "hashParentsRoot (example_header ps) = ComputeParentsRoot (hashParents (example_header ps))" for ps
    by (simp add: example_header_def)
  have "hashParents (example_header [5, 9]) \<noteq> hashParents (example_header [5])" by (simp add: example_header_def)
  then have ne: "example_header [5, 9] \<noteq> example_header [5]" by metis
  from hash_commits_to_parents [OF d ne r r] ne show ?thesis by blast
qed

end
