(* ===== verification/Arith_Uint256.thy ===== *)
theory Arith_Uint256
  imports Prelude
begin

unbundle bit_operations_syntax

text \<open>
  The numeric side of 256-bit hashes (\<^verbatim>\<open>src/src/arith_uint256.cpp\<close>): conversion
  between the blob type and \<^verbatim>\<open>arith_uint256\<close>, the compact 32-bit encoding of targets,
  and the work of a block (\<^verbatim>\<open>GetBlockProof\<close> in \<^verbatim>\<open>src/src/chain.cpp\<close>).
  \<open>arith_uint256\<close> is a 256-bit word; its \<open>+\<close>, \<open>*\<close>, shifts and comparisons wrap as the
  limb arithmetic of the class does.

  The lemmas show that the encoder's assertions cannot fail, that decoding an encoding
  returns the value rounded down to its three leading bytes, and that block work is the
  expected quotient.
\<close>

type_synonym arith_uint256 = "256 word"

section \<open>Blobs and numbers\<close>

text \<open>A blob's bytes are the number's bytes from least to most significant.\<close>

definition reverse_bytes :: "256 word \<Rightarrow> 256 word" where
  "reverse_bytes h = horner_sum of_bool 2 (map (\<lambda>i. bit h (8 * (31 - i div 8) + i mod 8)) [0..<256])"

definition UintToArith256 :: "uint256 \<Rightarrow> arith_uint256" where
  "UintToArith256 a = reverse_bytes a"

definition ArithToUint256 :: "arith_uint256 \<Rightarrow> uint256" where
  "ArithToUint256 a = reverse_bytes a"

lemma bit_reverse_bytes: "bit (reverse_bytes h) i \<longleftrightarrow> i < 256 \<and> bit h (8 * (31 - i div 8) + i mod 8)"
  by (auto simp: reverse_bytes_def bit_horner_sum_bit_word_iff)

lemma reverse_reverse_bytes [simp]: "reverse_bytes (reverse_bytes h) = h"
proof (rule bit_eqI)
  fix i :: nat
  have "(8 * (31 - i div 8) + i mod 8) div 8 = 31 - i div 8" by simp
  moreover have "i div 8 \<le> 31" if "i < 256" using that by simp
  moreover have "8 * (31 - i div 8) + i mod 8 < 256"
    using mod_less_divisor [of 8 i] by linarith
  ultimately show "bit (reverse_bytes (reverse_bytes h)) i \<longleftrightarrow> bit h i"
    using bit_imp_le_length [of h i] by (auto simp: bit_reverse_bytes)
qed

lemma UintToArith256_ArithToUint256 [simp]: "UintToArith256 (ArithToUint256 a) = a"
  by (simp add: UintToArith256_def ArithToUint256_def)

lemma ArithToUint256_UintToArith256 [simp]: "ArithToUint256 (UintToArith256 a) = a"
  by (simp add: UintToArith256_def ArithToUint256_def)

section \<open>Compact targets\<close>

text \<open>\<open>bits()\<close>: one more than the position of the highest set bit, scanning downwards.\<close>

fun bits_scan :: "arith_uint256 \<Rightarrow> nat \<Rightarrow> nat" where
  "bits_scan a 0 = 0"
| "bits_scan a (Suc n) = (if bit a n then Suc n else bits_scan a n)"

definition bits :: "arith_uint256 \<Rightarrow> nat" where
  "bits a = bits_scan a 256"

definition GetLow64 :: "arith_uint256 \<Rightarrow> uint64" where
  "GetLow64 a = ucast a"

record compact =
  target :: arith_uint256
  fNegative :: bool
  fOverflow :: bool

definition SetCompact :: "uint32 \<Rightarrow> compact" where
  "SetCompact nCompact =
     (let nSize = unat (drop_bit 24 nCompact);
          nWord = nCompact AND 0x007fffff;
          nWord' = (if nSize \<le> 3 then drop_bit (8 * (3 - nSize)) nWord else nWord)
      in \<lparr>target = (if nSize \<le> 3 then ucast nWord' else push_bit (8 * (nSize - 3)) (ucast nWord')),
          fNegative = (nWord' \<noteq> 0 \<and> nCompact AND 0x00800000 \<noteq> 0),
          fOverflow = (nWord' \<noteq> 0 \<and> (nSize > 34 \<or> (nWord' > 0xff \<and> nSize > 33) \<or>
                         (nWord' > 0xffff \<and> nSize > 32)))\<rparr>)"

text \<open>\<open>GetCompact\<close> up to its two assertions: the mantissa and the size byte.\<close>

definition compact_parts :: "arith_uint256 \<Rightarrow> uint32 \<times> nat" where
  "compact_parts a =
     (let nSize = (bits a + 7) div 8;
          nCompact = (if nSize \<le> 3 then ucast (push_bit (8 * (3 - nSize)) (GetLow64 a))
                      else ucast (GetLow64 (drop_bit (8 * (nSize - 3)) a)))
      in if (nCompact :: uint32) AND 0x00800000 \<noteq> 0 then (drop_bit 8 nCompact, nSize + 1)
         else (nCompact, nSize))"

definition GetCompact :: "arith_uint256 \<Rightarrow> uint32" where
  "GetCompact a = (case compact_parts a of (nCompact, nSize) \<Rightarrow> nCompact OR push_bit 24 (of_nat nSize))"

section \<open>Work\<close>

definition GetBlockProof :: "uint32 \<Rightarrow> arith_uint256" where
  "GetBlockProof nBits =
     (let c = SetCompact nBits in
      if fNegative c \<or> fOverflow c \<or> target c = 0 then 0
      else (NOT (target c)) div (target c + 1) + 1)"

section \<open>Facts about sizes\<close>

lemma bits_scan_bounds:
  "n \<le> 256 \<Longrightarrow> unat a < 2 ^ n \<Longrightarrow>
     unat a < 2 ^ bits_scan a n \<and> (a \<noteq> 0 \<longrightarrow> 0 < bits_scan a n \<and> 2 ^ (bits_scan a n - 1) \<le> unat a)"
proof (induction n)
  case (Suc n)
  show ?case
  proof (cases "bit a n")
    case True
    then have "odd (unat a div 2 ^ n)" by (simp add: odd_unat_div)
    then have "2 ^ n \<le> unat a" by (metis div_less even_zero not_le)
    then show ?thesis using True Suc.prems by simp
  next
    case False
    then have "even (unat a div 2 ^ n)" using odd_unat_div by blast
    moreover have "unat a div 2 ^ n < 2"
      using Suc.prems(2) by (simp add: less_mult_imp_div_less mult.commute)
    ultimately have "unat a div 2 ^ n = 0" using less_2_cases by force
    then have "unat a < 2 ^ n" by (simp add: div_eq_0_iff)
    then show ?thesis using False Suc by simp
  qed
qed (simp add: unat_eq_0)

lemma bits_upper: "unat a < 2 ^ bits a"
  using bits_scan_bounds [of 256 a] unsigned_less [of a, where ?'a = nat] by (simp add: bits_def)

lemma bits_lower: "a \<noteq> 0 \<Longrightarrow> 0 < bits a \<and> 2 ^ (bits a - 1) \<le> unat a"
  using bits_scan_bounds [of 256 a] unsigned_less [of a, where ?'a = nat] by (simp add: bits_def)

lemma bits_le_256: "bits a \<le> 256"
proof -
  have "bits_scan a n \<le> n" for n by (induction n) auto
  then show ?thesis by (simp add: bits_def)
qed

lemma bits_0 [simp]: "bits 0 = 0"
proof -
  have "bits_scan 0 n = 0" for n by (induction n) auto
  then show ?thesis by (simp add: bits_def)
qed

section \<open>Facts about the compact form\<close>

lemma unat_ucast_small: "unat (a :: 'a::len word) < 2 ^ LENGTH('b) \<Longrightarrow> unat (ucast a :: 'b::len word) = unat a"
  by (simp add: unsigned_ucast_eq take_bit_nat_eq_self)

lemma unat_push_bit_small:
  "unat (a :: 'a::len word) * 2 ^ n < 2 ^ LENGTH('a) \<Longrightarrow> unat (push_bit n a) = unat a * 2 ^ n"
  using unsigned_push_bit_eq [of n a, where ?'a = nat]
  by (simp only: push_bit_eq_mult take_bit_nat_eq_self)

lemma unat_drop_bit: "unat (drop_bit n (a :: 'a::len word)) = unat a div 2 ^ n"
  by (simp only: unsigned_drop_bit_eq) (simp add: drop_bit_eq_div take_bit_nat_eq_self)

lemma two_power_split: "m = n + k \<Longrightarrow> (2::nat) ^ m = 2 ^ n * 2 ^ k"
  by (simp add: power_add)

lemma and_bit23: "(c :: uint32) AND 0x00800000 \<noteq> 0 \<longleftrightarrow> odd (unat c div 2 ^ 23)"
proof -
  have "(0x00800000 :: uint32) = push_bit 23 1" by simp
  then have "c AND 0x00800000 \<noteq> 0 \<longleftrightarrow> bit c 23"
    by (metis and_exp_eq_0_iff_not_bit push_bit_of_1)
  then show ?thesis by (simp only: odd_unat_div)
qed

text \<open>The three leading bytes, before the sign bit is cleared out of the way.\<close>

lemma compact_leading_bytes:
  fixes a :: arith_uint256
  defines "nSize \<equiv> (bits a + 7) div 8"
  defines "c \<equiv> (if nSize \<le> 3 then ucast (push_bit (8 * (3 - nSize)) (GetLow64 a))
                else ucast (GetLow64 (drop_bit (8 * (nSize - 3)) a))) :: uint32"
  shows "unat c = (if nSize \<le> 3 then unat a * 2 ^ (8 * (3 - nSize)) else unat a div 2 ^ (8 * (nSize - 3)))"
    and "unat c < 2 ^ 24" and "nSize \<le> 32" and "nSize > 3 \<Longrightarrow> 2 ^ 16 \<le> unat c"
proof -
  have "bits a \<le> 8 * nSize" by (simp add: nSize_def)
  then have N: "unat a < 2 ^ (8 * nSize)" by (rule less_le_trans [OF bits_upper power_increasing]) simp
  show "nSize \<le> 32" using bits_le_256 [of a] by (simp add: nSize_def)
  have "unat c = (if nSize \<le> 3 then unat a * 2 ^ (8 * (3 - nSize)) else unat a div 2 ^ (8 * (nSize - 3))) \<and>
      unat c < 2 ^ 24 \<and> (nSize > 3 \<longrightarrow> 2 ^ 16 \<le> unat c)"
  proof (cases "nSize \<le> 3")
    case True
    have e: "(2::nat) ^ (8 * nSize) * 2 ^ (8 * (3 - nSize)) = 2 ^ 24"
      using True by (intro two_power_split [symmetric]) simp
    then have lt: "unat a * 2 ^ (8 * (3 - nSize)) < 2 ^ 24"
      using N by (metis mult_less_mono1 zero_less_numeral zero_less_power)
    have "(2::nat) ^ (8 * nSize) \<le> 2 ^ 24" using True by (intro power_increasing) auto
    then have "unat (GetLow64 a) = unat a" using N by (simp add: GetLow64_def unat_ucast_small)
    then show ?thesis using True lt by (simp add: c_def unat_push_bit_small unat_ucast_small)
  next
    case False
    let ?d = "unat a div 2 ^ (8 * (nSize - 3))"
    have "(2::nat) ^ (8 * nSize) = 2 ^ 24 * 2 ^ (8 * (nSize - 3))"
      using False by (intro two_power_split) simp
    then have lt: "?d < 2 ^ 24" using N by (simp add: less_mult_imp_div_less)
    have "unat c = ?d" using False lt by (simp add: c_def GetLow64_def unat_drop_bit unat_ucast_small)
    moreover have "2 ^ 16 \<le> ?d"
    proof -
      have "a \<noteq> 0" using False by (auto simp: nSize_def)
      then have "2 ^ (bits a - 1) \<le> unat a" using bits_lower by blast
      moreover have "8 * (nSize - 1) \<le> bits a - 1" using False by (simp add: nSize_def)
      ultimately have "2 ^ (8 * (nSize - 1)) \<le> unat a" by (meson le_trans one_le_numeral power_increasing)
      moreover have "(2::nat) ^ (8 * (nSize - 1)) = 2 ^ 16 * 2 ^ (8 * (nSize - 3))"
        using False by (intro two_power_split) simp
      ultimately show ?thesis by (simp add: less_eq_div_iff_mult_less_eq)
    qed
    ultimately show ?thesis using False lt by simp
  qed
  then show "unat c = (if nSize \<le> 3 then unat a * 2 ^ (8 * (3 - nSize)) else unat a div 2 ^ (8 * (nSize - 3)))"
    and "unat c < 2 ^ 24" and "nSize > 3 \<Longrightarrow> 2 ^ 16 \<le> unat c" by auto
qed

text \<open>What the encoder packs: a mantissa below the sign bit and a size of at most 33 bytes.\<close>

lemma compact_parts_value:
  assumes "compact_parts a = (m, n)"
  shows "unat m = (if n \<le> 3 then unat a * 2 ^ (8 * (3 - n)) else unat a div 2 ^ (8 * (n - 3)))"
    and "unat m < 2 ^ 23" and "n \<le> 33" and "n = 33 \<Longrightarrow> unat m < 2 ^ 16"
    and "n > 3 \<Longrightarrow> 2 ^ 15 \<le> unat m"
proof -
  let ?s = "(bits a + 7) div 8"
  define c :: uint32 where "c = (if ?s \<le> 3 then ucast (push_bit (8 * (3 - ?s)) (GetLow64 a))
                                 else ucast (GetLow64 (drop_bit (8 * (?s - 3)) a)))"
  note lead = compact_leading_bytes [of a, folded c_def]
  have mn: "(m, n) = (if odd (unat c div 2 ^ 23) then (drop_bit 8 c, ?s + 1) else (c, ?s))"
    using assms by (simp only: compact_parts_def Let_def and_bit23 [symmetric] c_def [symmetric])
  have "unat m = (if n \<le> 3 then unat a * 2 ^ (8 * (3 - n)) else unat a div 2 ^ (8 * (n - 3))) \<and>
      unat m < 2 ^ 23 \<and> n \<le> 33 \<and> (n = 33 \<longrightarrow> unat m < 2 ^ 16) \<and> (n > 3 \<longrightarrow> 2 ^ 15 \<le> unat m)"
  proof (cases "odd (unat c div 2 ^ 23)")
    case True
    then have m: "unat m = unat c div 2 ^ 8" "n = ?s + 1" using mn by (simp_all add: unat_drop_bit)
    have c: "2 ^ 23 \<le> unat c" using True by (rule contrapos_pp) simp
    have "unat m = (if n \<le> 3 then unat a * 2 ^ (8 * (3 - n)) else unat a div 2 ^ (8 * (n - 3)))"
    proof (cases "?s < 3")
      case True
      then have "(2::nat) ^ (8 * (3 - ?s)) = 2 ^ (8 * (3 - n)) * 2 ^ 8"
        using m(2) by (intro two_power_split) simp
      then show ?thesis using lead(1) m True by (simp add: mult.assoc [symmetric])
    next
      case False
      show ?thesis
      proof (cases "?s = 3")
        case True
        then show ?thesis using lead(1) m by simp
      next
        case ne: False
        then have "(2::nat) ^ (8 * (n - 3)) = 2 ^ (8 * (?s - 3)) * 2 ^ 8"
          using False m(2) by (intro two_power_split) simp
        then show ?thesis using lead(1) m False ne by (simp add: div_mult2_eq)
      qed
    qed
    moreover have "unat m < 2 ^ 16" "unat m < 2 ^ 23" "2 ^ 15 \<le> unat m" using m(1) c lead(2) by simp_all
    moreover have "n \<le> 33" using m(2) lead(3) by simp
    ultimately show ?thesis by blast
  next
    case False
    then have m: "m = c" "n = ?s" using mn by auto
    have "unat c div 2 ^ 23 < 2" using lead(2) by simp
    then have "unat c div 2 ^ 23 = 0" using False less_2_cases by force
    then have "unat c < 2 ^ 23" by (simp add: div_eq_0_iff)
    then show ?thesis using m lead by auto
  qed
  then show "unat m = (if n \<le> 3 then unat a * 2 ^ (8 * (3 - n)) else unat a div 2 ^ (8 * (n - 3)))"
    and "unat m < 2 ^ 23" and "n \<le> 33" and "n = 33 \<Longrightarrow> unat m < 2 ^ 16"
    and "n > 3 \<Longrightarrow> 2 ^ 15 \<le> unat m" by auto
qed

lemma unat_GetCompact:
  assumes "compact_parts a = (m, n)"
  shows "unat (GetCompact a) = unat m + n * 2 ^ 24"
proof -
  note v = compact_parts_value [OF assms]
  have n: "unat (of_nat n :: uint32) = n" using v(3) by (intro unat_of_nat_small) simp
  have s: "unat (push_bit 24 (of_nat n :: uint32)) = n * 2 ^ 24"
    using v(3) n by (subst unat_push_bit_small) auto
  have "m AND push_bit 24 (of_nat n) = 0"
  proof (rule bit_eqI)
    fix i
    have "\<not> bit m i" if "24 \<le> i"
    proof -
      have "(2::nat) ^ 23 \<le> 2 ^ i" using that by (intro power_increasing) auto
      then have "unat m div 2 ^ i = 0" using v(2) by (simp add: div_eq_0_iff)
      then show ?thesis using odd_unat_div [of m i] by simp
    qed
    then show "bit (m AND push_bit 24 (of_nat n)) i \<longleftrightarrow> bit (0 :: uint32) i"
      by (auto simp: bit_and_iff bit_push_bit_iff)
  qed
  then have "GetCompact a = m + push_bit 24 (of_nat n)"
    using assms by (simp only: GetCompact_def prod.case disjunctive_add_eq_or)
  moreover have "unat m + n * 2 ^ 24 < 2 ^ 32" using v(2,3) by simp
  ultimately show ?thesis using s by (simp add: unat_add_small del: push_bit_eq_mult)
qed

text \<open>Decoding in arithmetic: size byte, mantissa, sign bit.\<close>

lemma SetCompact_fields:
  "unat (drop_bit 24 (c :: uint32)) = unat c div 2 ^ 24"
  "unat (c AND 0x007fffff) = unat c mod 2 ^ 23"
proof -
  show "unat (drop_bit 24 c) = unat c div 2 ^ 24" by (rule unat_drop_bit)
  have "c AND 0x007fffff = take_bit 23 c" by (simp add: take_bit_eq_mask mask_eq_exp_minus_1)
  then show "unat (c AND 0x007fffff) = unat c mod 2 ^ 23"
    by (simp only: unsigned_take_bit_eq) (simp only: take_bit_eq_mod)
qed

text \<open>The value an encoding stands for: all but the leading bytes are cut off.\<close>

definition compact_floor :: "arith_uint256 \<Rightarrow> nat" where
  "compact_floor a = (let n = snd (compact_parts a) in
     if n \<le> 3 then unat a else unat a div 2 ^ (8 * (n - 3)) * 2 ^ (8 * (n - 3)))"

lemma SetCompact_GetCompact_aux:
  "\<not> fNegative (SetCompact (GetCompact a)) \<and> \<not> fOverflow (SetCompact (GetCompact a)) \<and>
   unat (target (SetCompact (GetCompact a))) = compact_floor a"
proof -
  obtain m n where mn: "compact_parts a = (m, n)" by fastforce
  note v = compact_parts_value [OF mn]
  let ?c = "GetCompact a"
  have c: "unat ?c = unat m + n * 2 ^ 24" by (rule unat_GetCompact [OF mn])
  have "n * 2 ^ 24 = (2 * n) * (2::nat) ^ 23" by simp
  then have c23: "unat ?c = unat m + (2 * n) * 2 ^ 23" using c by simp
  have sz: "unat (drop_bit 24 ?c) = n" using c v(2) by (simp add: SetCompact_fields(1) del: drop_bit_eq_div)
  have w: "?c AND 0x007fffff = m"
    using c23 v(2) by (intro unsigned_word_eqI [where ?'a = nat]) (simp only: SetCompact_fields(2) mod_mult_self1 mod_less)
  have "unat ?c div 2 ^ 23 = 2 * n" using c23 v(2) by (simp only: div_mult_self1) simp
  then have sg: "?c AND 0x00800000 = 0" using and_bit23 [of ?c] by simp
  have ov: "\<not> (n > 34 \<or> (m > 0xff \<and> n > 33) \<or> (m > 0xffff \<and> n > 32))"
    using v(3,4) by (auto simp: word_less_nat_alt)
  show ?thesis
  proof (cases "n \<le> 3")
    case True
    then have d: "unat (drop_bit (8 * (3 - n)) m) = unat a" using v(1) by (simp only: unat_drop_bit) simp
    then show ?thesis using True sz w sg mn ov unsigned_less [of "drop_bit (8 * (3 - n)) m", where ?'a = nat]
      by (simp add: SetCompact_def Let_def compact_floor_def unat_ucast_small del: drop_bit_eq_div)
  next
    case False
    let ?k = "8 * (n - 3)"
    have "unat (ucast m :: arith_uint256) = unat m" using v(2) by (intro unat_ucast_small) simp
    moreover have "unat m * 2 ^ ?k \<le> unat a" using v(1) False by simp
    moreover have "unat a < 2 ^ 256" using unsigned_less [of a, where ?'a = nat] by simp
    ultimately have "unat (push_bit ?k (ucast m :: arith_uint256)) = unat m * 2 ^ ?k"
      by (subst unat_push_bit_small) auto
    then show ?thesis using False sz w sg mn ov v(1)
      by (simp add: SetCompact_def Let_def compact_floor_def del: push_bit_eq_mult)
  qed
qed

lemma compact_floor_le: "compact_floor a \<le> unat a"
  by (simp add: compact_floor_def Let_def)

lemma compact_floor_precision: "(unat a - compact_floor a) * 2 ^ 15 \<le> compact_floor a"
proof -
  obtain m n where mn: "compact_parts a = (m, n)" by fastforce
  note v = compact_parts_value [OF mn]
  show ?thesis
  proof (cases "n \<le> 3")
    case False
    let ?p = "2 ^ (8 * (n - 3)) :: nat"
    have f: "compact_floor a = unat a div ?p * ?p" using False mn by (simp add: compact_floor_def)
    have "unat a - compact_floor a \<le> ?p" by (simp only: f minus_div_mult_eq_mod) simp
    moreover have "2 ^ 15 \<le> unat a div ?p" using v(1,5) False by simp
    ultimately have "(unat a - compact_floor a) * 2 ^ 15 \<le> ?p * (unat a div ?p)" by (rule mult_le_mono)
    then show ?thesis using f by (simp add: mult.commute)
  qed (use mn in \<open>simp add: compact_floor_def\<close>)
qed

text \<open>Work is \<open>2 ^ 256\<close> divided by the number of hashes that do not succeed, rounded down.\<close>

lemma unat_minus_one_256: "unat (- 1 :: arith_uint256) = 2 ^ 256 - 1"
  by (simp add: unsigned_minus_1_eq_mask mask_eq_exp_minus_1)

lemma GetBlockProof_quotient:
  fixes t :: arith_uint256
  assumes "t \<noteq> 0"
  shows "unat (NOT t div (t + 1) + 1) = 2 ^ 256 div (unat t + 1)"
proof (cases "t = - 1")
  case True
  then have "unat t = 2 ^ 256 - 1" using unat_minus_one_256 by simp
  then show ?thesis using True by simp
next
  case False
  have "unat t \<noteq> 2 ^ 256 - 1"
  proof
    assume "unat t = 2 ^ 256 - 1"
    also have "\<dots> = unat (- 1 :: arith_uint256)" by (rule unat_minus_one_256 [symmetric])
    finally show False using False by (metis unsigned_word_eqI)
  qed
  moreover have lt: "unat t < 2 ^ 256" using unsigned_less [of t, where ?'a = nat] by simp
  ultimately have small: "unat t + 1 < 2 ^ 256" by simp
  have t1: "unat (t + 1) = unat t + 1" using small by (simp add: unat_add_small)
  have "unat (NOT t) = 2 ^ 256 - 1 - unat t"
    using unat_diff_le [OF word_order.extremum [of t]] unat_minus_one_256
    by (simp only: not_eq_complement minus_diff_commute [of t 1])
  then have q: "unat (NOT t div (t + 1)) = (2 ^ 256 - (unat t + 1)) div (unat t + 1)"
    using t1 by (simp add: unat_div_distrib)
  have "2 ^ 256 div (unat t + 1) = (2 ^ 256 - (unat t + 1)) div (unat t + 1) + 1"
    using small by (subst le_div_geq) auto
  moreover have "(2 ^ 256 - (unat t + 1)) div (unat t + 1) < 2 ^ 256 - 1"
  proof -
    have "0 < unat t" using assms by (simp add: unat_gt_0)
    have "(2 ^ 256 - (unat t + 1)) div (unat t + 1) \<le> 2 ^ 256 - (unat t + 1)" by simp
    also have "\<dots> < 2 ^ 256 - 1" using \<open>0 < unat t\<close> small by linarith
    finally show ?thesis .
  qed
  ultimately show ?thesis using q by (subst unat_add_small) auto
qed

text \<open>A mantissa of at least two bytes and a size above three have one encoding.\<close>

lemma compact_parts_unique:
  assumes v: "unat a = unat m * 2 ^ (8 * (n - 3))" and n: "3 < n"
    and lo: "2 ^ 15 \<le> unat m" and hi: "unat m < 2 ^ 23"
  shows "compact_parts a = (m, n)"
proof -
  obtain m' n' where mn: "compact_parts a = (m', n')" by fastforce
  note v' = compact_parts_value [OF mn]
  have "n' = n"
  proof (rule ccontr)
    assume "n' \<noteq> n"
    then consider "n' \<le> 3" | "3 < n'" "n' < n" | "n < n'" by linarith
    then show False
    proof cases
      case 1
      have "(2::nat) ^ 8 \<le> 2 ^ (8 * (n - 3))" using n by (intro power_increasing) auto
      then have "2 ^ 15 * 2 ^ 8 \<le> unat a" using lo v by (simp only: mult_le_mono)
      also have "\<dots> \<le> unat m'" using v'(1) 1 by simp
      finally show False using v'(2) by simp
    next
      case 2
      have "(2::nat) ^ (8 * (n - 3)) = 2 ^ (8 * (n - n')) * 2 ^ (8 * (n' - 3))"
        using 2 by (intro two_power_split) simp
      then have "unat m' = unat m * 2 ^ (8 * (n - n'))" using v v'(1) 2 by (simp add: mult.assoc [symmetric])
      moreover have "(2::nat) ^ 8 \<le> 2 ^ (8 * (n - n'))" using 2 by (intro power_increasing) auto
      ultimately have "2 ^ 15 * 2 ^ 8 \<le> unat m'" using lo by (simp only: mult_le_mono)
      then show False using v'(2) by simp
    next
      case 3
      have "(2::nat) ^ (8 * (n' - 3)) = 2 ^ (8 * (n - 3)) * 2 ^ (8 * (n' - n))"
        using 3 n by (intro two_power_split) simp
      then have "unat m' = unat m div 2 ^ (8 * (n' - n))" using v v'(1) 3 n by (simp add: div_mult2_eq)
      also have "\<dots> \<le> unat m div 2 ^ 8" using 3 by (intro div_le_mono2 power_increasing) auto
      also have "\<dots> < 2 ^ 15" using hi by simp
      finally show False using v'(5) 3 n by simp
    qed
  qed
  moreover from this have "unat m' = unat m" using v v'(1) n by simp
  ultimately show ?thesis using mn unsigned_word_eqI by blast
qed

lemma GetCompact_floor:
  assumes "unat b = compact_floor a"
  shows "GetCompact b = GetCompact a"
proof -
  obtain m n where mn: "compact_parts a = (m, n)" by fastforce
  note v = compact_parts_value [OF mn]
  show ?thesis
  proof (cases "n \<le> 3")
    case True
    then have "unat b = unat a" using assms mn by (simp add: compact_floor_def)
    then have "b = a" by (rule unsigned_word_eqI)
    then show ?thesis by simp
  next
    case False
    then have "unat b = unat m * 2 ^ (8 * (n - 3))" using assms mn v(1) by (simp add: compact_floor_def)
    then have "compact_parts b = (m, n)" using v False by (intro compact_parts_unique) auto
    then show ?thesis using mn by (simp add: GetCompact_def)
  qed
qed

section \<open>Properties\<close>

text \<open>C32: For every 256-bit value the encoder's two assertions hold (the mantissa stays below the
  sign bit and the size fits its byte); decoding the encoding reports neither a sign nor an
  overflow, gives a value not above the original and short of it by at most one part in
  \<open>2 ^ 15\<close>; and encoding that value again gives the same 32 bits, so the compact form is a
  fixed point after one rounding.\<close>

theorem compact_round_trip:
  "unat (fst (compact_parts a)) < 2 ^ 23 \<and> snd (compact_parts a) < 256 \<and>
   (let c = SetCompact (GetCompact a) in
      \<not> fNegative c \<and> \<not> fOverflow c \<and> target c \<le> a \<and>
      unat (a - target c) * 2 ^ 15 \<le> unat (target c) \<and>
      GetCompact (target c) = GetCompact a)"
proof -
  obtain m n where mn: "compact_parts a = (m, n)" by fastforce
  let ?t = "target (SetCompact (GetCompact a))"
  note aux = SetCompact_GetCompact_aux [of a]
  then have t: "unat ?t = compact_floor a" by blast
  then have le: "?t \<le> a" using compact_floor_le by (simp add: word_le_nat_alt)
  then have "unat (a - ?t) = unat a - compact_floor a" using t by (simp add: unat_diff_le)
  then show ?thesis
    using compact_parts_value(2,3) [OF mn] aux t le compact_floor_precision [of a] GetCompact_floor [OF t] mn
    by (simp add: Let_def)
qed

text \<open>The work of a block is zero exactly when its \<open>nBits\<close> decode to a negative, overflowing
  or zero target; otherwise it is \<open>2 ^ 256\<close> divided by the target plus one, computed without
  leaving 256 bits, and is at least one.\<close>

theorem GetBlockProof_value:
  "let c = SetCompact nBits in
     if fNegative c \<or> fOverflow c \<or> target c = 0 then GetBlockProof nBits = 0
     else unat (GetBlockProof nBits) = 2 ^ 256 div (unat (target c) + 1) \<and> 1 \<le> unat (GetBlockProof nBits)"
proof -
  have "1 \<le> 2 ^ 256 div (unat t + 1)" for t :: arith_uint256
    using unsigned_less [of t, where ?'a = nat] by (simp add: Suc_le_eq div_greater_zero_iff)
  then show ?thesis by (simp add: GetBlockProof_def Let_def GetBlockProof_quotient)
qed

end
