(* ===== verification/Ghostdag.thy ===== *)
theory Ghostdag
  imports Prelude "HOL-Library.Sublist"
begin

text \<open>
  The scoring algorithm \<^verbatim>\<open>dag::GhostdagManager\<close> (\<^verbatim>\<open>src/src/dag/ghostdag.h\<close>,
  \<^verbatim>\<open>src/src/dag/ghostdag.cpp\<close>). The abstract class \<^verbatim>\<open>IGhostdagBlockProvider\<close> is the
  record \<open>provider\<close> of its four callbacks; what the algorithm needs to know about them is
  stated as hypotheses on that record. \<open>std::optional\<close> and the \<open>bool\<close> result with an
  out-parameter are \<open>option\<close>s. Counters and scores keep their C++ width.

  \<open>visited\<close> is a hash set and is modelled as a set; \<open>std::sort\<close> with the comparator
  (blue score, then hash) is the stable sort by that key, which is the same list because
  the comparator is a total order; the priority queue of \<open>TopologicalOrder\<close> is its sorted
  content. \<open>all_blocks\<close> is the iteration sequence of an \<open>unordered_set\<close>, so facts about
  \<open>TopologicalOrder\<close> are stated for every sequence.
\<close>

section \<open>Data\<close>

definition DEFAULT_GHOSTDAG_K :: uint32 where
  "DEFAULT_GHOSTDAG_K = 18"

definition MAX_MERGESET_SIZE :: nat where
  "MAX_MERGESET_SIZE = 1000"

record GhostdagData =
  blue_score :: uint64
  selected_parent :: uint256
  mergeset_blues :: "uint256 list"
  mergeset_reds :: "uint256 list"
  blue_work :: uint64

definition default_data :: GhostdagData where
  "default_data = \<lparr>blue_score = 0, selected_parent = 0, mergeset_blues = [], mergeset_reds = [], blue_work = 0\<rparr>"

record provider =
  GetGhostdagData :: "uint256 \<Rightarrow> GhostdagData option"
  GetParents :: "uint256 \<Rightarrow> uint256 list"
  IsAncestorOf :: "uint256 \<Rightarrow> uint256 \<Rightarrow> bool"
  GetBlockWork :: "uint256 \<Rightarrow> uint64"

text \<open>\<open>d ? d->blue_score : 0\<close>, the score lookup used throughout.\<close>

definition score_of :: "provider \<Rightarrow> uint256 \<Rightarrow> uint64" where
  "score_of P h = (case GetGhostdagData P h of None \<Rightarrow> 0 | Some d \<Rightarrow> blue_score d)"

section \<open>Selected parent\<close>

fun best_parent_loop :: "provider \<Rightarrow> uint256 \<Rightarrow> uint64 \<Rightarrow> uint256 list \<Rightarrow> uint256" where
  "best_parent_loop P best best_score [] = best"
| "best_parent_loop P best best_score (c # cs) =
     (let score = score_of P c in
      if score > best_score \<or> (score = best_score \<and> c < best)
      then best_parent_loop P c score cs
      else best_parent_loop P best best_score cs)"

definition SelectBestParent :: "uint256 list \<Rightarrow> provider \<Rightarrow> uint256" where
  "SelectBestParent candidates P =
     (case candidates of [] \<Rightarrow> 0 | c # cs \<Rightarrow> best_parent_loop P c (score_of P c) cs)"

fun parent_chain_loop :: "provider \<Rightarrow> nat \<Rightarrow> uint256 \<Rightarrow> uint256 list" where
  "parent_chain_loop P 0 cur = []"
| "parent_chain_loop P (Suc room) cur =
     (if IsNull cur then []
      else cur # (case GetGhostdagData P cur of
                    None \<Rightarrow> []
                  | Some d \<Rightarrow> if IsNull (selected_parent d) then []
                              else parent_chain_loop P room (selected_parent d)))"

definition max_depth :: "uint32 \<Rightarrow> nat" where
  "max_depth k = 2 * unat k + 1"

definition SelectedParentChain :: "uint32 \<Rightarrow> uint256 \<Rightarrow> provider \<Rightarrow> uint256 list" where
  "SelectedParentChain k block P = parent_chain_loop P (max_depth k) block"

section \<open>Mergeset\<close>

text \<open>The breadth-first search of \<open>ComputeMergeset\<close>: \<open>visited\<close>, \<open>out_mergeset\<close> and the queue.\<close>

type_synonym bfs = "uint256 set \<times> uint256 list \<times> uint256 list"

fun seed_parents :: "uint256 \<Rightarrow> uint256 list \<Rightarrow> bfs \<Rightarrow> bfs" where
  "seed_parents sp [] st = st"
| "seed_parents sp (p # ps) (visited, out, q) =
     (if p \<noteq> sp \<and> p \<notin> visited
      then seed_parents sp ps (insert p visited, out @ [p], q @ [p])
      else seed_parents sp ps (visited, out, q))"

fun expand_parents :: "provider \<Rightarrow> uint256 \<Rightarrow> uint256 list \<Rightarrow> bfs \<Rightarrow> bfs" where
  "expand_parents P sp [] st = st"
| "expand_parents P sp (p # ps) (visited, out, q) =
     (if p \<notin> visited \<and> \<not> IsNull p
      then expand_parents P sp ps
        (insert p visited, if \<not> IsAncestorOf P p sp then out @ [p] else out, q @ [p])
      else expand_parents P sp ps (visited, out, q))"

text \<open>Every element enters the queue when it enters \<open>visited\<close>, so the queue and the unvisited
  hashes together shrink in every round and the loop ends.\<close>

definition bfs_measure :: "bfs \<Rightarrow> nat" where
  "bfs_measure st = (case st of (visited, out, q) \<Rightarrow> length q + card (- visited))"

lemma card_Compl_insert: "x \<notin> (v :: uint256 set) \<Longrightarrow> card (- v) = Suc (card (- insert x v))"
proof -
  assume "x \<notin> v"
  then have "- v = insert x (- insert x v)" by auto
  then show ?thesis by (metis Compl_iff card_insert_disjoint finite insertI1)
qed

lemma bfs_measure_expand: "bfs_measure (expand_parents P sp ps st) = bfs_measure st"
proof (induction P sp ps st rule: expand_parents.induct)
  case (2 P sp p ps visited out q)
  then show ?case using card_Compl_insert [of p visited] by (auto simp: bfs_measure_def)
qed simp

lemma expand_parents_measure:
  "(case expand_parents P sp ps (v, out, q) of (v', out', q') \<Rightarrow> length q' + card (- v')) =
     length q + card (- v)"
  using bfs_measure_expand [of P sp ps "(v, out, q)"] by (simp add: bfs_measure_def)

function mergeset_loop :: "provider \<Rightarrow> uint256 \<Rightarrow> uint256 set \<Rightarrow> uint256 list \<Rightarrow> uint256 list \<Rightarrow> uint256 list option" where
  "mergeset_loop P sp visited out [] = Some out"
| "mergeset_loop P sp visited out (cur # q) =
     (if IsAncestorOf P cur sp then mergeset_loop P sp visited out q
      else case expand_parents P sp (GetParents P cur) (visited, out, q) of
        (visited', out', q') \<Rightarrow>
          if length out' \<ge> MAX_MERGESET_SIZE then None
          else mergeset_loop P sp visited' out' q')"
  by pat_completeness auto
termination
  by (relation "measure (\<lambda>(P, sp, v, out, q). length q + card (- v))")
    (auto simp: expand_parents_measure)

text \<open>Evaluate the cap on binary numerals.\<close>

lemma mergeset_cap_int [code_unfold]: "MAX_MERGESET_SIZE \<le> length out \<longleftrightarrow> 1000 \<le> int (length out)"
  by (simp add: MAX_MERGESET_SIZE_def)

definition topo_key :: "provider \<Rightarrow> uint256 \<Rightarrow> uint64 \<times> uint256" where
  "topo_key P h = (score_of P h, h)"

definition ComputeMergeset :: "uint256 list \<Rightarrow> uint256 \<Rightarrow> provider \<Rightarrow> uint256 list option" where
  "ComputeMergeset block_parents sp P =
     (case seed_parents sp block_parents ({sp}, [], []) of
        (visited, out, q) \<Rightarrow>
          map_option (sort_key (topo_key P)) (mergeset_loop P sp visited out q))"

section \<open>Colouring\<close>

fun AntiConeBlueCount :: "provider \<Rightarrow> uint256 \<Rightarrow> uint256 list \<Rightarrow> uint32" where
  "AntiConeBlueCount P block [] = 0"
| "AntiConeBlueCount P block (blue # blues) =
     (if blue \<noteq> block \<and> \<not> IsAncestorOf P blue block \<and> \<not> IsAncestorOf P block blue
      then 1 + AntiConeBlueCount P block blues
      else AntiConeBlueCount P block blues)"

fun classify_loop :: "uint32 \<Rightarrow> provider \<Rightarrow> uint256 list \<Rightarrow> uint256 list \<Rightarrow> uint256 list \<times> uint256 list" where
  "classify_loop k P current_blues [] = ([], [])"
| "classify_loop k P current_blues (candidate # rest) =
     (if AntiConeBlueCount P candidate current_blues \<le> k
      then let (blues, reds) = classify_loop k P (current_blues @ [candidate]) rest
           in (candidate # blues, reds)
      else let (blues, reds) = classify_loop k P current_blues rest
           in (blues, candidate # reds))"

definition ClassifyMergeset :: "uint32 \<Rightarrow> uint256 list \<Rightarrow> uint256 list \<Rightarrow> provider \<Rightarrow> uint256 list \<times> uint256 list" where
  "ClassifyMergeset k mergeset inherited_blues P = classify_loop k P inherited_blues mergeset"

section \<open>Scoring a block\<close>

fun inherited_loop :: "provider \<Rightarrow> nat \<Rightarrow> uint256 \<Rightarrow> uint256 list option" where
  "inherited_loop P 0 cur = Some []"
| "inherited_loop P (Suc room) cur =
     (if IsNull cur then Some []
      else case GetGhostdagData P cur of
             None \<Rightarrow> None
           | Some d \<Rightarrow> map_option (Cons cur) (inherited_loop P room (selected_parent d)))"

fun add_blue_work :: "provider \<Rightarrow> uint256 list \<Rightarrow> uint64 \<Rightarrow> uint64" where
  "add_blue_work P [] work = work"
| "add_blue_work P (blue # blues) work = add_blue_work P blues (work + GetBlockWork P blue)"

definition ComputeGhostdag :: "uint32 \<Rightarrow> uint256 list \<Rightarrow> provider \<Rightarrow> GhostdagData option" where
  "ComputeGhostdag k parents P =
     (if parents = [] then Some default_data
      else let sp = SelectBestParent parents P in
        case GetGhostdagData P sp of
          None \<Rightarrow> None
        | Some sp_data \<Rightarrow>
            (case inherited_loop P (max_depth k) sp of
               None \<Rightarrow> None
             | Some inherited_blues \<Rightarrow>
                 (case ComputeMergeset parents sp P of
                    None \<Rightarrow> None
                  | Some mergeset \<Rightarrow>
                      let (blues, reds) = ClassifyMergeset k mergeset inherited_blues P in
                      Some \<lparr>blue_score = blue_score sp_data + of_nat (length blues) + 1,
                            selected_parent = sp,
                            mergeset_blues = blues,
                            mergeset_reds = reds,
                            blue_work = add_blue_work P blues (blue_work sp_data)\<rparr>)))"

definition ComputeVirtual :: "uint32 \<Rightarrow> uint256 list \<Rightarrow> provider \<Rightarrow> GhostdagData option" where
  "ComputeVirtual k tips P = ComputeGhostdag k tips P"

section \<open>Facts about the selected parent\<close>

definition prefers :: "provider \<Rightarrow> uint256 \<Rightarrow> uint256 \<Rightarrow> bool" where
  "prefers P a b \<longleftrightarrow> score_of P b < score_of P a \<or> (score_of P b = score_of P a \<and> a \<le> b)"

lemma prefers_refl [simp]: "prefers P a a"
  by (simp add: prefers_def)

lemma prefers_trans: "prefers P a b \<Longrightarrow> prefers P b c \<Longrightarrow> prefers P a c"
  by (auto simp: prefers_def)

lemma prefers_antisym: "prefers P a b \<Longrightarrow> prefers P b a \<Longrightarrow> a = b"
  by (auto simp: prefers_def)

lemma best_parent_loop_best:
  "best_parent_loop P best (score_of P best) cs \<in> insert best (set cs) \<and>
   (\<forall>c\<in>insert best (set cs). prefers P (best_parent_loop P best (score_of P best) cs) c)"
proof (induction cs arbitrary: best)
  case (Cons c cs)
  show ?case
  proof (cases "score_of P c > score_of P best \<or> (score_of P c = score_of P best \<and> c < best)")
    case True
    then have "prefers P c best" by (auto simp: prefers_def)
    then show ?thesis using Cons [of c] True prefers_trans by (auto simp: Let_def)
  next
    case False
    then have "prefers P best c" by (auto simp: prefers_def not_less)
    then show ?thesis using Cons [of best] False prefers_trans by (auto simp: Let_def)
  qed
qed simp

lemma SelectBestParent_best:
  assumes "candidates \<noteq> []"
  shows "SelectBestParent candidates P \<in> set candidates"
    and "c \<in> set candidates \<Longrightarrow> prefers P (SelectBestParent candidates P) c"
  using assms best_parent_loop_best [of P "hd candidates" "tl candidates"]
  by (auto simp: SelectBestParent_def split: list.splits)

lemma SelectBestParent_unique:
  assumes "xs \<noteq> []" and "b \<in> set xs" and "\<And>c. c \<in> set xs \<Longrightarrow> prefers P b c"
  shows "SelectBestParent xs P = b"
  using SelectBestParent_best [OF assms(1), where P = P] assms by (meson prefers_antisym)

section \<open>Facts about the mergeset\<close>

definition parent_rel :: "provider \<Rightarrow> (uint256 \<times> uint256) set" where
  "parent_rel P = {(c, p). p \<in> set (GetParents P c)}"

definition past :: "provider \<Rightarrow> uint256 set \<Rightarrow> uint256 set" where
  "past P S = (parent_rel P)\<^sup>* `` S"

lemma past_refl: "S \<subseteq> past P S"
  by (auto simp: past_def)

lemma past_step: "x \<in> past P S \<Longrightarrow> p \<in> set (GetParents P x) \<Longrightarrow> p \<in> past P S"
  unfolding past_def by (auto simp: parent_rel_def intro: rtrancl_into_rtrancl)

lemma past_trans: "x \<in> past P S \<Longrightarrow> y \<in> past P {x} \<Longrightarrow> y \<in> past P S"
  unfolding past_def by (auto intro: rtrancl_trans)

lemma seed_parents_effect:
  "\<exists>new. distinct new \<and> set new = set ps - insert sp v \<and>
     seed_parents sp ps (v, out, q) = (v \<union> set new, out @ new, q @ new)"
proof (induction ps arbitrary: v out q)
  case (Cons p ps)
  show ?case
  proof (cases "p \<noteq> sp \<and> p \<notin> v")
    case True
    obtain new where new: "distinct new" "set new = set ps - insert sp (insert p v)"
      "seed_parents sp ps (insert p v, out @ [p], q @ [p]) =
         (insert p v \<union> set new, (out @ [p]) @ new, (q @ [p]) @ new)"
      using Cons by blast
    show ?thesis by (rule exI [of _ "p # new"]) (use True new in auto)
  next
    case False
    then have "set (p # ps) - insert sp v = set ps - insert sp v" by auto
    then show ?thesis using Cons [of v out q] False by auto
  qed
qed simp

lemma expand_parents_effect:
  "\<exists>new. distinct new \<and> set new = {p \<in> set ps. p \<notin> v \<and> \<not> IsNull p} \<and>
     expand_parents P sp ps (v, out, q) =
       (v \<union> set new, out @ filter (\<lambda>p. \<not> IsAncestorOf P p sp) new, q @ new)"
proof (induction ps arbitrary: v out q)
  case (Cons p ps)
  show ?case
  proof (cases "p \<notin> v \<and> \<not> IsNull p")
    case True
    let ?out = "if \<not> IsAncestorOf P p sp then out @ [p] else out"
    obtain new where new: "distinct new" "set new = {x \<in> set ps. x \<notin> insert p v \<and> \<not> IsNull x}"
      "expand_parents P sp ps (insert p v, ?out, q @ [p]) =
         (insert p v \<union> set new, ?out @ filter (\<lambda>p. \<not> IsAncestorOf P p sp) new, (q @ [p]) @ new)"
      using Cons by blast
    show ?thesis by (rule exI [of _ "p # new"]) (use True new in auto)
  next
    case False
    then have "{x \<in> set (p # ps). x \<notin> v \<and> \<not> IsNull x} = {x \<in> set ps. x \<notin> v \<and> \<not> IsNull x}" by auto
    then show ?thesis using Cons [of v out q] False by auto
  qed
qed simp

text \<open>
  The set the search computes, for seeds \<open>S\<close>: the past of the seeds that is not in the past
  of the selected parent, and the seeds themselves.
\<close>

definition merge_target :: "provider \<Rightarrow> uint256 \<Rightarrow> uint256 set \<Rightarrow> uint256 set" where
  "merge_target P sp S = (past P S - past P {sp}) \<union> S"

text \<open>The blocks whose ancestry the search asks about: the seeds and the parents of merged blocks.\<close>

definition frontier :: "provider \<Rightarrow> uint256 \<Rightarrow> uint256 set \<Rightarrow> uint256 set" where
  "frontier P sp S = S \<union> {p. \<exists>y\<in>past P S - past P {sp}. p \<in> set (GetParents P y)}"

lemma frontier_past: "frontier P sp S \<subseteq> past P S"
  using past_refl [of S P] by (auto simp: frontier_def intro: past_step)

definition exact_ancestry :: "provider \<Rightarrow> uint256 \<Rightarrow> uint256 set \<Rightarrow> bool" where
  "exact_ancestry P sp X \<longleftrightarrow> (\<forall>x\<in>X. IsAncestorOf P x sp \<longleftrightarrow> x \<in> past P {sp})"

lemma exact_ancestryD: "exact_ancestry P sp X \<Longrightarrow> x \<in> X \<Longrightarrow> IsAncestorOf P x sp \<longleftrightarrow> x \<in> past P {sp}"
  by (simp add: exact_ancestry_def)

definition bfs_inv :: "provider \<Rightarrow> uint256 \<Rightarrow> uint256 set \<Rightarrow> uint256 set \<Rightarrow> uint256 list \<Rightarrow> uint256 list \<Rightarrow> bool" where
  "bfs_inv P sp S v out q \<longleftrightarrow>
     sp \<in> v \<and> S \<subseteq> v \<and> sp \<notin> set q \<and> set q \<subseteq> v \<and> v - {sp} \<subseteq> frontier P sp S \<and> distinct out \<and>
     set out = (v - past P {sp}) \<union> S \<and>
     (\<forall>x\<in>v - past P {sp}. x \<notin> set q \<longrightarrow> set (GetParents P x) \<subseteq> v)"

lemma bfs_inv_out_bound: "bfs_inv P sp S v out q \<Longrightarrow> set out \<subseteq> merge_target P sp S"
  using past_refl [of "{sp}" P] frontier_past [of P sp S] by (auto simp: bfs_inv_def merge_target_def)

lemma bfs_inv_done:
  assumes "bfs_inv P sp S v out []"
  shows "set out = merge_target P sp S"
proof
  show "set out \<subseteq> merge_target P sp S" using assms by (rule bfs_inv_out_bound)
  have inv: "S \<subseteq> v" "set out = (v - past P {sp}) \<union> S"
    "\<And>x p. x \<in> v \<Longrightarrow> x \<notin> past P {sp} \<Longrightarrow> p \<in> set (GetParents P x) \<Longrightarrow> p \<in> v"
    using assms by (auto simp: bfs_inv_def)
  have "x \<notin> past P {sp} \<longrightarrow> x \<in> v" if "(s, x) \<in> (parent_rel P)\<^sup>*" "s \<in> S" for s x
    using that
  proof (induction rule: rtrancl_induct)
    case base
    then show ?case using inv(1) by blast
  next
    case (step y z)
    then show ?case using inv(3) past_step [of y P "{sp}" z] by (auto simp: parent_rel_def)
  qed
  then show "merge_target P sp S \<subseteq> set out"
    unfolding inv(2) by (auto simp: merge_target_def past_def)
qed

lemma bfs_inv_skip:
  "bfs_inv P sp S v out (cur # q) \<Longrightarrow> cur \<in> past P {sp} \<Longrightarrow> bfs_inv P sp S v out q"
  by (auto simp: bfs_inv_def)

lemma bfs_inv_exact:
  assumes "bfs_inv P sp S v out (cur # q)" and "exact_ancestry P sp (frontier P sp S)"
  shows "IsAncestorOf P cur sp \<longleftrightarrow> cur \<in> past P {sp}"
  using assms by (intro exact_ancestryD) (auto simp: bfs_inv_def)

lemma bfs_inv_expand:
  assumes inv: "bfs_inv P sp S v out (cur # q)" and cur: "cur \<notin> past P {sp}"
    and exact: "exact_ancestry P sp (frontier P sp S)"
    and nonnull: "0 \<notin> set (GetParents P cur)"
    and new: "distinct new" "set new = {p \<in> set (GetParents P cur). p \<notin> v \<and> \<not> IsNull p}"
  shows "bfs_inv P sp S (v \<union> set new) (out @ filter (\<lambda>p. \<not> IsAncestorOf P p sp) new) (q @ new)"
proof -
  have "cur \<in> frontier P sp S" using inv by (auto simp: bfs_inv_def)
  then have "cur \<in> past P S - past P {sp}" using frontier_past [of P sp S] cur by auto
  then have fr: "set new \<subseteq> frontier P sp S" using new(2) by (auto simp: frontier_def)
  then have ex: "{x \<in> set new. \<not> IsAncestorOf P x sp} = set new - past P {sp}"
    using exact_ancestryD [OF exact] by auto
  have pc: "set (GetParents P cur) \<subseteq> v \<union> set new"
    using nonnull by (auto simp: new(2) IsNull_def)
  have "set new \<inter> v = {}" using new(2) by auto
  then show ?thesis
    using inv new(1) fr ex pc unfolding bfs_inv_def by auto
qed

lemma mergeset_loop_correct:
  assumes "bfs_inv P sp S v out q" and "mergeset_loop P sp v out q = Some r"
    and "exact_ancestry P sp (frontier P sp S)" and "\<And>c. 0 \<notin> set (GetParents P c)"
  shows "distinct r \<and> set r = merge_target P sp S"
  using assms
proof (induction P sp v out q rule: mergeset_loop.induct)
  case (1 P sp v out)
  from "1.prems"(2) have "r = out" by simp
  moreover have "distinct out" using "1.prems"(1) by (simp add: bfs_inv_def)
  ultimately show ?case using bfs_inv_done [OF "1.prems"(1)] by simp
next
  case (2 P sp v out cur q)
  note exact = "2.prems"(3) and nonnull = "2.prems"(4)
  show ?case
  proof (cases "IsAncestorOf P cur sp")
    case True
    then have "cur \<in> past P {sp}" using bfs_inv_exact [OF "2.prems"(1) exact] by simp
    with "2.prems"(1) have "bfs_inv P sp S v out q" by (rule bfs_inv_skip)
    moreover have "mergeset_loop P sp v out q = Some r" using "2.prems"(2) True by simp
    ultimately show ?thesis using exact nonnull by (rule "2.IH"(1) [OF True])
  next
    case False
    obtain new where new: "distinct new" "set new = {p \<in> set (GetParents P cur). p \<notin> v \<and> \<not> IsNull p}"
      and eq: "expand_parents P sp (GetParents P cur) (v, out, q) =
        (v \<union> set new, out @ filter (\<lambda>p. \<not> IsAncestorOf P p sp) new, q @ new)" (is "_ = (?v, ?out, ?q)")
      using expand_parents_effect by blast
    have "cur \<notin> past P {sp}" using False bfs_inv_exact [OF "2.prems"(1) exact] by simp
    then have inv: "bfs_inv P sp S ?v ?out ?q"
      by (rule bfs_inv_expand [OF "2.prems"(1) _ exact nonnull new])
    have small: "\<not> MAX_MERGESET_SIZE \<le> length ?out" and rec: "mergeset_loop P sp ?v ?out ?q = Some r"
      using "2.prems"(2) False eq by (simp_all split: if_splits)
    show ?thesis
      by (rule "2.IH"(2) [OF False eq [symmetric] refl small inv rec exact nonnull])
  qed
qed

text \<open>The size cap only fires when the mergeset really has that many blocks.\<close>

lemma bfs_inv_out_small:
  assumes "bfs_inv P sp S v out q" and "card (merge_target P sp S) < MAX_MERGESET_SIZE"
  shows "length out < MAX_MERGESET_SIZE"
proof -
  have "length out = card (set out)"
    using assms(1) unfolding bfs_inv_def by (metis distinct_card)
  also have "\<dots> \<le> card (merge_target P sp S)"
    using bfs_inv_out_bound [OF assms(1)] by (rule card_mono [rotated]) simp
  finally show ?thesis using assms(2) by simp
qed

lemma mergeset_loop_total:
  assumes "bfs_inv P sp S v out q" and "card (merge_target P sp S) < MAX_MERGESET_SIZE"
    and "exact_ancestry P sp (frontier P sp S)" and "\<And>c. 0 \<notin> set (GetParents P c)"
  shows "\<exists>r. mergeset_loop P sp v out q = Some r"
  using assms
proof (induction P sp v out q rule: mergeset_loop.induct)
  case (2 P sp v out cur q)
  note small = "2.prems"(2) and exact = "2.prems"(3) and nonnull = "2.prems"(4)
  show ?case
  proof (cases "IsAncestorOf P cur sp")
    case True
    then have "cur \<in> past P {sp}" using bfs_inv_exact [OF "2.prems"(1) exact] by simp
    with "2.prems"(1) have "bfs_inv P sp S v out q" by (rule bfs_inv_skip)
    then have "\<exists>r. mergeset_loop P sp v out q = Some r"
      using small exact nonnull by (rule "2.IH"(1) [OF True])
    then show ?thesis using True by simp
  next
    case False
    obtain new where new: "distinct new" "set new = {p \<in> set (GetParents P cur). p \<notin> v \<and> \<not> IsNull p}"
      and eq: "expand_parents P sp (GetParents P cur) (v, out, q) =
        (v \<union> set new, out @ filter (\<lambda>p. \<not> IsAncestorOf P p sp) new, q @ new)" (is "_ = (?v, ?out, ?q)")
      using expand_parents_effect by blast
    have "cur \<notin> past P {sp}" using False bfs_inv_exact [OF "2.prems"(1) exact] by simp
    then have inv: "bfs_inv P sp S ?v ?out ?q"
      by (rule bfs_inv_expand [OF "2.prems"(1) _ exact nonnull new])
    then have len: "\<not> MAX_MERGESET_SIZE \<le> length ?out"
      using small by (simp only: not_le bfs_inv_out_small)
    have "\<exists>r. mergeset_loop P sp ?v ?out ?q = Some r"
      by (rule "2.IH"(2) [OF False eq [symmetric] refl len inv small exact nonnull])
    then show ?thesis using False eq len by simp
  qed
qed simp

lemma mergeset_loop_length:
  "mergeset_loop P sp v out q = Some r \<Longrightarrow> length out < MAX_MERGESET_SIZE \<Longrightarrow> length r < MAX_MERGESET_SIZE"
  by (induction P sp v out q rule: mergeset_loop.induct) (auto split: if_splits prod.splits)

lemma bfs_inv_seed:
  obtains new where "distinct new" and "set new = set ps - {sp}"
    and "seed_parents sp ps ({sp}, [], []) = (insert sp (set new), new, new)"
    and "bfs_inv P sp (set ps - {sp}) (insert sp (set new)) new new"
proof -
  obtain new where new: "distinct new" "set new = set ps - insert sp {sp}"
    "seed_parents sp ps ({sp}, [], []) = ({sp} \<union> set new, [] @ new, [] @ new)"
    using seed_parents_effect by blast
  have "bfs_inv P sp (set ps - {sp}) (insert sp (set new)) new new"
    using new past_refl [of "{sp}" P] by (auto simp: bfs_inv_def frontier_def)
  then show thesis using that new by simp
qed

lemma ComputeMergeset_correct:
  assumes "ComputeMergeset ps sp P = Some ms"
    and "exact_ancestry P sp (frontier P sp (set ps - {sp}))" and "\<And>c. 0 \<notin> set (GetParents P c)"
  shows "distinct ms" and "set ms = merge_target P sp (set ps - {sp})" and "sorted (map (topo_key P) ms)"
proof -
  obtain new where seed: "seed_parents sp ps ({sp}, [], []) = (insert sp (set new), new, new)"
    and inv: "bfs_inv P sp (set ps - {sp}) (insert sp (set new)) new new"
    using bfs_inv_seed by blast
  obtain r where r: "mergeset_loop P sp (insert sp (set new)) new new = Some r"
    and ms: "ms = sort_key (topo_key P) r"
    using assms(1) seed by (auto simp: ComputeMergeset_def)
  have "distinct r \<and> set r = merge_target P sp (set ps - {sp})"
    using mergeset_loop_correct [OF inv r] assms(2,3) by blast
  then show "distinct ms" and "set ms = merge_target P sp (set ps - {sp})" and "sorted (map (topo_key P) ms)"
    by (auto simp: ms)
qed

lemma ComputeMergeset_total:
  assumes "card (merge_target P sp (set ps - {sp})) < MAX_MERGESET_SIZE"
    and "exact_ancestry P sp (frontier P sp (set ps - {sp}))" and "\<And>c. 0 \<notin> set (GetParents P c)"
  shows "\<exists>ms. ComputeMergeset ps sp P = Some ms"
proof -
  obtain new where seed: "seed_parents sp ps ({sp}, [], []) = (insert sp (set new), new, new)"
    and inv: "bfs_inv P sp (set ps - {sp}) (insert sp (set new)) new new"
    using bfs_inv_seed by blast
  show ?thesis
    using mergeset_loop_total [OF inv assms] seed by (auto simp: ComputeMergeset_def)
qed

lemma ComputeMergeset_length:
  assumes "ComputeMergeset ps sp P = Some ms" and "length ps < MAX_MERGESET_SIZE"
  shows "length ms < MAX_MERGESET_SIZE"
proof -
  obtain new where new: "distinct new" "set new = set ps - {sp}"
    and seed: "seed_parents sp ps ({sp}, [], []) = (insert sp (set new), new, new)"
    using bfs_inv_seed by blast
  have "length new \<le> length ps"
    using new card_mono [of "set ps" "set new"] card_length [of ps] by (simp add: distinct_card [symmetric])
  then show ?thesis
    using assms seed by (auto simp: ComputeMergeset_def dest: mergeset_loop_length)
qed

lemma mergeset_loop_keeps: "mergeset_loop P sp v out q = Some r \<Longrightarrow> set out \<subseteq> set r"
proof (induction P sp v out q rule: mergeset_loop.induct)
  case (2 P sp v out cur q)
  obtain new where new: "expand_parents P sp (GetParents P cur) (v, out, q) =
      (v \<union> set new, out @ filter (\<lambda>p. \<not> IsAncestorOf P p sp) new, q @ new)"
    using expand_parents_effect by blast
  show ?case
    using "2.prems" "2.IH"(1) "2.IH"(2) [OF _ new [symmetric] refl] by (auto simp: new split: if_splits)
qed simp

lemma ComputeMergeset_parents:
  assumes "ComputeMergeset ps sp P = Some ms" and "p \<in> set ps" and "p \<noteq> sp"
  shows "p \<in> set ms"
proof -
  obtain new where new: "set new = set ps - {sp}"
    and seed: "seed_parents sp ps ({sp}, [], []) = (insert sp (set new), new, new)"
    using bfs_inv_seed by blast
  obtain r where r: "mergeset_loop P sp (insert sp (set new)) new new = Some r" and ms: "set ms = set r"
    using assms(1) seed by (auto simp: ComputeMergeset_def)
  from mergeset_loop_keeps [OF r] show ?thesis using new ms assms(2,3) by blast
qed

section \<open>Facts about the colouring\<close>

definition in_anticone :: "provider \<Rightarrow> uint256 \<Rightarrow> uint256 \<Rightarrow> bool" where
  "in_anticone P b x \<longleftrightarrow> x \<noteq> b \<and> \<not> IsAncestorOf P x b \<and> \<not> IsAncestorOf P b x"

lemma AntiConeBlueCount_eq:
  "AntiConeBlueCount P b xs = of_nat (length (filter (in_anticone P b) xs))"
  by (induction xs) (auto simp: in_anticone_def)

lemma unat_AntiConeBlueCount:
  "length xs < 2 ^ 32 \<Longrightarrow> unat (AntiConeBlueCount P b xs) = length (filter (in_anticone P b) xs)"
  unfolding AntiConeBlueCount_eq
  by (intro unat_of_nat_small) (simp add: le_less_trans [OF length_filter_le])

lemma classify_loop_partition:
  "classify_loop k P cur ms = (blues, reds) \<Longrightarrow> mset blues + mset reds = mset ms"
  by (induction k P cur ms arbitrary: blues reds rule: classify_loop.induct)
    (auto simp: Let_def split: if_splits prod.splits)

lemma classify_loop_subseq:
  "classify_loop k P cur ms = (blues, reds) \<Longrightarrow> subseq blues ms \<and> subseq reds ms"
  by (induction k P cur ms arbitrary: blues reds rule: classify_loop.induct)
    (auto simp: Let_def split: if_splits prod.splits)

lemma ComputeMergeset_sorted: "ComputeMergeset ps sp P = Some ms \<Longrightarrow> sorted (map (topo_key P) ms)"
  by (auto simp: ComputeMergeset_def split: prod.splits)

text \<open>Each blue was compared with the blues before it and stayed within \<open>k\<close>; each red was
  compared with the blues chosen before it and exceeded \<open>k\<close>.\<close>

lemma classify_loop_blue_bound:
  "classify_loop k P cur ms = (blues, reds) \<Longrightarrow> i < length blues \<Longrightarrow>
     AntiConeBlueCount P (blues ! i) (cur @ take i blues) \<le> k"
proof (induction k P cur ms arbitrary: blues reds i rule: classify_loop.induct)
  case (2 k P cur c rest)
  show ?case
  proof (cases "AntiConeBlueCount P c cur \<le> k")
    case True
    then obtain bs where "classify_loop k P (cur @ [c]) rest = (bs, reds)" "blues = c # bs"
      using "2.prems"(1) by (auto simp: Let_def split: prod.splits)
    then show ?thesis using "2.IH"(1) [OF True] "2.prems"(2) True by (cases i) auto
  next
    case False
    then obtain rs where "classify_loop k P cur rest = (blues, rs)"
      using "2.prems"(1) by (auto simp: Let_def split: prod.splits)
    then show ?thesis using "2.IH"(2) [OF False] "2.prems"(2) by blast
  qed
qed simp

lemma classify_loop_red_bound:
  "classify_loop k P cur ms = (blues, reds) \<Longrightarrow> r \<in> set reds \<Longrightarrow>
     \<exists>j \<le> length blues. k < AntiConeBlueCount P r (cur @ take j blues)"
proof (induction k P cur ms arbitrary: blues reds rule: classify_loop.induct)
  case (2 k P cur c rest)
  show ?case
  proof (cases "AntiConeBlueCount P c cur \<le> k")
    case True
    then obtain bs where "classify_loop k P (cur @ [c]) rest = (bs, reds)" "blues = c # bs"
      using "2.prems"(1) by (auto simp: Let_def split: prod.splits)
    moreover from this obtain j where "j \<le> length bs" "k < AntiConeBlueCount P r ((cur @ [c]) @ take j bs)"
      using "2.IH"(1) [OF True] "2.prems"(2) by blast
    ultimately show ?thesis by (intro exI [of _ "Suc j"]) simp
  next
    case False
    then obtain rs where rec: "classify_loop k P cur rest = (blues, rs)" "reds = c # rs"
      using "2.prems"(1) by (auto simp: Let_def split: prod.splits)
    show ?thesis
    proof (cases "r = c")
      case True
      then show ?thesis using False by (intro exI [of _ 0]) simp
    next
      case neq: False
      then show ?thesis using "2.IH"(2) [OF False rec(1)] "2.prems"(2) rec(2) by simp
    qed
  qed
qed simp

section \<open>Facts about the score of a block\<close>

lemma ComputeGhostdag_SomeE:
  assumes "ComputeGhostdag k parents P = Some d" and "parents \<noteq> []"
  obtains sp_data inh ms where "selected_parent d = SelectBestParent parents P"
    and "GetGhostdagData P (SelectBestParent parents P) = Some sp_data"
    and "inherited_loop P (max_depth k) (SelectBestParent parents P) = Some inh"
    and "ComputeMergeset parents (SelectBestParent parents P) P = Some ms"
    and "classify_loop k P inh ms = (mergeset_blues d, mergeset_reds d)"
    and "blue_score d = blue_score sp_data + of_nat (length (mergeset_blues d)) + 1"
    and "blue_work d = add_blue_work P (mergeset_blues d) (blue_work sp_data)"
  using assms
  by (auto simp: ComputeGhostdag_def ClassifyMergeset_def Let_def split: if_splits option.splits prod.splits)

lemma add_blue_work_sum: "add_blue_work P xs w = w + sum_list (map (GetBlockWork P) xs)"
  by (induction xs arbitrary: w) (auto simp: add.assoc)

lemma inherited_loop_length: "inherited_loop P n cur = Some xs \<Longrightarrow> length xs \<le> n"
  by (induction P n cur arbitrary: xs rule: inherited_loop.induct) (auto split: if_splits option.splits)

lemma mergeset_blues_small:
  assumes "ComputeGhostdag k parents P = Some d" and "parents \<noteq> []" and "length parents < MAX_MERGESET_SIZE"
  shows "length (mergeset_blues d) + length (mergeset_reds d) < MAX_MERGESET_SIZE"
proof -
  obtain inh ms where "ComputeMergeset parents (SelectBestParent parents P) P = Some ms"
    and "classify_loop k P inh ms = (mergeset_blues d, mergeset_reds d)"
    using ComputeGhostdag_SomeE [OF assms(1,2)] by metis
  then have "length ms < MAX_MERGESET_SIZE" and "mset (mergeset_blues d) + mset (mergeset_reds d) = mset ms"
    using assms(3) by (auto intro: ComputeMergeset_length dest: classify_loop_partition)
  then show ?thesis by (metis size_mset size_union)
qed

text \<open>A new block scores strictly higher than every parent, as long as the 64-bit score cannot wrap.\<close>

lemma blue_score_increases:
  assumes d: "ComputeGhostdag k parents P = Some d" "parents \<noteq> []" "length parents < MAX_MERGESET_SIZE"
    and room: "unat (score_of P (SelectBestParent parents P)) < 2 ^ 64 - 1001" and p: "p \<in> set parents"
  shows "score_of P p < blue_score d"
proof -
  let ?sp = "SelectBestParent parents P"
  obtain sp_data where sp: "GetGhostdagData P ?sp = Some sp_data"
    and bs: "blue_score d = blue_score sp_data + of_nat (length (mergeset_blues d)) + 1"
    using ComputeGhostdag_SomeE [OF d(1,2)] by metis
  have len: "length (mergeset_blues d) < 1000"
    using mergeset_blues_small [OF d] by (simp add: MAX_MERGESET_SIZE_def)
  have sc: "score_of P ?sp = blue_score sp_data" by (simp add: score_of_def sp)
  define n where "n = length (mergeset_blues d) + 1"
  have n: "unat (of_nat n :: uint64) = n" using len by (intro unat_of_nat_small) (simp add: n_def)
  have "n < 1001" using len by (simp add: n_def)
  then have "unat (score_of P ?sp + of_nat n) = unat (score_of P ?sp) + unat (of_nat n :: uint64)"
    using room by (intro unat_add_small) (simp add: n)
  moreover have "blue_score d = score_of P ?sp + of_nat n" using bs sc by (simp add: n_def)
  ultimately have "unat (blue_score d) = unat (score_of P ?sp) + n" by (simp add: n)
  then have "score_of P ?sp < blue_score d" by (simp add: word_less_nat_alt n_def)
  moreover have "score_of P p \<le> score_of P ?sp"
    using SelectBestParent_best(2) [OF d(2) p, of P] by (auto simp: prefers_def)
  ultimately show ?thesis by simp
qed

end
