(* ===== verification/Block_Index.thy ===== *)
theory Block_Index
  imports Block_Header Arith_Uint256 Ghostdag
begin

unbundle bit_operations_syntax

text \<open>
  The in-memory block index: \<^verbatim>\<open>CBlockIndex\<close> with its skip list (\<^verbatim>\<open>src/src/chain.h\<close>,
  \<^verbatim>\<open>src/src/chain.cpp\<close>) and \<^verbatim>\<open>BlockManager::AddToBlockIndex\<close>
  (\<^verbatim>\<open>src/src/node/blockstorage.cpp\<close>). The C++ map owns its entries and never drops one, so a
  pointer to an entry is the hash the entry is stored under; \<open>nullptr\<close> is \<open>None\<close>. Heights are
  never negative and are natural numbers. File positions and the early-protection weight, which
  nothing here reads, are left out of the record.

  The lemmas show that the skip list is consistent after every insertion and that
  \<open>GetAncestor\<close>, which jumps along it, returns what walking \<open>pprev\<close> returns.
\<close>

section \<open>Entries\<close>

record CBlockIndex =
  pprev :: "uint256 option"
  pskip :: "uint256 option"
  nHeight :: nat
  nChainWork :: arith_uint256
  nTx :: uint32
  m_chain_tx_count :: uint64
  nStatus :: uint32
  nVersion :: uint32
  hashMerkleRoot :: uint256
  nTime :: uint32
  nBits :: uint32
  hashParentsRoot :: uint256
  nNonce :: uint32
  vDagParents :: "uint256 list"
  dagData :: GhostdagData
  nDagHeight :: uint64
  nSequenceId :: int
  nTimeMax :: uint32

type_synonym BlockMap = "uint256 \<Rightarrow> CBlockIndex option"

definition BLOCK_VALID_TREE :: uint32 where "BLOCK_VALID_TREE = 2"

definition BLOCK_VALID_TRANSACTIONS :: uint32 where "BLOCK_VALID_TRANSACTIONS = 3"

definition BLOCK_VALID_MASK :: uint32 where "BLOCK_VALID_MASK = 1 OR 2 OR 3 OR 4 OR 5"

definition BLOCK_HAVE_DATA :: uint32 where "BLOCK_HAVE_DATA = 8"

definition BLOCK_FAILED_VALID :: uint32 where "BLOCK_FAILED_VALID = 32"

definition BLOCK_FAILED_MASK :: uint32 where "BLOCK_FAILED_MASK = 32 OR 64"

definition RaiseValidity :: "uint32 \<Rightarrow> CBlockIndex \<Rightarrow> CBlockIndex" where
  "RaiseValidity nUpTo i =
     (if nStatus i AND BLOCK_FAILED_MASK \<noteq> 0 then i
      else if nStatus i AND BLOCK_VALID_MASK < nUpTo
      then i\<lparr>nStatus := (nStatus i AND NOT BLOCK_VALID_MASK) OR nUpTo\<rparr>
      else i)"

definition CBlockIndex_of :: "CBlockHeader \<Rightarrow> CBlockIndex" where
  "CBlockIndex_of block = \<lparr>pprev = None, pskip = None, nHeight = 0, nChainWork = 0, nTx = 0,
     m_chain_tx_count = 0, nStatus = 0, nVersion = CBlockHeader.nVersion block,
     hashMerkleRoot = CBlockHeader.hashMerkleRoot block, nTime = CBlockHeader.nTime block,
     nBits = CBlockHeader.nBits block, hashParentsRoot = CBlockHeader.hashParentsRoot block,
     nNonce = CBlockHeader.nNonce block, vDagParents = [], dagData = default_data, nDagHeight = 0,
     nSequenceId = 0, nTimeMax = 0\<rparr>"

section \<open>Skip list\<close>

definition InvertLowestOne :: "nat \<Rightarrow> nat" where
  "InvertLowestOne n = n AND (n - 1)"

definition GetSkipHeight :: "nat \<Rightarrow> nat" where
  "GetSkipHeight height =
     (if height < 2 then 0
      else if odd height then InvertLowestOne (InvertLowestOne (height - 1)) + 1
      else InvertLowestOne height)"

lemma InvertLowestOne_le: "InvertLowestOne n \<le> n - 1"
proof -
  have "int (InvertLowestOne n) = int n AND int (n - 1)" by (simp add: InvertLowestOne_def of_nat_and_eq)
  also have "\<dots> \<le> int (n - 1)" by (rule AND_upper2) simp
  finally show ?thesis by simp
qed

lemma GetSkipHeight_less: "0 < h \<Longrightarrow> GetSkipHeight h < h"
  using InvertLowestOne_le [of h] InvertLowestOne_le [of "h - 1"]
    InvertLowestOne_le [of "InvertLowestOne (h - 1)"]
  by (auto simp: GetSkipHeight_def)

function ancestor_loop :: "BlockMap \<Rightarrow> nat \<Rightarrow> uint256 \<Rightarrow> nat \<Rightarrow> uint256 option" where
  "ancestor_loop m height pindexWalk heightWalk =
     (if heightWalk > height then
        (case m pindexWalk of
           None \<Rightarrow> None
         | Some i \<Rightarrow>
             let heightSkip = GetSkipHeight heightWalk;
                 heightSkipPrev = GetSkipHeight (heightWalk - 1)
             in if pskip i \<noteq> None \<and>
                   (heightSkip = height \<or>
                    (heightSkip > height \<and> \<not> (heightSkipPrev + 2 < heightSkip \<and> heightSkipPrev \<ge> height)))
                then ancestor_loop m height (the (pskip i)) heightSkip
                else (case pprev i of None \<Rightarrow> None | Some q \<Rightarrow> ancestor_loop m height q (heightWalk - 1)))
      else Some pindexWalk)"
  by pat_completeness auto
termination
  by (relation "measure (\<lambda>(m, height, p, h). h)") (auto simp: GetSkipHeight_less)

declare ancestor_loop.simps [simp del]

definition GetAncestor :: "BlockMap \<Rightarrow> uint256 \<Rightarrow> int \<Rightarrow> uint256 option" where
  "GetAncestor m this height =
     (case m this of
        None \<Rightarrow> None
      | Some i \<Rightarrow> if height > int (nHeight i) \<or> height < 0 then None
                  else ancestor_loop m (nat height) this (nHeight i))"

definition BuildSkip :: "BlockMap \<Rightarrow> CBlockIndex \<Rightarrow> CBlockIndex" where
  "BuildSkip m i =
     (case pprev i of
        None \<Rightarrow> i
      | Some q \<Rightarrow> (case GetAncestor m q (int (GetSkipHeight (nHeight i))) of
                     None \<Rightarrow> i
                   | Some a \<Rightarrow> i\<lparr>pskip := Some a\<rparr>))"

section \<open>The block manager\<close>

record BlockManager =
  m_block_index :: BlockMap
  m_best_header :: "uint256 option"
  m_dirty_blockindex :: "uint256 set"

definition empty_blockman :: BlockManager where
  "empty_blockman = \<lparr>m_block_index = (\<lambda>_. None), m_best_header = None, m_dirty_blockindex = {}\<rparr>"

definition known_parents :: "BlockMap \<Rightarrow> uint256 list \<Rightarrow> uint256 list" where
  "known_parents m hs = filter (\<lambda>h. m h \<noteq> None) hs"

text \<open>The new entry: linked to its predecessor, with accumulated work, skip pointer and those DAG
  parents that are already known. The lookups are made in the index without the new entry: they
  would find it only for a header that contains its own hash.\<close>

definition new_entry :: "BlockMap \<Rightarrow> CBlockHeader \<Rightarrow> CBlockIndex" where
  "new_entry m block =
     (let i0 = CBlockIndex_of block;
          i1 = (case m (hashPrevBlock block) of
                  None \<Rightarrow> i0\<lparr>nTimeMax := nTime i0, nChainWork := 0 + GetBlockProof (nBits i0)\<rparr>
                | Some prev \<Rightarrow>
                    (BuildSkip m (i0\<lparr>pprev := Some (hashPrevBlock block), nHeight := nHeight prev + 1\<rparr>))
                      \<lparr>nTimeMax := max (nTimeMax prev) (nTime i0),
                       nChainWork := nChainWork prev + GetBlockProof (nBits i0)\<rparr>);
          i2 = RaiseValidity BLOCK_VALID_TREE i1
      in if IsDagBlock block then i2\<lparr>vDagParents := known_parents m (hashParents block)\<rparr> else i2)"

definition insert_entry :: "BlockManager \<Rightarrow> uint256 \<Rightarrow> CBlockHeader \<Rightarrow> BlockManager" where
  "insert_entry bm hash block =
     (let m = m_block_index bm in
      case m hash of
        Some _ \<Rightarrow> bm
      | None \<Rightarrow>
          let pindexNew = new_entry m block;
              best = (case m_best_header bm of
                        None \<Rightarrow> Some hash
                      | Some b \<Rightarrow> (case m b of
                                     None \<Rightarrow> Some hash
                                   | Some bi \<Rightarrow> if nChainWork bi < nChainWork pindexNew then Some hash else Some b))
          in bm\<lparr>m_block_index := m(hash \<mapsto> pindexNew), m_best_header := best,
                m_dirty_blockindex := insert hash (m_dirty_blockindex bm)\<rparr>)"

definition AddToBlockIndex :: "BlockManager \<Rightarrow> CBlockHeader \<Rightarrow> BlockManager \<times> uint256" where
  "AddToBlockIndex bm block = (insert_entry bm (GetHash block) block, GetHash block)"

section \<open>Candidate order\<close>

text \<open>The comparator of \<open>setBlockIndexCandidates\<close>; the address of an entry is the last tie break.\<close>

definition work_before :: "('a::linorder) \<times> CBlockIndex \<Rightarrow> 'a \<times> CBlockIndex \<Rightarrow> bool" where
  "work_before pa pb =
     (let (aa, a) = pa; (ab, b) = pb in
      if nChainWork a > nChainWork b then False
      else if nChainWork a < nChainWork b then True
      else if blue_work (dagData a) > blue_work (dagData b) then False
      else if blue_work (dagData a) < blue_work (dagData b) then True
      else if nSequenceId a < nSequenceId b then False
      else if nSequenceId a > nSequenceId b then True
      else if aa < ab then False
      else if aa > ab then True
      else False)"

section \<open>Well-formed indexes\<close>

fun prev_steps :: "BlockMap \<Rightarrow> nat \<Rightarrow> uint256 \<Rightarrow> uint256 option" where
  "prev_steps m 0 p = Some p"
| "prev_steps m (Suc n) p =
     (case m p of None \<Rightarrow> None
      | Some i \<Rightarrow> (case pprev i of None \<Rightarrow> None | Some q \<Rightarrow> prev_steps m n q))"

definition work_at :: "BlockMap \<Rightarrow> uint256 option \<Rightarrow> arith_uint256" where
  "work_at m p = (case p of None \<Rightarrow> 0 | Some q \<Rightarrow> (case m q of None \<Rightarrow> 0 | Some j \<Rightarrow> nChainWork j))"

lemma work_at_simps [simp]:
  "work_at m None = 0" "m q = Some j \<Longrightarrow> work_at m (Some q) = nChainWork j"
  by (simp_all add: work_at_def)

definition entry_ok :: "BlockMap \<Rightarrow> uint256 \<Rightarrow> CBlockIndex \<Rightarrow> bool" where
  "entry_ok m p i \<longleftrightarrow>
     p \<noteq> 0 \<and>
     (case pprev i of
        None \<Rightarrow> nHeight i = 0
      | Some q \<Rightarrow> (\<exists>j. m q = Some j \<and> nHeight i = nHeight j + 1)) \<and>
     (\<forall>s. pskip i = Some s \<longrightarrow> prev_steps m (nHeight i - GetSkipHeight (nHeight i)) p = Some s) \<and>
     (\<forall>q\<in>set (vDagParents i). m q \<noteq> None) \<and>
     nChainWork i = work_at m (pprev i) + GetBlockProof (nBits i)"

definition index_wf :: "BlockMap \<Rightarrow> bool" where
  "index_wf m \<longleftrightarrow> (\<forall>p i. m p = Some i \<longrightarrow> entry_ok m p i)"

lemma index_wfD: "index_wf m \<Longrightarrow> m p = Some i \<Longrightarrow> entry_ok m p i"
  by (simp add: index_wf_def)

lemma index_wf_pprev:
  assumes "index_wf m" and "m p = Some i"
  shows "pprev i = None \<Longrightarrow> nHeight i = 0"
    and "pprev i = Some q \<Longrightarrow> \<exists>j. m q = Some j \<and> nHeight i = nHeight j + 1"
  using index_wfD [OF assms] by (auto simp: entry_ok_def)

lemma prev_steps_add:
  "prev_steps m (a + b) p = Option.bind (prev_steps m a p) (prev_steps m b)"
  by (induction m a p rule: prev_steps.induct) (auto split: option.splits)

lemma prev_steps_height:
  assumes "index_wf m"
  shows "m p = Some i \<Longrightarrow> n \<le> nHeight i \<Longrightarrow>
    \<exists>q j. prev_steps m n p = Some q \<and> m q = Some j \<and> nHeight j = nHeight i - n"
proof (induction n arbitrary: p i)
  case (Suc n)
  then obtain q where q: "pprev i = Some q" using index_wf_pprev(1) [OF assms] by fastforce
  then obtain j where j: "m q = Some j" "nHeight i = nHeight j + 1" using index_wf_pprev(2) [OF assms] Suc.prems by blast
  from Suc.IH [OF j(1)] show ?case using Suc.prems q j by auto
qed simp

lemma ancestor_loop_correct:
  assumes wf: "index_wf m"
  shows "m p = Some i \<Longrightarrow> nHeight i = h \<Longrightarrow> height \<le> h \<Longrightarrow>
    ancestor_loop m height p h = prev_steps m (h - height) p"
proof (induction h arbitrary: p i rule: less_induct)
  case (less h)
  show ?case
  proof (cases "height < h")
    case False
    then show ?thesis using less.prems by (simp add: ancestor_loop.simps)
  next
    case lt: True
    let ?sk = "GetSkipHeight h" and ?skp = "GetSkipHeight (h - 1)"
    let ?jump = "pskip i \<noteq> None \<and> (?sk = height \<or> (?sk > height \<and> \<not> (?skp + 2 < ?sk \<and> ?skp \<ge> height)))"
    show ?thesis
    proof (cases ?jump)
      case True
      then obtain q where q: "pskip i = Some q" by auto
      have sk: "?sk < h" "height \<le> ?sk" using lt True GetSkipHeight_less by auto
      have steps: "prev_steps m (h - ?sk) p = Some q"
        using index_wfD [OF wf less.prems(1)] q less.prems(2) by (simp add: entry_ok_def)
      then obtain j where j: "m q = Some j" "nHeight j = ?sk"
        using prev_steps_height [OF wf less.prems(1), of "h - ?sk"] less.prems(2) sk by auto
      have "h - height = (h - ?sk) + (?sk - height)" using sk by simp
      then have "prev_steps m (h - height) p = prev_steps m (?sk - height) q"
        using steps by (simp only: prev_steps_add) simp
      moreover have "ancestor_loop m height p h = ancestor_loop m height q ?sk"
        using lt less.prems(1) q True by (subst ancestor_loop.simps) (simp add: Let_def)
      ultimately show ?thesis using less.IH [OF sk(1) j sk(2)] by simp
    next
      case False
      obtain q where q: "pprev i = Some q" using index_wf_pprev(1) [OF wf less.prems(1)] lt less.prems(2) by fastforce
      then obtain j where j: "m q = Some j" "nHeight j = h - 1"
        using index_wf_pprev(2) [OF wf less.prems(1) q] less.prems(2) by auto
      have "h - height = Suc (h - 1 - height)" using lt by simp
      then have "prev_steps m (h - height) p = prev_steps m (h - 1 - height) q" using less.prems(1) q by simp
      moreover have "ancestor_loop m height p h = ancestor_loop m height q (h - 1)"
        using lt less.prems(1) q False by (subst ancestor_loop.simps) (auto simp: Let_def)
      ultimately show ?thesis using less.IH [OF _ j] lt by simp
    qed
  qed
qed

lemma GetAncestor_walk:
  assumes "index_wf m" and "m p = Some i"
  shows "GetAncestor m p h =
    (if 0 \<le> h \<and> h \<le> int (nHeight i) then prev_steps m (nHeight i - nat h) p else None)"
  using ancestor_loop_correct [OF assms refl, of "nat h"] assms(2)
  by (auto simp: GetAncestor_def not_le nat_le_iff)

lemma GetAncestor_height:
  assumes "index_wf m" and "m p = Some i" and "h \<le> nHeight i"
  obtains q j where "GetAncestor m p (int h) = Some q" and "m q = Some j" and "nHeight j = h"
  using prev_steps_height [OF assms(1,2), of "nHeight i - h"] GetAncestor_walk [OF assms(1,2), of "int h"] assms(3)
  by auto

section \<open>Insertion\<close>

lemma prev_steps_fresh:
  assumes "index_wf m" and "m hash = None"
  shows "m p = Some i \<Longrightarrow> prev_steps (m(hash \<mapsto> n)) k p = prev_steps m k p"
proof (induction k arbitrary: p i)
  case (Suc k)
  have "p \<noteq> hash" using Suc.prems assms(2) by auto
  then show ?case using Suc index_wf_pprev(2) [OF assms(1) Suc.prems] by (auto split: option.splits)
qed simp

lemma index_wf_update:
  assumes wf: "index_wf m" and fresh: "m hash = None" and new: "entry_ok (m(hash \<mapsto> n)) hash n"
  shows "index_wf (m(hash \<mapsto> n))"
  unfolding index_wf_def
proof (intro allI impI)
  fix p i
  assume p: "(m(hash \<mapsto> n)) p = Some i"
  show "entry_ok (m(hash \<mapsto> n)) p i"
  proof (cases "p = hash")
    case True
    then show ?thesis using p new by simp
  next
    case False
    then have mp: "m p = Some i" using p by simp
    then show ?thesis
      using index_wfD [OF wf mp] prev_steps_fresh [OF wf fresh mp, of n] fresh
      by (auto simp: entry_ok_def split: option.splits)
  qed
qed

lemma RaiseValidity_links [simp]:
  "pprev (RaiseValidity v i) = pprev i" "pskip (RaiseValidity v i) = pskip i"
  "nHeight (RaiseValidity v i) = nHeight i" "vDagParents (RaiseValidity v i) = vDagParents i"
  "nChainWork (RaiseValidity v i) = nChainWork i" "nBits (RaiseValidity v i) = nBits i"
  "dagData (RaiseValidity v i) = dagData i" "nTimeMax (RaiseValidity v i) = nTimeMax i"
  by (simp_all add: RaiseValidity_def)

lemma BuildSkip_links [simp]:
  "pprev (BuildSkip m i) = pprev i" "nHeight (BuildSkip m i) = nHeight i"
  "vDagParents (BuildSkip m i) = vDagParents i" "nBits (BuildSkip m i) = nBits i"
  "dagData (BuildSkip m i) = dagData i"
  by (simp_all add: BuildSkip_def split: option.splits)

lemma new_entry_links:
  "pprev (new_entry m block) = (if m (hashPrevBlock block) = None then None else Some (hashPrevBlock block))"
  "nHeight (new_entry m block) = (case m (hashPrevBlock block) of None \<Rightarrow> 0 | Some prev \<Rightarrow> nHeight prev + 1)"
  "vDagParents (new_entry m block) = (if IsDagBlock block then known_parents m (hashParents block) else [])"
  "pskip (new_entry m block) =
     (case m (hashPrevBlock block) of
        None \<Rightarrow> None
      | Some prev \<Rightarrow> GetAncestor m (hashPrevBlock block) (int (GetSkipHeight (nHeight prev + 1))))"
  "dagData (new_entry m block) = default_data"
  "nChainWork (new_entry m block) =
     (case m (hashPrevBlock block) of None \<Rightarrow> 0 | Some prev \<Rightarrow> nChainWork prev) + GetBlockProof (nBits (new_entry m block))"
  by (auto simp: new_entry_def Let_def CBlockIndex_of_def BuildSkip_def split: option.splits)

lemma new_entry_ok:
  assumes wf: "index_wf m" and hash: "hash \<noteq> 0" and fresh: "m hash = None"
  shows "entry_ok (m(hash \<mapsto> new_entry m block)) hash (new_entry m block)"
proof (cases "m (hashPrevBlock block)")
  case None
  then show ?thesis using hash
    by (auto simp: entry_ok_def new_entry_links known_parents_def split: option.splits)
next
  case (Some prev)
  let ?m = "m(hash \<mapsto> new_entry m block)" and ?h = "nHeight prev + 1" and ?q = "hashPrevBlock block"
  have "?q \<noteq> hash" using Some fresh by auto
  have sk: "GetSkipHeight ?h < ?h" by (rule GetSkipHeight_less) simp
  have "prev_steps ?m (?h - GetSkipHeight ?h) hash = Some s" if "pskip (new_entry m block) = Some s" for s
  proof -
    have e: "?h - GetSkipHeight ?h = Suc (nHeight prev - GetSkipHeight ?h)" using sk by simp
    have "prev_steps m (nHeight prev - GetSkipHeight ?h) ?q = Some s"
      using that Some sk GetAncestor_walk [OF wf Some, of "int (GetSkipHeight ?h)"] by (simp add: new_entry_links)
    then have "prev_steps ?m (nHeight prev - GetSkipHeight ?h) ?q = Some s"
      using prev_steps_fresh [OF wf fresh Some] by simp
    then show ?thesis unfolding e using Some by (simp add: new_entry_links)
  qed
  then show ?thesis
    using Some hash \<open>?q \<noteq> hash\<close> by (auto simp: entry_ok_def new_entry_links known_parents_def)
qed

lemma insert_entry_index:
  "m_block_index (insert_entry bm hash block) =
     (let m = m_block_index bm in if m hash = None then m(hash \<mapsto> new_entry m block) else m)"
  by (auto simp: insert_entry_def Let_def split: option.splits)

lemma insert_entry_wf:
  assumes "index_wf (m_block_index bm)" and "hash \<noteq> 0"
  shows "index_wf (m_block_index (insert_entry bm hash block))"
  using assms by (auto simp: insert_entry_index Let_def intro!: index_wf_update new_entry_ok)

text \<open>Indexes built by insertions under arbitrary nonzero hashes; every run of
  \<open>AddToBlockIndex\<close> is one of them.\<close>

inductive reachable_index :: "BlockManager \<Rightarrow> bool" where
  reachable_empty: "reachable_index empty_blockman"
| reachable_insert: "reachable_index bm \<Longrightarrow> hash \<noteq> 0 \<Longrightarrow> reachable_index (insert_entry bm hash block)"

lemma reachable_AddToBlockIndex:
  "reachable_index bm \<Longrightarrow> GetHash block \<noteq> 0 \<Longrightarrow> reachable_index (fst (AddToBlockIndex bm block))"
  by (simp add: AddToBlockIndex_def reachable_insert)

lemma reachable_index_wf: "reachable_index bm \<Longrightarrow> index_wf (m_block_index bm)"
  by (induction rule: reachable_index.induct)
    (auto simp: empty_blockman_def index_wf_def [of "\<lambda>_. None"] intro: insert_entry_wf)

section \<open>Properties\<close>

text \<open>C27: In every index built by insertions, \<open>GetAncestor\<close> (which jumps along skip pointers)
  returns exactly the entry that walking \<open>pprev\<close> down to the requested height returns; for every
  height from zero to the block's own it finds an entry, of that height; for other heights it
  returns null.\<close>

theorem GetAncestor_follows_pprev:
  assumes "reachable_index bm" and "m_block_index bm p = Some i"
  shows "if 0 \<le> h \<and> h \<le> int (nHeight i)
    then GetAncestor (m_block_index bm) p h = prev_steps (m_block_index bm) (nHeight i - nat h) p \<and>
         (\<exists>q j. GetAncestor (m_block_index bm) p h = Some q \<and> m_block_index bm q = Some j \<and> nHeight j = nat h)
    else GetAncestor (m_block_index bm) p h = None"
proof -
  note wf = reachable_index_wf [OF assms(1)]
  show ?thesis
    using GetAncestor_walk [OF wf assms(2), of h] prev_steps_height [OF wf assms(2), of "nHeight i - nat h"]
    by (auto simp: nat_le_iff)
qed

definition header_on :: "uint256 \<Rightarrow> CBlockHeader" where
  "header_on prev = SetNull\<lparr>hashPrevBlock := prev, CBlockHeader.nBits := 0x207fffff\<rparr>"

definition example_index :: BlockManager where
  "example_index = insert_entry (insert_entry (insert_entry (insert_entry empty_blockman 11 (header_on 0))
     12 (header_on 11)) 13 (header_on 12)) 14 (header_on 13)"

lemma reachable_example_index: "reachable_index example_index"
  unfolding example_index_def by (intro reachable_insert reachable_empty) simp_all

theorem GetAncestor_follows_pprev_witness:
  "\<exists>i. m_block_index example_index 14 = Some i \<and> nHeight i = 3 \<and>
       (\<exists>q j. GetAncestor (m_block_index example_index) 14 1 = Some q \<and>
          m_block_index example_index q = Some j \<and> nHeight j = nat 1) \<and>
       GetAncestor (m_block_index example_index) 14 4 = None"
proof -
  have "\<exists>i. m_block_index example_index 14 = Some i \<and> nHeight i = 3"
    by (simp add: example_index_def insert_entry_index Let_def empty_blockman_def new_entry_links header_on_def)
  then obtain i where i: "m_block_index example_index 14 = Some i" "nHeight i = 3" by blast
  then have c: "(0::int) \<le> 1 \<and> 1 \<le> int (nHeight i)" by simp
  have "\<exists>q j. GetAncestor (m_block_index example_index) 14 1 = Some q \<and>
      m_block_index example_index q = Some j \<and> nHeight j = nat 1"
    using GetAncestor_follows_pprev [OF reachable_example_index i(1), of 1] unfolding if_P [OF c] by blast
  moreover have "GetAncestor (m_block_index example_index) 14 4 = None"
    using GetAncestor_follows_pprev [OF reachable_example_index i(1), of 4] i(2) by simp
  ultimately show ?thesis using i by blast
qed

lemma lex4_trans:
  fixes c1 c2 c3 :: "'c::linorder" and b1 b2 b3 :: "'b::linorder" and s1 s2 s3 :: "'s::linorder" and a1 a2 a3 :: "'a::linorder"
  assumes "c1 < c2 \<or> c1 = c2 \<and> (b1 < b2 \<or> b1 = b2 \<and> (s2 < s1 \<or> s1 = s2 \<and> a2 < a1))"
    and "c2 < c3 \<or> c2 = c3 \<and> (b2 < b3 \<or> b2 = b3 \<and> (s3 < s2 \<or> s2 = s3 \<and> a3 < a2))"
  shows "c1 < c3 \<or> c1 = c3 \<and> (b1 < b3 \<or> b1 = b3 \<and> (s3 < s1 \<or> s1 = s3 \<and> a3 < a1))"
  using assms by (elim disjE conjE) auto

lemma lex4_if:
  fixes c1 c2 :: "'c::linorder" and b1 b2 :: "'b::linorder" and s1 s2 :: "'s::linorder" and a1 a2 :: "'a::linorder"
  shows "(if c2 < c1 then False else if c1 < c2 then True else if b2 < b1 then False else if b1 < b2 then True
      else if s1 < s2 then False else if s2 < s1 then True else if a1 < a2 then False else if a2 < a1 then True
      else False) =
    (c1 < c2 \<or> c1 = c2 \<and> (b1 < b2 \<or> b1 = b2 \<and> (s2 < s1 \<or> s1 = s2 \<and> a2 < a1)))"
  and "(c1 < c2 \<or> c1 = c2 \<and> (b1 < b2 \<or> b1 = b2 \<and> (s2 < s1 \<or> s1 = s2 \<and> a2 < a1))) =
    (if c1 = c2 \<and> b1 = b2 then s1 > s2 \<or> (s1 = s2 \<and> a1 > a2) else if c1 = c2 then b1 < b2 else c1 < c2)"
  by auto

lemma work_before_lex:
  "work_before (a, x) (b, y) \<longleftrightarrow> nChainWork x < nChainWork y \<or> nChainWork x = nChainWork y \<and>
     (blue_work (dagData x) < blue_work (dagData y) \<or> blue_work (dagData x) = blue_work (dagData y) \<and>
       (nSequenceId y < nSequenceId x \<or> nSequenceId x = nSequenceId y \<and> b < a))"
  unfolding work_before_def Let_def prod.case by (rule lex4_if)

text \<open>The candidate comparator is a strict order under which any two entries at different
  addresses are comparable, so \<open>setBlockIndexCandidates\<close> has one best element; more chain work
  always wins, and GHOSTDAG blue work decides only between equal chain work.\<close>

theorem work_before_strict_order:
  "irreflp (work_before :: uint256 \<times> CBlockIndex \<Rightarrow> _) \<and>
   transp (work_before :: uint256 \<times> CBlockIndex \<Rightarrow> _) \<and>
   (work_before pa pb \<or> work_before pb pa \<or> fst pa = fst (pb :: uint256 \<times> CBlockIndex)) \<and>
   work_before (a, x) (b :: uint256, y) =
     (if nChainWork x = nChainWork y \<and> blue_work (dagData x) = blue_work (dagData y)
      then nSequenceId x > nSequenceId y \<or> (nSequenceId x = nSequenceId y \<and> a > b)
      else if nChainWork x = nChainWork y then blue_work (dagData x) < blue_work (dagData y)
      else nChainWork x < nChainWork y)"
proof (intro conjI)
  show "irreflp (work_before :: uint256 \<times> CBlockIndex \<Rightarrow> _)"
    by (rule irreflpI) (auto simp: work_before_lex)
  show "transp (work_before :: uint256 \<times> CBlockIndex \<Rightarrow> _)"
  proof (rule transpI)
    fix p q r :: "uint256 \<times> CBlockIndex"
    assume "work_before p q" and "work_before q r"
    then show "work_before p r"
      by (cases p, cases q, cases r, simp only: work_before_lex) (rule lex4_trans)
  qed
  show "work_before pa pb \<or> work_before pb pa \<or> fst pa = fst pb"
    by (cases pa, cases pb, simp only: work_before_lex fst_conv) (meson linorder_less_linear)
  show "work_before (a, x) (b :: uint256, y) =
     (if nChainWork x = nChainWork y \<and> blue_work (dagData x) = blue_work (dagData y)
      then nSequenceId x > nSequenceId y \<or> (nSequenceId x = nSequenceId y \<and> a > b)
      else if nChainWork x = nChainWork y then blue_work (dagData x) < blue_work (dagData y)
      else nChainWork x < nChainWork y)"
    unfolding work_before_lex by (rule lex4_if)
qed

end
