(* ===== verification/Dag_Provider.thy ===== *)
theory Dag_Provider
  imports Ghostdag
begin

text \<open>
  The contract between the scoring algorithm and whatever stores the DAG
  (\<^verbatim>\<open>dag::IGhostdagBlockProvider\<close>, \<^verbatim>\<open>src/src/dag/ghostdag.h\<close>). A provider is built from a
  store; in a store that is \<open>ok\<close>, the parents of a known block are known and nonnull, and the
  ancestry answer is never wrongly positive and is right for blocks that are \<open>near\<close> each other.
  The consequences for merging and scoring are proved here once, for every such store.
\<close>

section \<open>The contract\<close>

locale dag_provider =
  fixes prov :: "'s \<Rightarrow> provider"
    and ok :: "'s \<Rightarrow> bool"
    and near :: "'s \<Rightarrow> uint256 \<Rightarrow> uint256 \<Rightarrow> bool"
  assumes ancestor_sound: "ok st \<Longrightarrow> IsAncestorOf (prov st) a b \<Longrightarrow> a \<in> past (prov st) {b}"
    and ancestor_complete: "ok st \<Longrightarrow> GetGhostdagData (prov st) b \<noteq> None \<Longrightarrow> a \<in> past (prov st) {b} \<Longrightarrow>
      near st a b \<Longrightarrow> IsAncestorOf (prov st) a b"
    and parents_nonnull: "ok st \<Longrightarrow> 0 \<notin> set (GetParents (prov st) c)"
    and parents_known: "ok st \<Longrightarrow> p \<in> set (GetParents (prov st) c) \<Longrightarrow> GetGhostdagData (prov st) p \<noteq> None"
begin

lemma ancestry_exact:
  assumes "ok st" and "GetGhostdagData (prov st) sp \<noteq> None" and "\<And>x. x \<in> X \<Longrightarrow> near st x sp"
  shows "exact_ancestry (prov st) sp X"
  using assms ancestor_sound ancestor_complete by (auto simp: exact_ancestry_def)

lemma mergeset_exact:
  assumes "ok st" and "GetGhostdagData (prov st) sp \<noteq> None"
    and "\<And>x. x \<in> frontier (prov st) sp (set ps - {sp}) \<Longrightarrow> near st x sp"
    and "ComputeMergeset ps sp (prov st) = Some ms"
  shows "distinct ms" and "set ms = merge_target (prov st) sp (set ps - {sp})"
    and "sorted (map (topo_key (prov st)) ms)"
  using ComputeMergeset_correct [OF assms(4) ancestry_exact parents_nonnull] assms by auto

lemma mergeset_total:
  assumes "ok st" and "GetGhostdagData (prov st) sp \<noteq> None"
    and "\<And>x. x \<in> frontier (prov st) sp (set ps - {sp}) \<Longrightarrow> near st x sp"
    and "card (merge_target (prov st) sp (set ps - {sp})) < MAX_MERGESET_SIZE"
  shows "\<exists>ms. ComputeMergeset ps sp (prov st) = Some ms"
  using ComputeMergeset_total [OF assms(4) ancestry_exact parents_nonnull] assms by auto

text \<open>Where no extra parent is an ancestor of the selected one, the mergeset is the textbook set.\<close>

lemma mergeset_of_antichain:
  assumes "ok st" and "GetGhostdagData (prov st) sp \<noteq> None"
    and "\<And>x. x \<in> frontier (prov st) sp (set ps - {sp}) \<Longrightarrow> near st x sp"
    and "ComputeMergeset ps sp (prov st) = Some ms" and "(set ps - {sp}) \<inter> past (prov st) {sp} = {}"
  shows "set ms = past (prov st) (set ps) - past (prov st) {sp}"
proof -
  let ?P = "prov st" and ?S = "set ps - {sp}"
  have ms: "set ms = merge_target ?P sp ?S" by (rule mergeset_exact(2) [OF assms(1-4)])
  have "past ?P (set ps) \<subseteq> past ?P ?S \<union> past ?P {sp}" by (auto simp: past_def)
  moreover have "past ?P ?S \<subseteq> past ?P (set ps)" by (auto simp: past_def)
  moreover have "?S \<subseteq> past ?P ?S" by (rule past_refl)
  ultimately show ?thesis using assms(5) by (auto simp: ms merge_target_def)
qed

end

end
