(* ===== verification/Ghostdag_BlockIndex.thy ===== *)
theory Ghostdag_BlockIndex
  imports Block_Index Dag_Provider
begin

text \<open>
  The provider over the block index (\<^verbatim>\<open>src/src/dag/ghostdag_blockindex.h\<close>): parent lists,
  scores and work come from the entries, and ancestry is decided by a walk along \<open>pprev\<close> followed
  by a height-bounded breadth-first search capped at 500000 visited entries.

  The walk is a \<open>partial_function\<close>, so that a \<open>pprev\<close> cycle would make it return \<open>None\<close>; in a
  well-formed index it always returns. A positive answer of the search is always right. A negative
  answer is right when DAG parents are lower than their children and the part of the DAG above the
  ancestor stays under the cap; without the height condition it can be wrong, as the last property
  shows.
\<close>

section \<open>Ancestry\<close>

definition MAX_ANCESTOR_BFS_NODES :: nat where
  "MAX_ANCESTOR_BFS_NODES = 500000"

definition height_at :: "BlockMap \<Rightarrow> uint256 \<Rightarrow> nat" where
  "height_at m p = (case m p of None \<Rightarrow> 0 | Some i \<Rightarrow> nHeight i)"

definition entry_parents :: "CBlockIndex \<Rightarrow> uint256 list" where
  "entry_parents i = (case pprev i of None \<Rightarrow> [] | Some q \<Rightarrow> [q]) @ vDagParents i"

partial_function (option) walk_down :: "BlockMap \<Rightarrow> nat \<Rightarrow> uint256 option \<Rightarrow> uint256 option option" where
  "walk_down m h walk =
     (case walk of
        None \<Rightarrow> Some None
      | Some p \<Rightarrow> (case m p of
                     None \<Rightarrow> Some None
                   | Some i \<Rightarrow> if nHeight i > h then walk_down m h (pprev i) else Some (Some p)))"

declare walk_down.simps [code]

fun scan_parents :: "BlockMap \<Rightarrow> uint256 \<Rightarrow> nat \<Rightarrow> uint256 list \<Rightarrow> uint256 set \<Rightarrow> uint256 list \<Rightarrow> (uint256 set \<times> uint256 list) option" where
  "scan_parents m a ha [] visited queue = Some (visited, queue)"
| "scan_parents m a ha (p # ps) visited queue =
     (if p = a then None
      else if p \<in> visited then scan_parents m a ha ps visited queue
      else scan_parents m a ha ps (insert p visited) (if height_at m p > ha then queue @ [p] else queue))"

lemma scan_parents_measure:
  "scan_parents m a ha ps v q = Some (v', q') \<Longrightarrow> length q' + card (- v') \<le> length q + card (- v)"
proof (induction m a ha ps v q rule: scan_parents.induct)
  case (2 m a ha p ps v q)
  then show ?case using card_Compl_insert [of p v] by (auto split: if_splits)
qed simp

function ancestor_bfs :: "BlockMap \<Rightarrow> uint256 \<Rightarrow> nat \<Rightarrow> uint256 set \<Rightarrow> uint256 list \<Rightarrow> bool" where
  "ancestor_bfs m a ha visited [] = False"
| "ancestor_bfs m a ha visited (cur # queue) =
     (if card visited > MAX_ANCESTOR_BFS_NODES then False
      else case scan_parents m a ha (case m cur of None \<Rightarrow> [] | Some i \<Rightarrow> entry_parents i) visited queue of
             None \<Rightarrow> True
           | Some (visited', queue') \<Rightarrow> ancestor_bfs m a ha visited' queue')"
  by pat_completeness auto
termination
  by (relation "measure (\<lambda>(m, a, ha, v, q). length q + card (- v))")
    (auto dest!: scan_parents_measure)

text \<open>Evaluate the cap on binary numerals.\<close>

lemma bfs_cap_int [code_unfold]: "MAX_ANCESTOR_BFS_NODES < card visited \<longleftrightarrow> 500000 < int (card visited)"
  by (simp add: MAX_ANCESTOR_BFS_NODES_def)

definition IsBlockAncestor :: "BlockMap \<Rightarrow> uint256 \<Rightarrow> uint256 \<Rightarrow> bool option" where
  "IsBlockAncestor m pAncestor pBlock =
     (if pAncestor = pBlock then Some True
      else if height_at m pAncestor > height_at m pBlock then Some False
      else case walk_down m (height_at m pAncestor) (Some pBlock) of
             None \<Rightarrow> None
           | Some walk \<Rightarrow>
               if walk = Some pAncestor then Some True
               else Some (ancestor_bfs m pAncestor (height_at m pAncestor) {pBlock} [pBlock]))"

section \<open>The provider\<close>

definition index_GetGhostdagData :: "BlockMap \<Rightarrow> uint256 \<Rightarrow> GhostdagData option" where
  "index_GetGhostdagData m hash = map_option dagData (m hash)"

definition index_GetParents :: "BlockMap \<Rightarrow> uint256 \<Rightarrow> uint256 list" where
  "index_GetParents m hash = (case m hash of None \<Rightarrow> [] | Some i \<Rightarrow> entry_parents i)"

definition index_IsAncestorOf :: "BlockMap \<Rightarrow> uint256 \<Rightarrow> uint256 \<Rightarrow> bool" where
  "index_IsAncestorOf m ancestor block =
     (if m ancestor = None \<or> m block = None then False else IsBlockAncestor m ancestor block = Some True)"

definition index_GetBlockWork :: "BlockMap \<Rightarrow> uint256 \<Rightarrow> uint64" where
  "index_GetBlockWork m hash =
     (case m hash of
        None \<Rightarrow> 0
      | Some i \<Rightarrow> let w = GetLow64 (GetBlockProof (nBits i)) in if w > 0 then w else 1)"

definition BlockIndexGhostdagProvider :: "BlockMap \<Rightarrow> provider" where
  "BlockIndexGhostdagProvider m =
     \<lparr>GetGhostdagData = index_GetGhostdagData m, GetParents = index_GetParents m,
      IsAncestorOf = index_IsAncestorOf m, GetBlockWork = index_GetBlockWork m\<rparr>"

lemma provider_simps [simp]:
  "GetGhostdagData (BlockIndexGhostdagProvider m) = index_GetGhostdagData m"
  "GetParents (BlockIndexGhostdagProvider m) = index_GetParents m"
  "IsAncestorOf (BlockIndexGhostdagProvider m) = index_IsAncestorOf m"
  "GetBlockWork (BlockIndexGhostdagProvider m) = index_GetBlockWork m"
  by (simp_all add: BlockIndexGhostdagProvider_def)

section \<open>Facts about the index as a DAG\<close>

definition heights_mono :: "BlockMap \<Rightarrow> bool" where
  "heights_mono m \<longleftrightarrow> (\<forall>p i. m p = Some i \<longrightarrow> (\<forall>q\<in>set (vDagParents i). height_at m q < nHeight i))"

abbreviation index_past :: "BlockMap \<Rightarrow> uint256 set \<Rightarrow> uint256 set" where
  "index_past m \<equiv> past (BlockIndexGhostdagProvider m)"

text \<open>The entries the search may visit: the block and the parents of what lies above the ancestor.\<close>

definition search_window :: "BlockMap \<Rightarrow> uint256 \<Rightarrow> uint256 \<Rightarrow> uint256 set" where
  "search_window m a b =
     insert b {p. \<exists>y\<in>index_past m {b}. height_at m a < height_at m y \<and> p \<in> set (index_GetParents m y)}"

lemma index_parents_known:
  assumes "index_wf m" and "p \<in> set (index_GetParents m c)"
  shows "m p \<noteq> None"
proof -
  obtain i where i: "m c = Some i" "p \<in> set (entry_parents i)"
    using assms(2) by (cases "m c") (auto simp: index_GetParents_def)
  show ?thesis
    using index_wfD [OF assms(1) i(1)] i(2)
    by (auto simp: entry_ok_def entry_parents_def split: option.splits)
qed

lemma index_parents_lower:
  assumes "index_wf m" and "heights_mono m" and "p \<in> set (index_GetParents m c)"
  shows "height_at m p < height_at m c"
proof -
  obtain i where i: "m c = Some i" "p \<in> set (entry_parents i)"
    using assms(3) by (cases "m c") (auto simp: index_GetParents_def)
  then consider "pprev i = Some p" | "p \<in> set (vDagParents i)"
    by (auto simp: entry_parents_def split: option.splits)
  then show ?thesis
  proof cases
    case 1
    then show ?thesis using index_wf_pprev(2) [OF assms(1) i(1)] i(1) by (auto simp: height_at_def)
  next
    case 2
    then have "height_at m p < nHeight i" using assms(2) i(1) by (simp add: heights_mono_def)
    then show ?thesis using i(1) by (simp add: height_at_def)
  qed
qed

lemma index_past_known:
  assumes "index_wf m" and "x \<in> index_past m {b}" and "m b \<noteq> None"
  shows "m x \<noteq> None"
  using assms(2) unfolding past_def Image_singleton mem_Collect_eq
proof (induction rule: rtrancl_induct)
  case (step y z)
  then show ?case using index_parents_known [OF assms(1), of z y] by (simp add: parent_rel_def)
qed (rule assms(3))

lemma index_past_lower:
  assumes "index_wf m" and "heights_mono m" and "x \<in> index_past m {b}"
  shows "x = b \<or> height_at m x < height_at m b"
  using assms(3) unfolding past_def Image_singleton mem_Collect_eq
proof (induction rule: rtrancl_induct)
  case (step y z)
  then have "height_at m z < height_at m y" using index_parents_lower [OF assms(1,2)] by (simp add: parent_rel_def)
  then show ?case using step.IH by auto
qed simp

lemma walk_down_result:
  assumes "index_wf m"
  shows "\<exists>w. walk_down m h (Some p) = Some w \<and> (\<forall>q. w = Some q \<longrightarrow> q \<in> index_past m {p})"
proof (induction "height_at m p" arbitrary: p rule: less_induct)
  case less
  have here: "p \<in> index_past m {p}" using past_refl by blast
  show ?case
  proof (cases "m p")
    case None
    then show ?thesis by (simp add: walk_down.simps)
  next
    case (Some i)
    show ?thesis
    proof (cases "nHeight i > h")
      case False
      then show ?thesis using Some here by (simp add: walk_down.simps)
    next
      case up: True
      show ?thesis
      proof (cases "pprev i")
        case None
        then show ?thesis using Some up by (simp add: walk_down.simps)
      next
        case q: (Some q)
        then obtain j where j: "m q = Some j" "nHeight i = nHeight j + 1"
          using index_wf_pprev(2) [OF assms Some] by blast
        have "q \<in> set (index_GetParents m p)" using Some q by (simp add: index_GetParents_def entry_parents_def)
        then have "q \<in> index_past m {p}" using past_step [OF here] by simp
        moreover obtain w where w: "walk_down m h (Some q) = Some w" "\<forall>x. w = Some x \<longrightarrow> x \<in> index_past m {q}"
          using less [of q] Some j by (auto simp: height_at_def)
        moreover have "walk_down m h (Some p) = walk_down m h (Some q)"
          using Some q up by (subst walk_down.simps) simp
        ultimately show ?thesis using past_trans by metis
      qed
    qed
  qed
qed

section \<open>Facts about the search\<close>

lemma scan_parents_None: "scan_parents m a ha ps v q = None \<longleftrightarrow> a \<in> set ps"
  by (induction m a ha ps v q rule: scan_parents.induct) auto

lemma scan_parents_Some:
  "scan_parents m a ha ps v q = Some (v', q') \<Longrightarrow>
     v' = v \<union> set ps \<and> set q' = set q \<union> {p \<in> set ps - v. height_at m p > ha}"
  by (induction m a ha ps v q rule: scan_parents.induct) (auto split: if_splits)

lemma ancestor_bfs_sound:
  "ancestor_bfs m a ha v q \<Longrightarrow> set q \<subseteq> index_past m {b} \<Longrightarrow> a \<in> index_past m {b}"
proof (induction m a ha v q rule: ancestor_bfs.induct)
  case (2 m a ha v cur q)
  let ?ps = "case m cur of None \<Rightarrow> [] | Some i \<Rightarrow> entry_parents i"
  have ps: "?ps = GetParents (BlockIndexGhostdagProvider m) cur" by (simp add: index_GetParents_def)
  have in_past: "p \<in> index_past m {b}" if "p \<in> set ?ps" for p
    using that "2.prems"(2) past_step [of cur] unfolding ps by auto
  have small: "\<not> card v > MAX_ANCESTOR_BFS_NODES" using "2.prems"(1) by (auto split: if_splits)
  show ?case
  proof (cases "scan_parents m a ha ?ps v q")
    case None
    then show ?thesis using in_past by (simp add: scan_parents_None)
  next
    case (Some r)
    then obtain v' q' where r: "scan_parents m a ha ?ps v q = Some (v', q')" by (cases r) auto
    have "ancestor_bfs m a ha v' q'" using "2.prems"(1) small r by simp
    moreover have "set q' \<subseteq> index_past m {b}"
      using scan_parents_Some [OF r] in_past "2.prems"(2) by auto
    ultimately show ?thesis using "2.IH" [OF small r] by blast
  qed
qed simp

text \<open>The state of a search that has not met \<open>a\<close>.\<close>

definition search_inv :: "BlockMap \<Rightarrow> uint256 \<Rightarrow> uint256 \<Rightarrow> uint256 set \<Rightarrow> uint256 list \<Rightarrow> bool" where
  "search_inv m a b v q \<longleftrightarrow>
     a \<notin> v \<and> b \<in> v \<and> set q \<subseteq> v \<and> v \<subseteq> search_window m a b \<and> v \<subseteq> index_past m {b} \<and>
     (\<forall>x\<in>set q. height_at m a < height_at m x) \<and>
     (\<forall>x\<in>v. height_at m a < height_at m x \<longrightarrow> x \<notin> set q \<longrightarrow> set (index_GetParents m x) \<subseteq> v)"

lemma search_inv_step:
  assumes inv: "search_inv m a b v (cur # q)"
    and r: "scan_parents m a (height_at m a) (index_GetParents m cur) v q = Some (v', q')"
  shows "search_inv m a b v' q'"
proof -
  let ?ps = "set (index_GetParents m cur)"
  have v': "v' = v \<union> ?ps" "set q' = set q \<union> {p \<in> ?ps - v. height_at m p > height_at m a}"
    using scan_parents_Some [OF r] by auto
  have "a \<notin> ?ps" using r by (metis option.distinct(1) scan_parents_None)
  moreover have cur: "cur \<in> index_past m {b}" "height_at m a < height_at m cur"
    using inv by (auto simp: search_inv_def)
  moreover have "?ps \<subseteq> search_window m a b" using cur by (auto simp: search_window_def)
  moreover have "?ps \<subseteq> index_past m {b}" using cur(1) past_step [of cur] by auto
  ultimately show ?thesis using inv unfolding search_inv_def v' by auto
qed

lemma search_inv_done:
  assumes wf: "index_wf m" "heights_mono m" and inv: "search_inv m a b v []"
  shows "a \<notin> index_past m {b}"
proof
  let ?R = "parent_rel (BlockIndexGhostdagProvider m)"
  assume "a \<in> index_past m {b}"
  then have path: "(b, a) \<in> ?R\<^sup>*" by (simp add: past_def)
  have "x \<in> v" if "(b, x) \<in> ?R\<^sup>*" "(x, a) \<in> ?R\<^sup>*" for x
    using that
  proof (induction rule: rtrancl_induct)
    case base
    then show ?case using inv by (simp add: search_inv_def)
  next
    case (step y z)
    then have ya: "(y, a) \<in> ?R\<^sup>*" by (meson converse_rtrancl_into_rtrancl)
    then have y: "y \<in> v" using step.IH by blast
    then have "y \<noteq> a" using inv by (auto simp: search_inv_def)
    moreover have "a \<in> index_past m {y}" using ya by (simp add: past_def)
    ultimately have "height_at m a < height_at m y" using index_past_lower [OF wf] by metis
    then have "set (index_GetParents m y) \<subseteq> v" using inv y by (simp add: search_inv_def)
    then show ?case using step.hyps(2) by (auto simp: parent_rel_def)
  qed
  then have "a \<in> v" using path by blast
  then show False using inv by (simp add: search_inv_def)
qed

lemma ancestor_bfs_complete:
  assumes "index_wf m" "heights_mono m" "card (search_window m a b) \<le> MAX_ANCESTOR_BFS_NODES"
    and "a \<in> index_past m {b}"
  shows "search_inv m a b v q \<Longrightarrow> ha = height_at m a \<Longrightarrow> ancestor_bfs m a ha v q"
proof (induction "length q + card (- v)" arbitrary: v q rule: less_induct)
  case less
  have "card v \<le> card (search_window m a b)"
    using less.prems(1) by (intro card_mono) (auto simp: search_inv_def)
  then have small: "\<not> card v > MAX_ANCESTOR_BFS_NODES" using assms(3) by simp
  show ?case
  proof (cases q)
    case Nil
    then show ?thesis using search_inv_done [OF assms(1,2)] less.prems(1) assms(4) by blast
  next
    case (Cons cur q1)
    show ?thesis
    proof (cases "scan_parents m a ha (index_GetParents m cur) v q1")
      case None
      then show ?thesis using Cons small by (simp add: index_GetParents_def)
    next
      case (Some r)
      then obtain v' q' where r: "scan_parents m a ha (index_GetParents m cur) v q1 = Some (v', q')" by (cases r) auto
      have "search_inv m a b v' q'" using search_inv_step less.prems r Cons by blast
      moreover have "length q' + card (- v') < length q + card (- v)"
        using scan_parents_measure [OF r] Cons by simp
      ultimately have "ancestor_bfs m a ha v' q'" using less.hyps less.prems(2) by blast
      then show ?thesis using Cons small r by (simp add: index_GetParents_def)
    qed
  qed
qed

section \<open>The provider meets its contract\<close>

definition index_ok :: "BlockMap \<Rightarrow> bool" where
  "index_ok m \<longleftrightarrow> index_wf m \<and> heights_mono m"

definition search_near :: "BlockMap \<Rightarrow> uint256 \<Rightarrow> uint256 \<Rightarrow> bool" where
  "search_near m a b \<longleftrightarrow> card (search_window m a b) \<le> MAX_ANCESTOR_BFS_NODES"

lemma IsBlockAncestor_sound:
  assumes "index_wf m"
  shows "\<exists>r. IsBlockAncestor m a b = Some r \<and> (r \<longrightarrow> a \<in> index_past m {b})"
proof -
  have here: "b \<in> index_past m {b}" using past_refl by blast
  obtain w where "walk_down m (height_at m a) (Some b) = Some w" "\<forall>q. w = Some q \<longrightarrow> q \<in> index_past m {b}"
    using walk_down_result [OF assms] by blast
  then show ?thesis using here ancestor_bfs_sound [of m a "height_at m a" "{b}" "[b]" b]
    by (auto simp: IsBlockAncestor_def)
qed

lemma IsBlockAncestor_complete:
  assumes ok: "index_ok m" and a: "a \<in> index_past m {b}" and near: "search_near m a b"
  shows "IsBlockAncestor m a b = Some True"
proof (cases "a = b")
  case False
  have wf: "index_wf m" "heights_mono m" using ok by (simp_all add: index_ok_def)
  have lower: "height_at m a < height_at m b" using index_past_lower [OF wf a] False by blast
  have "b \<in> index_past m {b}" using past_refl by blast
  then have inv: "search_inv m a b {b} [b]" using False lower by (simp add: search_inv_def search_window_def)
  have bfs: "ancestor_bfs m a (height_at m a) {b} [b]"
    by (rule ancestor_bfs_complete [OF wf near [unfolded search_near_def] a inv refl])
  obtain w where "walk_down m (height_at m a) (Some b) = Some w" using walk_down_result [OF wf(1)] by blast
  then show ?thesis using False lower bfs by (simp add: IsBlockAncestor_def del: ancestor_bfs.simps)
qed (simp add: IsBlockAncestor_def)

interpretation index_dag: dag_provider BlockIndexGhostdagProvider index_ok search_near
proof unfold_locales
  fix m a b
  assume "index_ok m" and "IsAncestorOf (BlockIndexGhostdagProvider m) a b"
  then show "a \<in> index_past m {b}"
    using IsBlockAncestor_sound [of m a b] by (auto simp: index_IsAncestorOf_def index_ok_def split: if_splits)
next
  fix m a b
  assume ok: "index_ok m" and b: "GetGhostdagData (BlockIndexGhostdagProvider m) b \<noteq> None"
    and a: "a \<in> index_past m {b}" and near: "search_near m a b"
  have "m b \<noteq> None" using b by (simp add: index_GetGhostdagData_def)
  then have "m a \<noteq> None" using index_past_known a ok by (simp add: index_ok_def)
  then show "IsAncestorOf (BlockIndexGhostdagProvider m) a b"
    using IsBlockAncestor_complete [OF ok a near] \<open>m b \<noteq> None\<close> by (simp add: index_IsAncestorOf_def)
next
  fix m c
  assume "index_ok m"
  then show "0 \<notin> set (GetParents (BlockIndexGhostdagProvider m) c)"
    using index_parents_known [of m 0 c] index_wfD [of m 0] by (auto simp: index_ok_def entry_ok_def)
next
  fix m p c
  assume "index_ok m" and "p \<in> set (GetParents (BlockIndexGhostdagProvider m) c)"
  then show "GetGhostdagData (BlockIndexGhostdagProvider m) p \<noteq> None"
    using index_parents_known [of m p c] by (simp add: index_ok_def index_GetGhostdagData_def)
qed

end
