(* ===== verification/Ghostdag_Scoring.thy ===== *)
theory Ghostdag_Scoring
  imports Ghostdag_BlockIndex
begin

text \<open>
  What the scoring of \<^verbatim>\<open>src/src/dag/ghostdag.cpp\<close> computes on the block index: the selected
  parent, the mergeset, the colouring and the score. The last properties record where the code
  departs from its own documentation: a redundant parent is merged although it lies in the past of
  the selected parent, and blue work leaves out the selected chain.
\<close>

section \<open>Small indexes\<close>

lemma search_window_known:
  assumes "index_wf m" shows "search_window m a b \<subseteq> insert b (dom m)"
  using index_parents_known [OF assms] by (auto simp: search_window_def dom_def)

lemma search_near_small:
  assumes "index_wf m" and "card (dom m) < MAX_ANCESTOR_BFS_NODES"
  shows "search_near m a b"
proof -
  have "card (search_window m a b) \<le> card (insert b (dom m))"
    using search_window_known [OF assms(1)] by (rule card_mono [rotated]) simp
  also have "\<dots> \<le> card (dom m) + 1" by (simp add: card_insert_if)
  finally show ?thesis using assms(2) by (simp add: search_near_def)
qed

lemma merge_target_known:
  assumes "index_wf m" and "S \<subseteq> dom m"
  shows "merge_target (BlockIndexGhostdagProvider m) sp S \<subseteq> dom m"
proof -
  have "x \<in> dom m" if "x \<in> index_past m S" for x
  proof -
    from that obtain b where b: "b \<in> S" "x \<in> index_past m {b}" by (auto simp: past_def)
    then have "m b \<noteq> None" using assms(2) by (auto simp: dom_def)
    from index_past_known [OF assms(1) b(2) this] show ?thesis by (simp add: dom_def)
  qed
  then show ?thesis using assms(2) by (auto simp: merge_target_def)
qed

section \<open>Inherited context\<close>

definition chain_known :: "BlockMap \<Rightarrow> bool" where
  "chain_known m \<longleftrightarrow> (\<forall>p i. m p = Some i \<longrightarrow>
     selected_parent (dagData i) = 0 \<or> m (selected_parent (dagData i)) \<noteq> None)"

lemma inherited_loop_total:
  assumes "chain_known m"
  shows "cur = 0 \<or> m cur \<noteq> None \<Longrightarrow> \<exists>xs. inherited_loop (BlockIndexGhostdagProvider m) n cur = Some xs"
proof (induction n arbitrary: cur)
  case (Suc n)
  show ?case
  proof (cases "cur = 0")
    case False
    then obtain i where i: "m cur = Some i" using Suc.prems by auto
    then have "selected_parent (dagData i) = 0 \<or> m (selected_parent (dagData i)) \<noteq> None"
      using assms by (simp add: chain_known_def)
    from Suc.IH [OF this] show ?thesis using i False by (auto simp: index_GetGhostdagData_def)
  qed (simp add: IsNull_def)
qed simp

section \<open>Properties\<close>

text \<open>The selected parent is one of the candidates, has the highest blue score (the smallest
  hash among equals), and depends only on the set of candidates, not on their order or
  multiplicity.\<close>

theorem selected_parent_best:
  assumes "candidates \<noteq> []"
  shows "SelectBestParent candidates P \<in> set candidates \<and>
    (\<forall>c\<in>set candidates. score_of P c < score_of P (SelectBestParent candidates P) \<or>
       (score_of P c = score_of P (SelectBestParent candidates P) \<and> SelectBestParent candidates P \<le> c)) \<and>
    (\<forall>others. set others = set candidates \<longrightarrow> SelectBestParent others P = SelectBestParent candidates P)"
proof (intro conjI allI impI)
  note best = SelectBestParent_best [OF assms, where P = P]
  show "SelectBestParent candidates P \<in> set candidates" by (rule best(1))
  show "\<forall>c\<in>set candidates. score_of P c < score_of P (SelectBestParent candidates P) \<or>
       (score_of P c = score_of P (SelectBestParent candidates P) \<and> SelectBestParent candidates P \<le> c)"
    using best(2) by (simp add: prefers_def)
  fix others
  assume "set others = set candidates"
  then show "SelectBestParent others P = SelectBestParent candidates P"
    using assms best by (intro SelectBestParent_unique) auto
qed

text \<open>C22: On a well-formed index whose DAG parents are lower than their children and in which the
  selected parent of every scored block is known, a block with known parents is scored, that is, never
  rejected, under two bounds: its mergeset has fewer than 1000 blocks, and for every block \<open>x\<close> that
  the mergeset search meets, the ancestor search from the selected parent down to the height of
  \<open>x\<close> has at most 500000 blocks in its window, the cap \<open>MAX_ANCESTOR_BFS_NODES\<close>. The selected parent
  is the best parent, and blues and reds together are, without repetition, the blocks reachable from
  the other parents that are not in the past of the selected parent, and those parents themselves.
  Beyond the cap the search answers that an ancestor is none, so already merged ancestors of an old side
  block can be merged again; an index with fewer than 500000 entries never meets it
  (\<open>search_near_small\<close>).\<close>

theorem ComputeGhostdag_total:
  assumes "index_ok m" and "chain_known m" and "parents \<noteq> []" and "set parents \<subseteq> dom m"
    and "sp = SelectBestParent parents (BlockIndexGhostdagProvider m)"
    and "\<And>x. x \<in> frontier (BlockIndexGhostdagProvider m) sp (set parents - {sp}) \<Longrightarrow> search_near m x sp"
    and "card (merge_target (BlockIndexGhostdagProvider m) sp (set parents - {sp})) < MAX_MERGESET_SIZE"
  shows "\<exists>d. ComputeGhostdag k parents (BlockIndexGhostdagProvider m) = Some d \<and> selected_parent d = sp \<and>
    distinct (mergeset_blues d @ mergeset_reds d) \<and>
    set (mergeset_blues d) \<union> set (mergeset_reds d) =
      (index_past m (set parents - {sp}) - index_past m {sp}) \<union> (set parents - {sp})"
proof -
  let ?P = "BlockIndexGhostdagProvider m"
  have "sp \<in> set parents" using SelectBestParent_best(1) [OF assms(3)] assms(5) by simp
  then obtain i where i: "m sp = Some i" using assms(4) by auto
  then have known: "GetGhostdagData ?P sp \<noteq> None" by (simp add: index_GetGhostdagData_def)
  obtain inh where inh: "inherited_loop ?P (max_depth k) sp = Some inh"
    using inherited_loop_total [OF assms(2)] i by blast
  obtain ms where ms: "ComputeMergeset parents sp ?P = Some ms"
    using index_dag.mergeset_total [OF assms(1) known assms(6,7)] by blast
  note exact = index_dag.mergeset_exact [OF assms(1) known assms(6) ms]
  obtain blues reds where c: "classify_loop k ?P inh ms = (blues, reds)" by fastforce
  note part = classify_loop_partition [OF c]
  obtain d where d: "ComputeGhostdag k parents ?P = Some d" "selected_parent d = sp"
    "mergeset_blues d = blues" "mergeset_reds d = reds"
    using assms(3,5) known inh ms c by (auto simp: ComputeGhostdag_def ClassifyMergeset_def)
  have "mset (blues @ reds) = mset ms" using part by simp
  then have "distinct (blues @ reds)" "set (blues @ reds) = set ms"
    using exact(1) by (metis distinct_count_atmost_1 mset_eq_setD set_mset_mset, metis mset_eq_setD)
  then show ?thesis using d exact(2) by (auto simp: merge_target_def)
qed

text \<open>C23: Colouring. Blues and reds together are the mergeset, each in its order (blue score, then
  hash). Each blue block has at most \<open>K\<close> blocks in its anticone among the inherited selected chain and the
  blues placed before it; each red block has more than \<open>K\<close> in its anticone among the chain and
  those blues that were placed before it.\<close>

theorem colouring_bounds:
  assumes "ComputeGhostdag k parents P = Some d" and "parents \<noteq> []" and "length parents < MAX_MERGESET_SIZE"
    and "unat k < 2 ^ 30"
  shows "\<exists>inh ms. inherited_loop P (max_depth k) (selected_parent d) = Some inh \<and>
    ComputeMergeset parents (selected_parent d) P = Some ms \<and>
    mset (mergeset_blues d) + mset (mergeset_reds d) = mset ms \<and>
    subseq (mergeset_blues d) ms \<and> subseq (mergeset_reds d) ms \<and> sorted (map (topo_key P) ms) \<and>
    (\<forall>i<length (mergeset_blues d).
       length (filter (in_anticone P (mergeset_blues d ! i)) (inh @ take i (mergeset_blues d))) \<le> unat k) \<and>
    (\<forall>r\<in>set (mergeset_reds d). \<exists>j\<le>length (mergeset_blues d).
       unat k < length (filter (in_anticone P r) (inh @ take j (mergeset_blues d))))"
proof -
  obtain inh ms where sp: "selected_parent d = SelectBestParent parents P"
    and inh: "inherited_loop P (max_depth k) (SelectBestParent parents P) = Some inh"
    and ms: "ComputeMergeset parents (SelectBestParent parents P) P = Some ms"
    and c: "classify_loop k P inh ms = (mergeset_blues d, mergeset_reds d)"
    using ComputeGhostdag_SomeE [OF assms(1,2)] by metis
  let ?b = "mergeset_blues d"
  have small: "length (inh @ take j ?b) < 2 ^ 32" for j
    using inherited_loop_length [OF inh] mergeset_blues_small [OF assms(1-3)] assms(4)
    by (simp add: max_depth_def MAX_MERGESET_SIZE_def)
  have "length (filter (in_anticone P (?b ! i)) (inh @ take i ?b)) \<le> unat k" if "i < length ?b" for i
    using classify_loop_blue_bound [OF c that] unat_AntiConeBlueCount [OF small, of P "?b ! i" i]
    by (simp only: word_le_nat_alt)
  moreover have "\<exists>j\<le>length ?b. unat k < length (filter (in_anticone P r) (inh @ take j ?b))"
    if r: "r \<in> set (mergeset_reds d)" for r
    using classify_loop_red_bound [OF c r] unat_AntiConeBlueCount [OF small, of P r]
    by (auto simp only: word_less_nat_alt)
  ultimately show ?thesis
    using sp inh ms classify_loop_partition [OF c] classify_loop_subseq [OF c] ComputeMergeset_sorted [OF ms] by simp
qed

text \<open>C24: A scored block has a strictly larger blue score than every one of its parents, so scores
  strictly increase along every path of the DAG (until 64 bits run out).\<close>

theorem blue_score_strictly_increases:
  assumes "ComputeGhostdag k parents P = Some d" and "p \<in> set parents" and "length parents < MAX_MERGESET_SIZE"
    and "unat (score_of P (SelectBestParent parents P)) < 2 ^ 64 - 1001"
  shows "score_of P p < blue_score d"
proof (rule blue_score_increases [OF assms(1) _ assms(3,4,2)])
  show "parents \<noteq> []" using assms(2) by auto
qed

section \<open>Concrete DAGs\<close>

definition dag_entry :: "uint256 option \<Rightarrow> nat \<Rightarrow> uint256 list \<Rightarrow> uint64 \<Rightarrow> uint256 \<Rightarrow> uint256 list \<Rightarrow> CBlockIndex" where
  "dag_entry prev h ps score sp blues = (CBlockIndex_of SetNull)\<lparr>pprev := prev, nHeight := h, vDagParents := ps,
     dagData := \<lparr>blue_score = score, selected_parent = sp, mergeset_blues = blues, mergeset_reds = [],
       blue_work = of_nat (length blues)\<rparr>\<rparr>"

text \<open>Genesis 1; blocks 2 and 3 on it.\<close>

definition fork_index :: BlockMap where
  "fork_index h =
     (if h = 1 then Some (dag_entry None 0 [] 0 0 [])
      else if h = 2 then Some (dag_entry (Some 1) 1 [] 1 1 [])
      else if h = 3 then Some (dag_entry (Some 1) 1 [] 1 1 [])
      else None)"

text \<open>The same with block 4 on the genesis and block 5 merging 2 and 3.\<close>

definition merge_index :: BlockMap where
  "merge_index h =
     (if h = 1 then Some (dag_entry None 0 [] 0 0 [])
      else if h = 2 then Some (dag_entry (Some 1) 1 [] 1 1 [])
      else if h = 3 then Some (dag_entry (Some 1) 1 [] 1 1 [])
      else if h = 4 then Some (dag_entry (Some 1) 1 [] 1 1 [])
      else if h = 5 then Some (dag_entry (Some 2) 2 [3] 3 2 [3])
      else None)"

lemma GetBlockProof_0: "GetBlockProof 0 = 0"
  by (simp add: GetBlockProof_def SetCompact_def)

lemma dag_entry_fields [simp]:
  "pprev (dag_entry prev h ps score sp blues) = prev" "nHeight (dag_entry prev h ps score sp blues) = h"
  "vDagParents (dag_entry prev h ps score sp blues) = ps" "pskip (dag_entry prev h ps score sp blues) = None"
  "nChainWork (dag_entry prev h ps score sp blues) = 0" "nBits (dag_entry prev h ps score sp blues) = 0"
  "selected_parent (dagData (dag_entry prev h ps score sp blues)) = sp"
  by (simp_all add: dag_entry_def CBlockIndex_of_def SetNull_def)

lemma fork_index_ok: "index_ok fork_index"
  by (auto simp: index_ok_def index_wf_def entry_ok_def heights_mono_def height_at_def fork_index_def
      work_at_def GetBlockProof_0)

lemma fork_index_dom: "dom fork_index = {1, 2, 3}"
  by (auto simp: fork_index_def split: if_splits)

lemma fork_index_chain: "chain_known fork_index"
  by (auto simp: chain_known_def fork_index_def)

theorem selected_parent_best_witness:
  "[3, 2, 1] \<noteq> ([] :: uint256 list) \<and>
   SelectBestParent [3, 2, 1] (BlockIndexGhostdagProvider fork_index) = 2 \<and>
   SelectBestParent [1, 2, 3, 2] (BlockIndexGhostdagProvider fork_index) = 2"
proof -
  let ?P = "BlockIndexGhostdagProvider fork_index"
  have sp: "SelectBestParent [3, 2, 1] ?P = 2" by code_simp
  have "set [1, 2, 3, 2] = set [3, 2, 1 :: uint256]" by auto
  then have "SelectBestParent [1, 2, 3, 2] ?P = SelectBestParent [3, 2, 1] ?P"
    using selected_parent_best [of "[3, 2, 1]" ?P] by blast
  then show ?thesis using sp by simp
qed

theorem ComputeGhostdag_total_witness:
  "\<exists>d. ComputeGhostdag 18 [2, 3] (BlockIndexGhostdagProvider fork_index) = Some d \<and> selected_parent d = 2 \<and>
    distinct (mergeset_blues d @ mergeset_reds d) \<and>
    set (mergeset_blues d) \<union> set (mergeset_reds d) =
      (index_past fork_index ({2, 3} - {2}) - index_past fork_index {2}) \<union> ({2, 3} - {2})"
proof -
  let ?P = "BlockIndexGhostdagProvider fork_index"
  have sp: "2 = SelectBestParent [2, 3] ?P" by code_simp
  have near: "search_near fork_index x 2" for x
    using fork_index_ok by (intro search_near_small) (simp_all add: index_ok_def fork_index_dom MAX_ANCESTOR_BFS_NODES_def)
  have "card (merge_target ?P 2 (set [2, 3] - {2})) \<le> card {1, 2, 3 :: uint256}"
    using merge_target_known [of fork_index "{3}" 2] fork_index_ok
    by (intro card_mono) (simp_all add: index_ok_def fork_index_dom)
  then have small: "card (merge_target ?P 2 (set [2, 3] - {2})) < MAX_MERGESET_SIZE"
    by (simp add: MAX_MERGESET_SIZE_def)
  have "set [2, 3] \<subseteq> dom fork_index" by (simp add: fork_index_dom)
  from ComputeGhostdag_total [OF fork_index_ok fork_index_chain _ this sp near small, of 18]
  show ?thesis by simp
qed

lemma fork_score_k0:
  "ComputeGhostdag 0 [2, 3] (BlockIndexGhostdagProvider fork_index) =
     Some \<lparr>blue_score = 2, selected_parent = 2, mergeset_blues = [], mergeset_reds = [3], blue_work = 0\<rparr>"
  by code_simp

lemma fork_score_k1:
  "ComputeGhostdag 1 [2, 3] (BlockIndexGhostdagProvider fork_index) =
     Some \<lparr>blue_score = 3, selected_parent = 2, mergeset_blues = [3], mergeset_reds = [], blue_work = 1\<rparr>"
  by code_simp

theorem colouring_bounds_witness:
  "ComputeGhostdag 0 [2, 3] (BlockIndexGhostdagProvider fork_index) =
     Some \<lparr>blue_score = 2, selected_parent = 2, mergeset_blues = [], mergeset_reds = [3], blue_work = 0\<rparr> \<and>
   (\<exists>inh. inherited_loop (BlockIndexGhostdagProvider fork_index) (max_depth 0) 2 = Some inh \<and>
     0 < length (filter (in_anticone (BlockIndexGhostdagProvider fork_index) 3) inh))"
proof -
  have "[2, 3] \<noteq> ([] :: uint256 list)" and "length [2, 3 :: uint256] < MAX_MERGESET_SIZE" and "unat (0 :: uint32) < 2 ^ 30"
    by (simp_all add: MAX_MERGESET_SIZE_def)
  from colouring_bounds [OF fork_score_k0 this] show ?thesis using fork_score_k0 by auto
qed

theorem blue_score_strictly_increases_witness:
  "ComputeGhostdag 1 [2, 3] (BlockIndexGhostdagProvider fork_index) =
     Some \<lparr>blue_score = 3, selected_parent = 2, mergeset_blues = [3], mergeset_reds = [], blue_work = 1\<rparr> \<and>
   score_of (BlockIndexGhostdagProvider fork_index) 3 < 3"
proof -
  let ?P = "BlockIndexGhostdagProvider fork_index"
  have "score_of ?P (SelectBestParent [2, 3] ?P) = 1" by code_simp
  then have room: "unat (score_of ?P (SelectBestParent [2, 3] ?P)) < 2 ^ 64 - 1001" by simp
  have "(3 :: uint256) \<in> set [2, 3]" and "length [2, 3 :: uint256] < MAX_MERGESET_SIZE"
    by (simp_all add: MAX_MERGESET_SIZE_def)
  from blue_score_strictly_increases [OF fork_score_k1 this room] show ?thesis using fork_score_k1 by simp
qed

section \<open>Departures from the documented algorithm\<close>

text \<open>The header documents the mergeset as \<open>past(block) \ past(selected_parent)\<close>, but every
  parent other than the selected one is merged, even an ancestor of the selected parent: naming the
  genesis a second time as an extra parent raises a block's score from 2 to 3 and its blue work
  from 0 to 1.\<close>

theorem redundant_parent_is_merged:
  assumes "ComputeMergeset parents sp P = Some ms" and "p \<in> set parents" and "p \<noteq> sp"
  shows "p \<in> set ms"
  using assms by (rule ComputeMergeset_parents)

theorem redundant_parent_is_merged_witness:
  "1 \<in> index_past fork_index {2} \<and>
   (\<exists>ms. ComputeMergeset [2, 1] 2 (BlockIndexGhostdagProvider fork_index) = Some ms \<and> 1 \<in> set ms) \<and>
   ComputeGhostdag 18 [2] (BlockIndexGhostdagProvider fork_index) =
     Some \<lparr>blue_score = 2, selected_parent = 2, mergeset_blues = [], mergeset_reds = [], blue_work = 0\<rparr> \<and>
   ComputeGhostdag 18 [2, 1] (BlockIndexGhostdagProvider fork_index) =
     Some \<lparr>blue_score = 3, selected_parent = 2, mergeset_blues = [1], mergeset_reds = [], blue_work = 1\<rparr>"
proof -
  let ?P = "BlockIndexGhostdagProvider fork_index"
  have "1 \<in> set (GetParents ?P 2)" by code_simp
  then have "1 \<in> index_past fork_index {2}" using past_step past_refl by blast
  moreover have "ComputeMergeset [2, 1] 2 ?P = Some [1]" by code_simp
  then have "\<exists>ms. ComputeMergeset [2, 1] 2 ?P = Some ms \<and> 1 \<in> set ms"
    using redundant_parent_is_merged [of "[2, 1]" 2 ?P "[1]" 1] by simp
  moreover have "ComputeGhostdag 18 [2] ?P =
     Some \<lparr>blue_score = 2, selected_parent = 2, mergeset_blues = [], mergeset_reds = [], blue_work = 0\<rparr>" by code_simp
  moreover have "ComputeGhostdag 18 [2, 1] ?P =
     Some \<lparr>blue_score = 3, selected_parent = 2, mergeset_blues = [1], mergeset_reds = [], blue_work = 1\<rparr>" by code_simp
  ultimately show ?thesis by blast
qed

text \<open>Blue work adds only the work of merged blues to the selected parent's value. A block with a
  single parent therefore has exactly its parent's blue work, whatever work it or its parent
  carries; on a chain without merges it stays zero.\<close>

theorem single_parent_keeps_blue_work:
  assumes "ComputeGhostdag k [p] P = Some d" and "GetGhostdagData P p = Some sp_data"
  shows "blue_work d = blue_work sp_data \<and> mergeset_blues d = []"
proof -
  have "SelectBestParent [p] P = p" by (simp add: SelectBestParent_def)
  moreover have "ComputeMergeset [p] p P = Some []" by (simp add: ComputeMergeset_def)
  ultimately show ?thesis
    using assms by (auto simp: ComputeGhostdag_def ClassifyMergeset_def split: option.splits)
qed

theorem single_parent_keeps_blue_work_witness:
  "\<exists>d sp_data. ComputeGhostdag 2 [5] (BlockIndexGhostdagProvider merge_index) = Some d \<and>
     GetGhostdagData (BlockIndexGhostdagProvider merge_index) 5 = Some sp_data \<and>
     blue_work d = blue_work sp_data \<and> mergeset_blues d = []"
proof -
  have d: "ComputeGhostdag 2 [5] (BlockIndexGhostdagProvider merge_index) =
     Some \<lparr>blue_score = 4, selected_parent = 5, mergeset_blues = [], mergeset_reds = [], blue_work = 1\<rparr>" by code_simp
  have p: "GetGhostdagData (BlockIndexGhostdagProvider merge_index) 5 =
     Some \<lparr>blue_score = 3, selected_parent = 2, mergeset_blues = [3], mergeset_reds = [], blue_work = 1\<rparr>" by code_simp
  from single_parent_keeps_blue_work [OF d p] show ?thesis using d p by blast
qed

section \<open>Ancestry\<close>

text \<open>C25: In a well-formed index the ancestor search always returns, and a positive answer is always
  right. If moreover DAG parents are lower than their children and the part of the past above the
  ancestor has at most 500000 entries, the answer is exactly reachability along \<open>pprev\<close> and DAG
  parents.\<close>

theorem IsBlockAncestor_exact:
  assumes "index_wf m"
  shows "\<exists>r. IsBlockAncestor m a b = Some r \<and> (r \<longrightarrow> a \<in> index_past m {b}) \<and>
    (heights_mono m \<and> search_near m a b \<longrightarrow> r = (a \<in> index_past m {b}))"
  using IsBlockAncestor_sound [OF assms, of a b] IsBlockAncestor_complete [of m a b] assms
  by (auto simp: index_ok_def)

theorem IsBlockAncestor_exact_witness:
  "index_wf fork_index \<and> IsBlockAncestor fork_index 1 3 = Some True \<and> 1 \<in> index_past fork_index {3} \<and>
   IsBlockAncestor fork_index 2 3 = Some False \<and> 2 \<notin> index_past fork_index {3}"
proof -
  have wf: "index_wf fork_index" and hm: "heights_mono fork_index" using fork_index_ok by (simp_all add: index_ok_def)
  have near: "search_near fork_index a b" for a b
    using wf by (intro search_near_small) (simp_all add: fork_index_dom MAX_ANCESTOR_BFS_NODES_def)
  have "IsBlockAncestor fork_index 1 3 = Some True" and "IsBlockAncestor fork_index 2 3 = Some False" by code_simp+
  then show ?thesis
    using IsBlockAncestor_exact [OF wf, of 1 3] IsBlockAncestor_exact [OF wf, of 2 3] wf hm near by auto
qed

text \<open>Two branches from the genesis: 2 on one, 3, 4 and 6 on the other. Block 5 extends the short
  branch and names the tip of the long one as an extra parent.\<close>

definition dag_header_on :: "uint256 \<Rightarrow> uint256 list \<Rightarrow> CBlockHeader" where
  "dag_header_on prev ps = SetNull\<lparr>CBlockHeader.nVersion := 0x30000000, hashPrevBlock := prev, hashParents := ps\<rparr>"

definition tall_parent_index :: BlockManager where
  "tall_parent_index = insert_entry (insert_entry (insert_entry (insert_entry (insert_entry (insert_entry empty_blockman
     1 (dag_header_on 0 [])) 2 (dag_header_on 1 [])) 3 (dag_header_on 1 [])) 4 (dag_header_on 3 [])) 6 (dag_header_on 4 []))
     5 (dag_header_on 2 [6])"

text \<open>The search is documented never to give a wrong answer, but it first compares heights, and
  the height of a block is that of its selected parent plus one whatever its other parents are. An
  index built by ordinary insertions contains a block whose direct DAG parent is higher than the
  block itself and is reported not to be its ancestor.\<close>

theorem IsBlockAncestor_wrong_for_tall_parent:
  "reachable_index tall_parent_index \<and>
   6 \<in> set (index_GetParents (m_block_index tall_parent_index) 5) \<and>
   IsBlockAncestor (m_block_index tall_parent_index) 6 5 = Some False \<and>
   height_at (m_block_index tall_parent_index) 6 = 3 \<and> height_at (m_block_index tall_parent_index) 5 = 2"
proof -
  have "reachable_index tall_parent_index"
    unfolding tall_parent_index_def by (intro reachable_insert reachable_empty) simp_all
  moreover have h: "height_at (m_block_index tall_parent_index) 6 = 3" "height_at (m_block_index tall_parent_index) 5 = 2"
    by (simp_all add: tall_parent_index_def height_at_def insert_entry_index Let_def empty_blockman_def
        new_entry_links dag_header_on_def)
  moreover have "IsBlockAncestor (m_block_index tall_parent_index) 6 5 = Some False"
    using h by (simp add: IsBlockAncestor_def)
  moreover have "6 \<in> set (index_GetParents (m_block_index tall_parent_index) 5)"
    by (simp add: tall_parent_index_def index_GetParents_def entry_parents_def insert_entry_index Let_def
        empty_blockman_def new_entry_links dag_header_on_def known_parents_def IsDagBlock_def BLOCK_VERSION_DAGMODE_def)
  ultimately show ?thesis by blast
qed

end
