(* ===== verification/Topological_Order.thy ===== *)
theory Topological_Order
  imports Ghostdag_Scoring
begin

text \<open>
  \<^verbatim>\<open>GhostdagManager::TopologicalOrder\<close> and \<^verbatim>\<open>ComputeVirtualSelectedParentChain\<close>
  (\<^verbatim>\<open>src/src/dag/ghostdag.cpp\<close>). \<open>all_blocks\<close> is an \<open>unordered_set\<close>; the model takes its
  iteration sequence. The in-degree and children maps are functions with the defaults 0 and \<open>[]\<close> of
  \<open>operator[]\<close>; the priority queue is its content in ascending order.

  The algorithm refines an abstract greedy order that depends on the set only: as long as a block is
  ready, append the ready block of least (blue score, hash).
\<close>

section \<open>The algorithm\<close>

type_synonym edges = "(uint256 \<Rightarrow> int) \<times> (uint256 \<Rightarrow> uint256 list)"

fun edge_loop :: "uint256 list \<Rightarrow> uint256 \<Rightarrow> uint256 list \<Rightarrow> edges \<Rightarrow> edges" where
  "edge_loop all h [] e = e"
| "edge_loop all h (p # ps) (in_degree, children) =
     (if p \<in> set all
      then edge_loop all h ps (in_degree(h := in_degree h + 1), children(p := children p @ [h]))
      else edge_loop all h ps (in_degree, children))"

fun edges_loop :: "provider \<Rightarrow> uint256 list \<Rightarrow> uint256 list \<Rightarrow> edges \<Rightarrow> edges" where
  "edges_loop P all [] e = e"
| "edges_loop P all (h # hs) e = edges_loop P all hs (edge_loop all h (GetParents P h) e)"

type_synonym pqueue = "(uint64 \<times> uint256) list"

fun initial_queue :: "provider \<Rightarrow> (uint256 \<Rightarrow> int) \<Rightarrow> uint256 list \<Rightarrow> pqueue \<Rightarrow> pqueue" where
  "initial_queue P in_degree [] pq = pq"
| "initial_queue P in_degree (h # hs) pq =
     initial_queue P in_degree hs (if in_degree h = 0 then insort (topo_key P h) pq else pq)"

fun child_loop :: "provider \<Rightarrow> uint256 list \<Rightarrow> (uint256 \<Rightarrow> int) \<Rightarrow> pqueue \<Rightarrow> (uint256 \<Rightarrow> int) \<times> pqueue" where
  "child_loop P [] in_degree pq = (in_degree, pq)"
| "child_loop P (c # cs) in_degree pq =
     (let in_degree' = in_degree(c := in_degree c - 1) in
      child_loop P cs in_degree' (if in_degree' c = 0 then insort (topo_key P c) pq else pq))"

definition pending :: "(uint256 \<Rightarrow> int) \<Rightarrow> nat" where
  "pending in_degree = card {x. 0 < in_degree x}"

lemma pending_dec:
  "(if d c = 1 then pending (d(c := d c - 1)) + 1 else pending (d(c := d c - 1))) = pending d"
proof (cases "d c = 1")
  case True
  then have "{x. 0 < d x} = insert c {x. 0 < (d(c := d c - 1)) x}" by auto
  then show ?thesis using True by (simp add: pending_def)
next
  case False
  then have "{x. 0 < (d(c := d c - 1)) x} = {x. 0 < d x}" by auto
  then show ?thesis using False by (simp add: pending_def)
qed

lemma child_loop_measure:
  "child_loop P cs d pq = (d', pq') \<Longrightarrow> length pq' + pending d' = length pq + pending d"
proof (induction cs arbitrary: d pq)
  case (Cons c cs)
  then have "child_loop P cs (d(c := d c - 1)) (if d c = 1 then insort (topo_key P c) pq else pq) = (d', pq')"
    by (simp add: Let_def)
  from Cons.IH [OF this] show ?case using pending_dec [of d c] by (cases "d c = 1") (simp_all add: fun_upd_def)
qed simp

function kahn_loop :: "provider \<Rightarrow> (uint256 \<Rightarrow> uint256 list) \<Rightarrow> (uint256 \<Rightarrow> int) \<Rightarrow> pqueue \<Rightarrow> uint256 list \<Rightarrow> uint256 list" where
  "kahn_loop P children in_degree [] order = order"
| "kahn_loop P children in_degree ((score, h) # pq) order =
     (case child_loop P (children h) in_degree pq of
        (in_degree', pq') \<Rightarrow> kahn_loop P children in_degree' pq' (order @ [h]))"
  by pat_completeness auto
termination
  by (relation "measure (\<lambda>(P, ch, d, pq, order). length pq + pending d)")
    (auto dest!: child_loop_measure [OF sym])

definition TopologicalOrder :: "uint256 list \<Rightarrow> provider \<Rightarrow> uint256 list" where
  "TopologicalOrder all_blocks P =
     (case edges_loop P all_blocks all_blocks (\<lambda>_. 0, \<lambda>_. []) of
        (in_degree, children) \<Rightarrow>
          kahn_loop P children in_degree (initial_queue P in_degree all_blocks []) [])"

section \<open>The abstract order\<close>

definition ready :: "provider \<Rightarrow> uint256 set \<Rightarrow> uint256 list \<Rightarrow> uint256 set" where
  "ready P S order = {h \<in> S - set order. set (GetParents P h) \<inter> S \<subseteq> set order}"

function greedy :: "provider \<Rightarrow> uint256 set \<Rightarrow> uint256 list \<Rightarrow> uint256 list" where
  "greedy P S order =
     (if ready P S order = {} then order
      else greedy P S (order @ [snd (Min (topo_key P ` ready P S order))]))"
  by pat_completeness auto
termination
proof (relation "measure (\<lambda>(P, S, order). card (S - set order))")
  fix P S order
  assume "ready P S order \<noteq> {}"
  then have "Min (topo_key P ` ready P S order) \<in> topo_key P ` ready P S order" by (intro Min_in) auto
  then have "snd (Min (topo_key P ` ready P S order)) \<in> S - set order" by (auto simp: topo_key_def ready_def)
  then have "S - set (order @ [snd (Min (topo_key P ` ready P S order))]) \<subset> S - set order" by auto
  then show "((P, S, order @ [snd (Min (topo_key P ` ready P S order))]), (P, S, order)) \<in> measure (\<lambda>(P, S, order). card (S - set order))"
    unfolding in_measure prod.case by (rule psubset_card_mono [OF finite])
qed simp

declare greedy.simps [simp del]

section \<open>Facts about the edge maps\<close>

lemma count_list_replicate [simp]: "count_list (replicate n x) y = (if x = y then n else 0)"
  by (induction n) auto

lemma edge_loop_effect:
  "edge_loop all h ps (d, ch) =
     (d(h := d h + int (length (filter (\<lambda>p. p \<in> set all) ps))),
      \<lambda>p. ch p @ replicate (if p \<in> set all then count_list ps p else 0) h)"
proof (induction ps arbitrary: d ch)
  case (Cons p ps)
  show ?case
  proof (cases "p \<in> set all")
    case True
    have "(\<lambda>q. (ch(p := ch p @ [h])) q @ replicate (if q \<in> set all then count_list ps q else 0) h) =
        (\<lambda>q. ch q @ replicate (if q \<in> set all then count_list (p # ps) q else 0) h)"
      using True by (auto simp: replicate_app_Cons_same)
    then show ?thesis using True Cons.IH by (auto simp: fun_upd_def)
  next
    case False
    then show ?thesis using Cons.IH by auto
  qed
qed auto

text \<open>Parents within the set, and how often a block names a parent.\<close>

definition inner_parents :: "provider \<Rightarrow> uint256 set \<Rightarrow> uint256 \<Rightarrow> uint256 list" where
  "inner_parents P S h = filter (\<lambda>p. p \<in> S) (GetParents P h)"

lemma edges_loop_effect:
  "distinct hs \<Longrightarrow> set hs \<subseteq> set all \<Longrightarrow> edges_loop P all hs (d, ch) = (d', ch') \<Longrightarrow>
     (\<forall>h. d' h = d h + (if h \<in> set hs then int (length (inner_parents P (set all) h)) else 0)) \<and>
     (\<forall>p c. count_list (ch' p) c = count_list (ch p) c +
        (if c \<in> set hs \<and> p \<in> set all then count_list (GetParents P c) p else 0))"
proof (induction hs arbitrary: d ch)
  case (Cons h hs)
  let ?d = "d(h := d h + int (length (inner_parents P (set all) h)))"
  let ?ch = "\<lambda>p. ch p @ replicate (if p \<in> set all then count_list (GetParents P h) p else 0) h"
  have "edges_loop P all hs (?d, ?ch) = (d', ch')"
    using Cons.prems(3) by (simp add: edge_loop_effect inner_parents_def)
  then have IH: "(\<forall>x. d' x = ?d x + (if x \<in> set hs then int (length (inner_parents P (set all) x)) else 0)) \<and>
     (\<forall>p c. count_list (ch' p) c = count_list (?ch p) c +
        (if c \<in> set hs \<and> p \<in> set all then count_list (GetParents P c) p else 0))"
    using Cons.IH [of ?d ?ch] Cons.prems(1,2) by (simp del: fun_upd_apply)
  have "h \<notin> set hs" using Cons.prems(1) by simp
  have "d' x = d x + (if x \<in> set (h # hs) then int (length (inner_parents P (set all) x)) else 0)" for x
    using IH \<open>h \<notin> set hs\<close> by auto
  moreover have "count_list (ch' p) c = count_list (ch p) c +
      (if c \<in> set (h # hs) \<and> p \<in> set all then count_list (GetParents P c) p else 0)" for p c
    using IH \<open>h \<notin> set hs\<close> by (auto simp: count_list_append)
  ultimately show ?case by blast
qed simp

section \<open>Facts about the queue\<close>

lemma sorted_insort_key: "sorted (pq :: pqueue) \<Longrightarrow> sorted (insort x pq)"
  by (rule sorted_insort [THEN iffD2])

lemma initial_queue_content:
  "sorted pq \<Longrightarrow> sorted (initial_queue P d hs pq) \<and>
     mset (initial_queue P d hs pq) = mset pq + mset (map (topo_key P) (filter (\<lambda>h. d h = 0) hs))"
  by (induction hs arbitrary: pq) (auto simp: sorted_insort)

lemma child_loop_content:
  assumes "\<And>c. int (count_list cs c) \<le> d c \<or> c \<notin> set cs" and "sorted pq"
    and "child_loop P cs d pq = (d', pq')"
  shows "d' = (\<lambda>x. d x - int (count_list cs x)) \<and> sorted pq' \<and>
    mset pq' = mset pq + image_mset (topo_key P) (mset_set {c \<in> set cs. d c = int (count_list cs c)})"
  using assms
proof (induction cs arbitrary: d pq)
  case (Cons c cs)
  let ?d = "d(c := d c - 1)" and ?pq = "if d c = 1 then insort (topo_key P c) pq else pq"
  have rec: "child_loop P cs ?d ?pq = (d', pq')" using Cons.prems(3) by (simp add: Let_def)
  have enough: "int (count_list cs x) \<le> ?d x \<or> x \<notin> set cs" for x
    using Cons.prems(1) [of x] by auto
  have "sorted ?pq" using Cons.prems(2) by (simp add: sorted_insort)
  from Cons.IH [OF enough this rec] have IH: "d' = (\<lambda>x. ?d x - int (count_list cs x))" "sorted pq'"
    "mset pq' = mset ?pq + image_mset (topo_key P) (mset_set {x \<in> set cs. ?d x = int (count_list cs x)})" by auto
  have "{x \<in> set (c # cs). d x = int (count_list (c # cs) x)} =
      (if d c = 1 then insert c {x \<in> set cs. ?d x = int (count_list cs x)}
       else {x \<in> set cs. ?d x = int (count_list cs x)})"
    using Cons.prems(1) [of c] by (auto simp: count_list_0_iff)
  moreover have "c \<notin> {x \<in> set cs. ?d x = int (count_list cs x)}" if "d c = 1"
    using that by (auto simp: count_list_0_iff)
  ultimately have "mset pq' = mset pq +
      image_mset (topo_key P) (mset_set {x \<in> set (c # cs). d x = int (count_list (c # cs) x)})"
    using IH(3) by (cases "d c = 1") simp_all
  moreover have "d' = (\<lambda>x. d x - int (count_list (c # cs) x))" using IH(1) by auto
  ultimately show ?case using IH(2) by blast
qed simp

section \<open>Refinement\<close>

lemma length_filter_count:
  assumes "h \<notin> A"
  shows "length (filter (\<lambda>p. p \<notin> A) xs) = length (filter (\<lambda>p. p \<notin> insert h A) xs) + count_list xs h"
  using assms by (induction xs) auto

lemma count_list_filter: "h \<in> A \<Longrightarrow> count_list (filter (\<lambda>p. p \<in> A) xs) h = count_list xs h"
  by (induction xs) auto

definition degrees_inv :: "provider \<Rightarrow> uint256 set \<Rightarrow> uint256 list \<Rightarrow> (uint256 \<Rightarrow> int) \<Rightarrow> bool" where
  "degrees_inv P S order d \<longleftrightarrow>
     (\<forall>h\<in>S. d h = int (length (filter (\<lambda>p. p \<notin> set order) (inner_parents P S h))))"

definition children_inv :: "provider \<Rightarrow> uint256 set \<Rightarrow> (uint256 \<Rightarrow> uint256 list) \<Rightarrow> bool" where
  "children_inv P S ch \<longleftrightarrow>
     (\<forall>p\<in>S. \<forall>c. count_list (ch p) c = (if c \<in> S then count_list (GetParents P c) p else 0))"

definition closed_order :: "provider \<Rightarrow> uint256 set \<Rightarrow> uint256 list \<Rightarrow> bool" where
  "closed_order P S order \<longleftrightarrow> set order \<subseteq> S \<and> (\<forall>x\<in>set order. set (GetParents P x) \<inter> S \<subseteq> set order)"

definition queue_inv :: "provider \<Rightarrow> uint256 set \<Rightarrow> uint256 list \<Rightarrow> pqueue \<Rightarrow> bool" where
  "queue_inv P S order pq \<longleftrightarrow>
     sorted pq \<and> mset pq = image_mset (topo_key P) (mset_set (ready P S order))"

lemma degrees_zero_iff:
  assumes "degrees_inv P S order d" and "h \<in> S"
  shows "d h = 0 \<longleftrightarrow> set (GetParents P h) \<inter> S \<subseteq> set order"
proof -
  have "d h = 0 \<longleftrightarrow> filter (\<lambda>p. p \<notin> set order) (inner_parents P S h) = []"
    using assms by (simp add: degrees_inv_def)
  also have "\<dots> \<longleftrightarrow> set (GetParents P h) \<inter> S \<subseteq> set order"
    by (auto simp: filter_empty_conv inner_parents_def)
  finally show ?thesis .
qed

lemma queue_head:
  assumes "queue_inv P S order ((score, h) # pq)"
  shows "h \<in> ready P S order" and "Min (topo_key P ` ready P S order) = (score, h)"
    and "mset pq = image_mset (topo_key P) (mset_set (ready P S order - {h}))"
proof -
  have fin: "finite (ready P S order)" by simp
  have srt: "sorted ((score, h) # pq)"
    and ms: "mset ((score, h) # pq) = image_mset (topo_key P) (mset_set (ready P S order))"
    using assms by (auto simp: queue_inv_def)
  from ms have st: "set ((score, h) # pq) = topo_key P ` ready P S order"
    using fin by (metis finite_set_mset_mset_set set_image_mset set_mset_mset)
  then obtain h' where h': "h' \<in> ready P S order" "(score, h) = topo_key P h'" by auto
  then have key: "(score, h) = topo_key P h" by (simp add: topo_key_def)
  show h: "h \<in> ready P S order" using h' by (simp add: topo_key_def)
  show "Min (topo_key P ` ready P S order) = (score, h)"
    unfolding st [symmetric] using srt by (intro Min_eqI) auto
  have "mset_set (ready P S order) = add_mset h (mset_set (ready P S order - {h}))"
    using mset_set.remove [OF fin h] .
  then show "mset pq = image_mset (topo_key P) (mset_set (ready P S order - {h}))" using ms key by simp
qed

lemma kahn_step:
  assumes ch: "children_inv P S ch" and d: "degrees_inv P S order d" and cl: "closed_order P S order"
    and q: "queue_inv P S order ((score, h) # pq)" and step: "child_loop P (ch h) d pq = (d', pq')"
  shows "degrees_inv P S (order @ [h]) d'" and "closed_order P S (order @ [h])"
    and "queue_inv P S (order @ [h]) pq'"
proof -
  note head = queue_head [OF q]
  have hS: "h \<in> S" "h \<notin> set order" and hp: "set (GetParents P h) \<inter> S \<subseteq> set order"
    using head(1) by (auto simp: ready_def)
  have cnt: "count_list (ch h) c = (if c \<in> S then count_list (GetParents P c) h else 0)" for c
    using ch hS by (simp add: children_inv_def)
  have inner: "count_list (inner_parents P S c) h = count_list (GetParents P c) h" for c
    unfolding inner_parents_def by (rule count_list_filter [OF hS(1)])
  have deg: "d c = int (length (filter (\<lambda>p. p \<notin> set (order @ [h])) (inner_parents P S c))) + int (count_list (GetParents P c) h)"
    if "c \<in> S" for c
    using d that length_filter_count [OF hS(2), of "inner_parents P S c"] inner by (simp add: degrees_inv_def)
  have enough: "int (count_list (ch h) c) \<le> d c \<or> c \<notin> set (ch h)" for c
    using deg [of c] cnt [of c] by (auto simp: count_list_0_iff [symmetric])
  have "sorted pq" using q by (simp add: queue_inv_def)
  from child_loop_content [OF enough this step]
  have d': "d' = (\<lambda>x. d x - int (count_list (ch h) x))" and srt: "sorted pq'"
    and pq': "mset pq' = mset pq + image_mset (topo_key P) (mset_set {c \<in> set (ch h). d c = int (count_list (ch h) c)})"
    by auto
  show di: "degrees_inv P S (order @ [h]) d'" using deg cnt unfolding degrees_inv_def d' by simp
  show "closed_order P S (order @ [h])" using cl hS hp by (auto simp: closed_order_def)
  let ?N = "{c \<in> set (ch h). d c = int (count_list (ch h) c)}"
  have mem: "c \<in> set (ch h) \<longleftrightarrow> c \<in> S \<and> h \<in> set (GetParents P c)" for c
    using cnt [of c] by (metis count_list_0_iff)
  have N: "c \<in> ?N \<longleftrightarrow> c \<in> S \<and> h \<in> set (GetParents P c) \<and> set (GetParents P c) \<inter> S \<subseteq> set (order @ [h])" for c
    using mem [of c] degrees_zero_iff [OF di, of c] d' by auto
  have fresh: "c \<notin> set (order @ [h])" if "h \<in> set (GetParents P c)" for c
    using that cl hS hp by (auto simp: closed_order_def)
  have "ready P S (order @ [h]) = (ready P S order - {h}) \<union> ?N"
    using N fresh hS by (auto simp: ready_def)
  moreover have "(ready P S order - {h}) \<inter> ?N = {}" using N hS by (auto simp: ready_def)
  ultimately have "mset_set (ready P S (order @ [h])) = mset_set (ready P S order - {h}) + mset_set ?N"
    by (simp add: mset_set_Union)
  then show "queue_inv P S (order @ [h]) pq'" using pq' srt head(3) by (simp add: queue_inv_def)
qed

lemma kahn_refines_greedy:
  "children_inv P S ch \<Longrightarrow> degrees_inv P S order d \<Longrightarrow> closed_order P S order \<Longrightarrow> queue_inv P S order pq \<Longrightarrow>
     kahn_loop P ch d pq order = greedy P S order"
proof (induction P ch d pq order rule: kahn_loop.induct)
  case (1 P ch d order)
  then have "ready P S order = {}" by (simp add: queue_inv_def mset_set_empty_iff)
  then show ?case by (simp add: greedy.simps)
next
  case (2 P ch d score h pq order)
  obtain d' pq' where step: "child_loop P (ch h) d pq = (d', pq')" by fastforce
  note inv = kahn_step [OF "2.prems" step]
  have "greedy P S order = greedy P S (order @ [h])"
    using queue_head(1,2) [OF "2.prems"(4)] by (subst greedy.simps) auto
  then show ?case using "2.IH" [OF step [symmetric] "2.prems"(1) inv] step by simp
qed

lemma TopologicalOrder_greedy:
  assumes "distinct all_blocks"
  shows "TopologicalOrder all_blocks P = greedy P (set all_blocks) []"
proof -
  let ?S = "set all_blocks"
  obtain d ch where e: "edges_loop P all_blocks all_blocks (\<lambda>_. 0, \<lambda>_. []) = (d, ch)" by fastforce
  from edges_loop_effect [OF assms subset_refl e]
  have d: "d h = (if h \<in> ?S then int (length (inner_parents P ?S h)) else 0)"
    and c: "count_list (ch p) x = (if x \<in> ?S \<and> p \<in> ?S then count_list (GetParents P x) p else 0)" for h p x
    by auto
  have "degrees_inv P ?S [] d" using d by (simp add: degrees_inv_def)
  moreover have "children_inv P ?S ch" using c by (simp add: children_inv_def)
  moreover have "closed_order P ?S []" by (simp add: closed_order_def)
  moreover have "queue_inv P ?S [] (initial_queue P d all_blocks [])"
  proof -
    have "set (filter (\<lambda>h. d h = 0) all_blocks) = ready P ?S []"
      using degrees_zero_iff [OF \<open>degrees_inv P ?S [] d\<close>] by (auto simp: ready_def)
    then have "mset (filter (\<lambda>h. d h = 0) all_blocks) = mset_set (ready P ?S [])"
      using assms by (metis distinct_filter mset_set_set)
    then show ?thesis
      using initial_queue_content [of "[]" P d all_blocks] by (simp add: queue_inv_def)
  qed
  ultimately have "kahn_loop P ch d (initial_queue P d all_blocks []) [] = greedy P ?S []"
    by (intro kahn_refines_greedy)
  then show ?thesis using e by (simp add: TopologicalOrder_def)
qed

section \<open>Facts about the abstract order\<close>

lemma greedy_next:
  assumes "ready P S order \<noteq> {}"
  shows "snd (Min (topo_key P ` ready P S order)) \<in> ready P S order"
proof -
  have "Min (topo_key P ` ready P S order) \<in> topo_key P ` ready P S order" using assms by (intro Min_in) auto
  then show ?thesis by (auto simp: topo_key_def)
qed

definition parents_precede :: "provider \<Rightarrow> uint256 set \<Rightarrow> uint256 list \<Rightarrow> bool" where
  "parents_precede P S order \<longleftrightarrow>
     (\<forall>i<length order. set (GetParents P (order ! i)) \<inter> S \<subseteq> set (take i order))"

lemma greedy_valid:
  "distinct order \<Longrightarrow> set order \<subseteq> S \<Longrightarrow> parents_precede P S order \<Longrightarrow>
     distinct (greedy P S order) \<and> set (greedy P S order) \<subseteq> S \<and> parents_precede P S (greedy P S order) \<and>
     ready P S (greedy P S order) = {}"
proof (induction P S order rule: greedy.induct)
  case (1 P S order)
  show ?case
  proof (cases "ready P S order = {}")
    case True
    then show ?thesis using "1.prems" by (simp add: greedy.simps)
  next
    case False
    let ?h = "snd (Min (topo_key P ` ready P S order))"
    have h: "?h \<in> S" "?h \<notin> set order" "set (GetParents P ?h) \<inter> S \<subseteq> set order"
      using greedy_next [OF False] by (auto simp: ready_def)
    have "parents_precede P S (order @ [?h])"
      using "1.prems"(3) h(3) by (auto simp: parents_precede_def nth_append less_Suc_eq)
    then show ?thesis using "1.IH" [OF False] "1.prems" h False by (simp add: greedy.simps [of P S order])
  qed
qed

lemma greedy_complete:
  assumes "ready P S order = {}" and "set order \<subseteq> S" and "acyclic (parent_rel P \<inter> S \<times> S)"
  shows "set order = S"
proof (rule ccontr)
  assume "set order \<noteq> S"
  then obtain x where x: "x \<in> S - set order" using assms(2) by auto
  have "wf ((parent_rel P \<inter> S \<times> S)\<inverse>)" using assms(3) by (intro finite_acyclic_wf_converse) auto
  then obtain h where h: "h \<in> S - set order" "\<And>y. (y, h) \<in> (parent_rel P \<inter> S \<times> S)\<inverse> \<Longrightarrow> y \<notin> S - set order"
    using x by (rule wfE_min) blast
  then have "h \<in> ready P S order" by (auto simp: ready_def parent_rel_def)
  then show False using assms(1) by simp
qed

lemma index_acyclic:
  assumes "index_ok m"
  shows "acyclic (parent_rel (BlockIndexGhostdagProvider m) \<inter> S \<times> S)"
proof (rule acyclicI, rule allI, rule notI)
  fix x
  have "height_at m y < height_at m x"
    if "(x, y) \<in> (parent_rel (BlockIndexGhostdagProvider m) \<inter> S \<times> S)\<^sup>+" for x y
    using that
  proof (induction rule: trancl_induct)
    case (base y)
    then show ?case using assms index_parents_lower by (simp add: parent_rel_def index_ok_def)
  next
    case (step y z)
    then have "height_at m z < height_at m y" using assms index_parents_lower by (simp add: parent_rel_def index_ok_def)
    then show ?case using step.IH by simp
  qed
  moreover assume "(x, x) \<in> (parent_rel (BlockIndexGhostdagProvider m) \<inter> S \<times> S)\<^sup>+"
  ultimately show False by blast
qed

section \<open>The virtual selected chain\<close>

partial_function (option) virtual_chain_loop :: "provider \<Rightarrow> nat \<Rightarrow> uint256 list \<Rightarrow> uint256 \<Rightarrow> uint256 list option" where
  "virtual_chain_loop P depth chain cur =
     (if IsNull cur then Some chain
      else if depth > 0 \<and> length (chain @ [cur]) \<ge> depth then Some (chain @ [cur])
      else case GetGhostdagData P cur of
             None \<Rightarrow> Some (chain @ [cur])
           | Some data \<Rightarrow> if IsNull (selected_parent data) then Some (chain @ [cur])
                          else virtual_chain_loop P depth (chain @ [cur]) (selected_parent data))"

declare virtual_chain_loop.simps [code]

definition ComputeVirtualSelectedParentChain :: "uint256 list \<Rightarrow> provider \<Rightarrow> uint32 \<Rightarrow> nat \<Rightarrow> uint256 list option" where
  "ComputeVirtualSelectedParentChain tips P k depth =
     (case ComputeVirtual k tips P of
        None \<Rightarrow> Some []
      | Some vd \<Rightarrow> if IsNull (selected_parent vd) then Some []
                   else virtual_chain_loop P depth [] (selected_parent vd))"

text \<open>Consecutive elements are block and selected parent.\<close>

fun linked :: "provider \<Rightarrow> uint256 list \<Rightarrow> bool" where
  "linked P (a # b # rest) = ((\<exists>d. GetGhostdagData P a = Some d \<and> selected_parent d = b) \<and> linked P (b # rest))"
| "linked P _ = True"

lemma linked_append:
  "linked P xs \<Longrightarrow> (xs \<noteq> [] \<Longrightarrow> \<exists>d. GetGhostdagData P (last xs) = Some d \<and> selected_parent d = c) \<Longrightarrow> linked P (xs @ [c])"
  by (induction P xs rule: linked.induct) auto

definition scores_decrease :: "provider \<Rightarrow> bool" where
  "scores_decrease P \<longleftrightarrow> (\<forall>h d. GetGhostdagData P h = Some d \<longrightarrow> selected_parent d \<noteq> 0 \<longrightarrow>
     score_of P (selected_parent d) < blue_score d)"

lemma virtual_chain_loop_result:
  assumes "scores_decrease P \<or> depth > 0"
  shows "linked P (chain @ [cur]) \<Longrightarrow> cur \<noteq> 0 \<Longrightarrow> depth = 0 \<or> length chain < depth \<Longrightarrow>
    \<exists>rest. virtual_chain_loop P depth chain cur = Some (chain @ cur # rest) \<and> linked P (chain @ cur # rest) \<and>
      (depth = 0 \<or> length (chain @ cur # rest) \<le> depth)"
proof (induction "if depth > 0 then depth - length chain else unat (score_of P cur)" arbitrary: chain cur rule: less_induct)
  case less
  show ?case
  proof (cases "(depth > 0 \<and> length (chain @ [cur]) \<ge> depth) \<or> GetGhostdagData P cur = None \<or>
      (\<exists>d. GetGhostdagData P cur = Some d \<and> selected_parent d = 0)")
    case True
    then have "virtual_chain_loop P depth chain cur = Some (chain @ [cur])"
      using less.prems(2) by (subst virtual_chain_loop.simps) (auto simp: IsNull_def)
    then show ?thesis using less.prems by (intro exI [of _ "[]"]) auto
  next
    case False
    then obtain d where d: "GetGhostdagData P cur = Some d" "selected_parent d \<noteq> 0"
      and room: "depth = 0 \<or> length (chain @ [cur]) < depth" by auto
    let ?sp = "selected_parent d"
    have step: "virtual_chain_loop P depth chain cur = virtual_chain_loop P depth (chain @ [cur]) ?sp"
      using d room less.prems(2) by (subst virtual_chain_loop.simps) (auto simp: IsNull_def)
    have link: "linked P ((chain @ [cur]) @ [?sp])" 
      by (rule linked_append [OF less.prems(1)]) (use d in simp)
    have "score_of P ?sp < score_of P cur" if "depth = 0"
      using that assms d by (auto simp: scores_decrease_def score_of_def)
    then have "(if depth > 0 then depth - length (chain @ [cur]) else unat (score_of P ?sp)) <
        (if depth > 0 then depth - length chain else unat (score_of P cur))"
      using room by (auto simp: word_less_nat_alt)
    from less.hyps [OF this link d(2) room] show ?thesis using step by auto
  qed
qed

section \<open>Properties\<close>

text \<open>C26: The order computed from the blocks of a set, in whatever sequence the hash set yields
  them, is one and the same list: repeatedly the ready block of least (blue score, hash). It has no
  repetitions, contains only blocks of the set, places every block after all of its parents in the
  set, and contains every block of the set if the parent relation has no cycle there.\<close>

theorem TopologicalOrder_correct:
  assumes "distinct all_blocks"
  shows "TopologicalOrder all_blocks P = greedy P (set all_blocks) [] \<and>
    (\<forall>others. distinct others \<and> set others = set all_blocks \<longrightarrow>
       TopologicalOrder others P = TopologicalOrder all_blocks P) \<and>
    distinct (TopologicalOrder all_blocks P) \<and>
    set (TopologicalOrder all_blocks P) \<subseteq> set all_blocks \<and>
    parents_precede P (set all_blocks) (TopologicalOrder all_blocks P) \<and>
    (acyclic (parent_rel P \<inter> set all_blocks \<times> set all_blocks) \<longrightarrow>
       set (TopologicalOrder all_blocks P) = set all_blocks)"
proof -
  let ?S = "set all_blocks"
  have "parents_precede P ?S []" by (simp add: parents_precede_def)
  from greedy_valid [OF _ _ this] have g: "distinct (greedy P ?S [])" "set (greedy P ?S []) \<subseteq> ?S"
    "parents_precede P ?S (greedy P ?S [])" "ready P ?S (greedy P ?S []) = {}" by auto
  have "TopologicalOrder others P = greedy P ?S []" if "distinct others" "set others = ?S" for others
    using TopologicalOrder_greedy [OF that(1), of P] that(2) by simp
  then show ?thesis using TopologicalOrder_greedy [OF assms, of P] g greedy_complete [OF g(4,2)] by simp
qed

lemma merge_index_ok: "index_ok merge_index"
  by (auto simp: index_ok_def index_wf_def entry_ok_def heights_mono_def height_at_def merge_index_def
      work_at_def GetBlockProof_0)

theorem TopologicalOrder_correct_witness:
  "distinct [5, 3, 1, 2, 4 :: uint256] \<and>
   TopologicalOrder [5, 3, 1, 2, 4] (BlockIndexGhostdagProvider merge_index) = [1, 2, 3, 4, 5] \<and>
   parents_precede (BlockIndexGhostdagProvider merge_index) (set [5, 3, 1, 2, 4]) [1, 2, 3, 4, 5] \<and>
   TopologicalOrder [1, 2, 3, 4, 5] (BlockIndexGhostdagProvider merge_index) = [1, 2, 3, 4, 5]"
proof -
  let ?P = "BlockIndexGhostdagProvider merge_index"
  have d: "distinct [5, 3, 1, 2, 4 :: uint256]" and o: "distinct [1, 2, 3, 4, 5 :: uint256]"
    and s: "set [1, 2, 3, 4, 5] = set [5, 3, 1, 2, 4 :: uint256]" by auto
  have r: "TopologicalOrder [5, 3, 1, 2, 4] ?P = [1, 2, 3, 4, 5]" by code_simp
  note c = TopologicalOrder_correct [OF d, of ?P]
  from c have "TopologicalOrder [1, 2, 3, 4, 5] ?P = TopologicalOrder [5, 3, 1, 2, 4] ?P" using o s by blast
  moreover from c have "parents_precede ?P (set [5, 3, 1, 2, 4]) (TopologicalOrder [5, 3, 1, 2, 4] ?P)" by blast
  ultimately show ?thesis using d r by metis
qed

text \<open>The walk along selected parents from the virtual block terminates if a depth limit is given
  or if every block's selected parent has a smaller blue score. It starts at the virtual block's
  selected parent, each further element is the selected parent of the one before, and a limit is
  respected.\<close>

theorem virtual_chain_terminates:
  assumes "scores_decrease P \<or> depth > 0" and "ComputeVirtual k tips P = Some vd" and "selected_parent vd \<noteq> 0"
  shows "\<exists>chain. ComputeVirtualSelectedParentChain tips P k depth = Some chain \<and> chain \<noteq> [] \<and>
    hd chain = selected_parent vd \<and> linked P chain \<and> (depth = 0 \<or> length chain \<le> depth)"
proof -
  have "depth = 0 \<or> length ([] :: uint256 list) < depth" by auto
  from virtual_chain_loop_result [OF assms(1) _ assms(3) this] show ?thesis
    using assms(2,3) by (auto simp: ComputeVirtualSelectedParentChain_def IsNull_def)
qed

theorem virtual_chain_terminates_witness:
  "scores_decrease (BlockIndexGhostdagProvider merge_index) \<and>
   (\<exists>chain. ComputeVirtualSelectedParentChain [5, 4] (BlockIndexGhostdagProvider merge_index) 2 0 = Some chain \<and>
      chain \<noteq> [] \<and> hd chain = 5 \<and> linked (BlockIndexGhostdagProvider merge_index) chain)"
proof -
  let ?P = "BlockIndexGhostdagProvider merge_index"
  have sd: "scores_decrease ?P"
    by (auto simp: scores_decrease_def score_of_def index_GetGhostdagData_def merge_index_def dag_entry_def split: if_splits)
  have v: "ComputeVirtual 2 [5, 4] ?P =
     Some \<lparr>blue_score = 5, selected_parent = 5, mergeset_blues = [4], mergeset_reds = [], blue_work = 2\<rparr>"
    by code_simp
  from virtual_chain_terminates [OF disjI1 [OF sd] v, of 0] sd show ?thesis by auto
qed

end
