(* ===== verification/Tinyformat.thy ===== *)
theory Tinyformat
  imports Prelude
begin

text \<open>
  The run-time format strings of \<^verbatim>\<open>src/src/tinyformat.h\<close> and the bilingual messages built on
  them (\<^verbatim>\<open>src/src/util/translation.h\<close>). A C string is the list of its characters up to the
  terminating NUL; every \<open>TINYFORMAT_ERROR\<close>, which throws \<open>tinyformat::format_error\<close>, is a value
  of \<open>format_error\<close>. A \<open>FormatArg\<close> is, as in the source, a type-erased pair of functions: one
  renders the value under a given stream state, the other converts it to an integer or throws.
  The rendering itself, which belongs to the C++ stream library, is that function.

  The main fact: a format string without positional or \<open>*\<close> specifications succeeds on exactly as
  many arguments as it has specifications, whatever the arguments are.
\<close>

section \<open>Streams and arguments\<close>

datatype format_error = PositionalOutOfRange | NonPositionalAfterPositional | NoVariableWidth
  | NotEnoughSpecifiers | TooManySpecifiers | PercentN | SpecEndsString | CannotConvertToInt

datatype adjust = AdjustNone | AdjustLeft | AdjustInternal

datatype base = BaseNone | BaseDec | BaseOct | BaseHex

datatype floatfield = FloatNone | FloatScientific | FloatFixed | FloatHex

record ios =
  width :: int
  precision :: int
  fill :: char
  adjustfield :: adjust
  basefield :: base
  floatfield :: floatfield
  showbase :: bool
  showpoint :: bool
  showpos :: bool
  uppercase :: bool
  boolalpha :: bool

definition default_ios :: ios where
  "default_ios = \<lparr>width = 0, precision = 6, fill = CHR '' '', adjustfield = AdjustNone, basefield = BaseNone,
     floatfield = FloatNone, showbase = False, showpoint = False, showpos = False, uppercase = False,
     boolalpha = False\<rparr>"

record FormatArg =
  m_formatImpl :: "ios \<Rightarrow> string \<Rightarrow> int \<Rightarrow> string"
  m_toIntImpl :: "int option"

section \<open>Parsing a specification\<close>

definition is_digit :: "char \<Rightarrow> bool" where
  "is_digit c \<longleftrightarrow> c \<in> set ''0123456789''"

definition digit_value :: "char \<Rightarrow> int" where
  "digit_value c = int (of_char c) - 48"

fun parseIntAndAdvance :: "int \<Rightarrow> string \<Rightarrow> int \<times> string" where
  "parseIntAndAdvance i [] = (i, [])"
| "parseIntAndAdvance i (c # cs) =
     (if is_digit c then parseIntAndAdvance (10 * i + digit_value c) cs else (i, c # cs))"

text \<open>The result: whether something was read, the number, the rest and the argument index.\<close>

definition parseWidthOrPrecision ::
  "string \<Rightarrow> bool \<Rightarrow> FormatArg list \<Rightarrow> nat \<Rightarrow> format_error + (bool \<times> int \<times> string \<times> nat)" where
  "parseWidthOrPrecision c positionalMode args argIndex =
     (case c of
        [] \<Rightarrow> Inr (False, 0, c, argIndex)
      | d # ds \<Rightarrow>
          if is_digit d then (case parseIntAndAdvance 0 c of (n, c') \<Rightarrow> Inr (True, n, c', argIndex))
          else if d = CHR ''*'' then
            (if positionalMode then
               (case parseIntAndAdvance 0 ds of (v, c') \<Rightarrow>
                  let pos = v - 1 in
                  if take 1 c' \<noteq> ''$'' then Inl NonPositionalAfterPositional
                  else if pos \<ge> 0 \<and> pos < int (length args) then
                    (case m_toIntImpl (args ! nat pos) of
                       None \<Rightarrow> Inl CannotConvertToInt
                     | Some n \<Rightarrow> Inr (True, n, drop 1 c', argIndex))
                  else Inl PositionalOutOfRange)
             else if argIndex < length args then
               (case m_toIntImpl (args ! argIndex) of
                  None \<Rightarrow> Inl CannotConvertToInt
                | Some n \<Rightarrow> Inr (True, n, ds, argIndex + 1))
             else Inl NoVariableWidth)
          else Inr (False, 0, c, argIndex))"

text \<open>Stream state, \<open>spacePadPositive\<close> and \<open>widthExtra\<close> while the flags are read.\<close>

fun parse_flags :: "string \<Rightarrow> ios \<times> bool \<times> int \<Rightarrow> string \<times> (ios \<times> bool \<times> int)" where
  "parse_flags [] st = ([], st)"
| "parse_flags (c # cs) (out, pad, extra) =
     (if c = CHR ''#'' then parse_flags cs (out\<lparr>showpoint := True, showbase := True\<rparr>, pad, extra)
      else if c = CHR ''0'' then
        parse_flags cs (if adjustfield out \<noteq> AdjustLeft then out\<lparr>fill := CHR ''0'', adjustfield := AdjustInternal\<rparr> else out, pad, extra)
      else if c = CHR ''-'' then parse_flags cs (out\<lparr>fill := CHR '' '', adjustfield := AdjustLeft\<rparr>, pad, extra)
      else if c = CHR '' '' then parse_flags cs (out, if \<not> showpos out then True else pad, extra)
      else if c = CHR ''+'' then parse_flags cs (out\<lparr>showpos := True\<rparr>, False, 1)
      else (c # cs, (out, pad, extra)))"

definition skip_length_modifiers :: "string \<Rightarrow> string" where
  "skip_length_modifiers = dropWhile (\<lambda>c. c \<in> set ''lhLjzt'')"

text \<open>The conversion character: updated state, \<open>ntrunc\<close> and whether it is an integer conversion.\<close>

definition conversion :: "char \<Rightarrow> bool \<Rightarrow> ios \<Rightarrow> format_error + (ios \<times> int \<times> bool)" where
  "conversion c precisionSet out =
     (if c \<in> set ''udi'' then Inr (out\<lparr>basefield := BaseDec\<rparr>, -1, True)
      else if c = CHR ''o'' then Inr (out\<lparr>basefield := BaseOct\<rparr>, -1, True)
      else if c = CHR ''X'' then Inr (out\<lparr>uppercase := True, basefield := BaseHex\<rparr>, -1, True)
      else if c \<in> set ''xp'' then Inr (out\<lparr>basefield := BaseHex\<rparr>, -1, True)
      else if c = CHR ''E'' then Inr (out\<lparr>uppercase := True, floatfield := FloatScientific, basefield := BaseDec\<rparr>, -1, False)
      else if c = CHR ''e'' then Inr (out\<lparr>floatfield := FloatScientific, basefield := BaseDec\<rparr>, -1, False)
      else if c = CHR ''F'' then Inr (out\<lparr>uppercase := True, floatfield := FloatFixed\<rparr>, -1, False)
      else if c = CHR ''f'' then Inr (out\<lparr>floatfield := FloatFixed\<rparr>, -1, False)
      else if c = CHR ''A'' then Inr (out\<lparr>uppercase := True, floatfield := FloatHex\<rparr>, -1, False)
      else if c = CHR ''a'' then Inr (out\<lparr>floatfield := FloatHex\<rparr>, -1, False)
      else if c = CHR ''G'' then Inr (out\<lparr>uppercase := True, basefield := BaseDec, floatfield := FloatNone\<rparr>, -1, False)
      else if c = CHR ''g'' then Inr (out\<lparr>basefield := BaseDec, floatfield := FloatNone\<rparr>, -1, False)
      else if c = CHR ''s'' then Inr (out\<lparr>boolalpha := True\<rparr>, if precisionSet then precision out else -1, False)
      else if c = CHR ''n'' then Inl PercentN
      else Inr (out, -1, False))"

text \<open>Step 1: an argument index, or a width with an optional \<open>0\<close> flag.\<close>

definition parse_index :: "string \<Rightarrow> bool \<Rightarrow> FormatArg list \<Rightarrow> nat \<Rightarrow>
    format_error + (string \<times> ios \<times> bool \<times> bool \<times> nat)" where
  "parse_index c positionalMode args argIndex =
     (if c \<noteq> [] \<and> is_digit (hd c) then
        (case parseIntAndAdvance 0 c of (val, c') \<Rightarrow>
           if take 1 c' = ''$'' then
             (if val > 0 \<and> val \<le> int (length args) then Inr (drop 1 c', default_ios, False, True, nat (val - 1))
              else Inl PositionalOutOfRange)
           else if positionalMode then Inl NonPositionalAfterPositional
           else
             let out0 = (if hd c = CHR ''0'' then default_ios\<lparr>fill := CHR ''0'', adjustfield := AdjustInternal\<rparr> else default_ios)
             in if val \<noteq> 0 then Inr (c', out0\<lparr>width := val\<rparr>, True, positionalMode, argIndex)
                else Inr (c', out0, False, positionalMode, argIndex))
      else if positionalMode then Inl NonPositionalAfterPositional
      else Inr (c, default_ios, False, positionalMode, argIndex))"

text \<open>Step 2: flags and width, unless a width was read in step 1.\<close>

definition parse_width :: "string \<Rightarrow> ios \<Rightarrow> bool \<Rightarrow> bool \<Rightarrow> FormatArg list \<Rightarrow> nat \<Rightarrow>
    format_error + (string \<times> ios \<times> bool \<times> int \<times> bool \<times> nat)" where
  "parse_width c out widthSet positionalMode args argIndex =
     (if widthSet then Inr (c, out, False, 0, True, argIndex)
      else case parse_flags c (out, False, 0) of (c1, out1, pad, extra) \<Rightarrow>
        (case parseWidthOrPrecision c1 positionalMode args argIndex of
           Inl e \<Rightarrow> Inl e
         | Inr (rd, w, c2, argIndex') \<Rightarrow>
             if \<not> rd then Inr (c2, out1, pad, extra, False, argIndex')
             else if w < 0 then Inr (c2, out1\<lparr>fill := CHR '' '', adjustfield := AdjustLeft, width := - w\<rparr>, pad, extra, True, argIndex')
             else Inr (c2, out1\<lparr>width := w\<rparr>, pad, extra, True, argIndex')))"

text \<open>Step 3: precision.\<close>

definition parse_precision :: "string \<Rightarrow> ios \<Rightarrow> bool \<Rightarrow> FormatArg list \<Rightarrow> nat \<Rightarrow>
    format_error + (string \<times> ios \<times> bool \<times> nat)" where
  "parse_precision c out positionalMode args argIndex =
     (if take 1 c = ''.'' then
        (case parseWidthOrPrecision (drop 1 c) positionalMode args argIndex of
           Inl e \<Rightarrow> Inl e
         | Inr (rd, n, c', argIndex') \<Rightarrow>
             if n \<ge> 0 then Inr (c', out\<lparr>precision := n\<rparr>, True, argIndex') else Inr (c', out, False, argIndex'))
      else Inr (c, out, False, argIndex))"

record spec_result =
  res_out :: ios
  res_positional :: bool
  res_pad :: bool
  res_ntrunc :: int
  res_rest :: string
  res_argIndex :: nat

text \<open>Steps 4 and 5 after the three above; \<open>fmt\<close> points behind the \<open>%\<close>.\<close>

definition streamStateFromFormat :: "string \<Rightarrow> bool \<Rightarrow> FormatArg list \<Rightarrow> nat \<Rightarrow> format_error + spec_result" where
  "streamStateFromFormat fmt positionalMode args argIndex =
     (case parse_index fmt positionalMode args argIndex of
        Inl e \<Rightarrow> Inl e
      | Inr (c1, out1, widthSet1, positional, argIndex1) \<Rightarrow>
     (case parse_width c1 out1 widthSet1 positional args argIndex1 of
        Inl e \<Rightarrow> Inl e
      | Inr (c2, out2, pad, widthExtra, widthSet, argIndex2) \<Rightarrow>
     (case parse_precision c2 out2 positional args argIndex2 of
        Inl e \<Rightarrow> Inl e
      | Inr (c3, out3, precisionSet, argIndex3) \<Rightarrow>
     (case skip_length_modifiers c3 of
        [] \<Rightarrow> Inl SpecEndsString
      | c # rest \<Rightarrow>
     (case conversion c precisionSet out3 of
        Inl e \<Rightarrow> Inl e
      | Inr (out4, ntrunc, intConversion) \<Rightarrow>
          let out5 = (if intConversion \<and> precisionSet \<and> \<not> widthSet
                      then out4\<lparr>width := precision out4 + widthExtra, adjustfield := AdjustInternal, fill := CHR ''0''\<rparr>
                      else out4)
          in Inr \<lparr>res_out = out5, res_positional = positional, res_pad = pad, res_ntrunc = ntrunc,
                  res_rest = rest, res_argIndex = argIndex3\<rparr>)))))"

section \<open>Formatting\<close>

fun printFormatStringLiteral :: "string \<Rightarrow> string \<times> string" where
  "printFormatStringLiteral [] = ([], [])"
| "printFormatStringLiteral (c # cs) =
     (if c = CHR ''%'' then
        (case cs of
           d # ds \<Rightarrow> if d = CHR ''%'' then (case printFormatStringLiteral ds of (w, r) \<Rightarrow> (CHR ''%'' # w, r))
                     else ([], c # cs)
         | [] \<Rightarrow> ([], c # cs))
      else (case printFormatStringLiteral cs of (w, r) \<Rightarrow> (c # w, r)))"

definition arg_format :: "FormatArg \<Rightarrow> spec_result \<Rightarrow> string \<Rightarrow> string" where
  "arg_format arg r spec =
     (if \<not> res_pad r then m_formatImpl arg (res_out r) spec (res_ntrunc r)
      else map (\<lambda>c. if c = CHR ''+'' then CHR '' '' else c)
             (m_formatImpl arg ((res_out r)\<lparr>showpos := True\<rparr>) spec (res_ntrunc r)))"

text \<open>Every step consumes a prefix of its input.\<close>

lemma parseInt_length: "parseIntAndAdvance i c = (n, c') \<Longrightarrow> length c' \<le> length c"
proof (induction c arbitrary: i)
  case (Cons a c)
  then show ?case by (auto split: if_splits intro: le_SucI)
qed simp

lemma parseWidth_length:
  assumes "parseWidthOrPrecision c pos args k = Inr (rd, n, c', k')"
  shows "length c' \<le> length c"
proof (cases c)
  case (Cons d ds)
  then show ?thesis
    using assms parseInt_length [of 0 c] parseInt_length [of 0 ds]
    by (auto simp: parseWidthOrPrecision_def Let_def split: if_splits option.splits prod.splits)
qed (use assms in \<open>simp add: parseWidthOrPrecision_def\<close>)

lemma parse_flags_length: "parse_flags c st = (c', st') \<Longrightarrow> length c' \<le> length c"
  by (induction c st rule: parse_flags.induct) (auto split: if_splits)

lemma printLiteral_length: "printFormatStringLiteral fmt = (w, r) \<Longrightarrow> length r \<le> length fmt"
proof (induction fmt arbitrary: w r rule: printFormatStringLiteral.induct)
  case (2 c cs)
  show ?case
  proof (cases "c = CHR ''%''")
    case pc: True
    show ?thesis
    proof (cases "\<exists>ds. cs = CHR ''%'' # ds")
      case True
      then obtain ds where ds: "cs = CHR ''%'' # ds" by blast
      obtain w' r' where rec: "printFormatStringLiteral ds = (w', r')" by fastforce
      have "length r' \<le> length ds" using "2.IH"(1) [OF pc ds refl rec] .
      then show ?thesis using "2.prems" pc ds rec by simp
    next
      case False
      then show ?thesis using "2.prems" pc by (auto split: list.splits if_splits)
    qed
  next
    case False
    obtain w' r' where rec: "printFormatStringLiteral cs = (w', r')" by fastforce
    have "length r' \<le> length cs" using "2.IH"(2) [OF False rec] .
    then show ?thesis using "2.prems" False rec by simp
  qed
qed simp

lemma printLiteral_rest: "printFormatStringLiteral fmt = (w, c # cs) \<Longrightarrow> c = CHR ''%''"
  by (induction fmt arbitrary: w rule: printFormatStringLiteral.induct)
    (auto split: if_splits list.splits prod.splits)

lemma parse_index_length: "parse_index c pos args k = Inr (c', r) \<Longrightarrow> length c' \<le> length c"
proof -
  assume a: "parse_index c pos args k = Inr (c', r)"
  obtain n d where p: "parseIntAndAdvance 0 c = (n, d)" by fastforce
  then have "length d \<le> length c" by (rule parseInt_length)
  then show ?thesis using a p by (auto simp: parse_index_def Let_def split: if_splits)
qed

lemma parse_width_length:
  assumes "parse_width c out ws pos args k = Inr (c', r)"
  shows "length c' \<le> length c"
proof -
  obtain c1 st where f: "parse_flags c (out, False, 0) = (c1, st)" by (cases "parse_flags c (out, False, 0)")
  obtain out1 pad extra where st: "st = (out1, pad, extra)" by (cases st) auto
  have c1: "length c1 \<le> length c" using f by (rule parse_flags_length)
  show ?thesis
  proof (cases "parseWidthOrPrecision c1 pos args k")
    case (Inr q)
    obtain rd w c2 k' where q: "q = (rd, w, c2, k')" by (cases q) auto
    have "length c2 \<le> length c1" using Inr unfolding q by (rule parseWidth_length)
    then show ?thesis using assms f st c1 Inr q by (auto simp: parse_width_def split: if_splits)
  qed (use assms f st c1 in \<open>auto simp: parse_width_def split: if_splits\<close>)
qed

lemma parse_precision_length:
  assumes "parse_precision c out pos args k = Inr (c', r)"
  shows "length c' \<le> length c"
proof (cases "parseWidthOrPrecision (drop 1 c) pos args k")
  case (Inr q)
  obtain rd w c2 k' where q: "q = (rd, w, c2, k')" by (cases q) auto
  have "length c2 \<le> length (drop 1 c)" using Inr unfolding q by (rule parseWidth_length)
  then show ?thesis using assms Inr q by (auto simp: parse_precision_def split: if_splits)
qed (use assms in \<open>auto simp: parse_precision_def split: if_splits\<close>)

lemma streamState_length:
  assumes "streamStateFromFormat fmt pos args k = Inr r"
  shows "length (res_rest r) < length fmt"
proof -
  obtain c1 out1 ws1 pos1 k1 where 1: "parse_index fmt pos args k = Inr (c1, out1, ws1, pos1, k1)"
    using assms by (auto simp: streamStateFromFormat_def split: sum.splits)
  obtain c2 out2 pad extra ws k2 where 2: "parse_width c1 out1 ws1 pos1 args k1 = Inr (c2, out2, pad, extra, ws, k2)"
    using assms 1 by (auto simp: streamStateFromFormat_def split: sum.splits)
  obtain c3 out3 ps k3 where 3: "parse_precision c2 out2 pos1 args k2 = Inr (c3, out3, ps, k3)"
    using assms 1 2 by (auto simp: streamStateFromFormat_def split: sum.splits)
  obtain c rest where 4: "skip_length_modifiers c3 = c # rest"
    using assms 1 2 3 by (auto simp: streamStateFromFormat_def split: sum.splits list.splits)
  have "res_rest r = rest" using assms 1 2 3 4 by (auto simp: streamStateFromFormat_def Let_def split: sum.splits)
  moreover have "length (c # rest) \<le> length c3" using 4 length_dropWhile_le by (metis skip_length_modifiers_def)
  moreover have "length c3 \<le> length fmt"
    using parse_index_length [OF 1] parse_width_length [OF 2] parse_precision_length [OF 3] by simp
  ultimately show ?thesis by simp
qed

lemma format_loop_decreases:
  assumes "printFormatStringLiteral fmt = (w, c # cs)" and "streamStateFromFormat cs pos args k = Inr r"
  shows "length (res_rest r) < length fmt"
  using streamState_length [OF assms(2)] printLiteral_length [OF assms(1)] by simp

function format_loop :: "string \<Rightarrow> bool \<Rightarrow> FormatArg list \<Rightarrow> nat \<Rightarrow> format_error + string" where
  "format_loop fmt positionalMode args argIndex =
     (case printFormatStringLiteral fmt of
        (w, []) \<Rightarrow> if \<not> positionalMode \<and> argIndex < length args then Inl NotEnoughSpecifiers else Inr w
      | (w, c # cs) \<Rightarrow>
          (case streamStateFromFormat cs positionalMode args argIndex of
             Inl e \<Rightarrow> Inl e
           | Inr r \<Rightarrow>
               if res_argIndex r \<ge> length args then Inl TooManySpecifiers
               else
                 (case format_loop (res_rest r) (res_positional r) args
                         (if res_positional r then res_argIndex r else res_argIndex r + 1) of
                    Inl e \<Rightarrow> Inl e
                  | Inr s \<Rightarrow>
                      Inr (w @ arg_format (args ! res_argIndex r) r
                             (take (length (c # cs) - length (res_rest r)) (c # cs)) @ s))))"
  by pat_completeness auto
termination
  by (relation "measure (\<lambda>(fmt, pos, args, k). length fmt)") (auto dest: format_loop_decreases [OF sym])

declare format_loop.simps [simp del]

definition formatImpl :: "string \<Rightarrow> FormatArg list \<Rightarrow> format_error + string" where
  "formatImpl fmt args = format_loop fmt False args 0"

section \<open>Bilingual messages\<close>

record bilingual_str =
  original :: string
  translated :: string

text \<open>An argument of the bilingual \<open>format\<close>: a plain value, or a \<open>bilingual_str\<close>, of which each
  side takes its own text.\<close>

record bilingual_arg =
  arg_original :: FormatArg
  arg_translated :: FormatArg

definition bilingual_format :: "bilingual_str \<Rightarrow> bilingual_arg list \<Rightarrow> format_error + bilingual_str" where
  "bilingual_format fmt args =
     (case formatImpl (original fmt) (map arg_original args) of
        Inl e \<Rightarrow> Inl e
      | Inr o1 \<Rightarrow>
          (case formatImpl (translated fmt) (map arg_translated args) of
             Inl e \<Rightarrow> Inl e
           | Inr t1 \<Rightarrow> Inr \<lparr>original = o1, translated = t1\<rparr>))"

text \<open>\<open>_(str)\<close>; without a translation function the text is its own translation.\<close>

definition translate_literal :: "(string \<Rightarrow> string) option \<Rightarrow> string \<Rightarrow> bilingual_str" where
  "translate_literal G_TRANSLATION_FUN str =
     \<lparr>original = str, translated = (case G_TRANSLATION_FUN of None \<Rightarrow> str | Some f \<Rightarrow> f str)\<rparr>"

section \<open>Counting specifications\<close>

text \<open>With no arguments at hand, a positional index and a \<open>*\<close> are errors; any other specification is
  skipped.\<close>

function spec_count :: "string \<Rightarrow> nat option" where
  "spec_count fmt =
     (case printFormatStringLiteral fmt of
        (w, []) \<Rightarrow> Some 0
      | (w, c # cs) \<Rightarrow>
          (case streamStateFromFormat cs False [] 0 of
             Inl e \<Rightarrow> None
           | Inr r \<Rightarrow> map_option Suc (spec_count (res_rest r))))"
  by pat_completeness auto
termination
  by (relation "measure length") (auto dest: format_loop_decreases [OF sym])

declare spec_count.simps [simp del]

lemma parseWidth_no_args:
  assumes "parseWidthOrPrecision c False [] k = Inr (rd, n, c', k')"
  shows "k' = k \<and> parseWidthOrPrecision c False args j = Inr (rd, n, c', j)"
  using assms by (auto simp: parseWidthOrPrecision_def split: if_splits list.splits prod.splits)

lemma parse_index_no_args:
  assumes "parse_index c False [] k = Inr (c', out, ws, pos, k')"
  shows "k' = k \<and> \<not> pos \<and> parse_index c False args j = Inr (c', out, ws, False, j)"
  using assms by (auto simp: parse_index_def Let_def split: if_splits prod.splits)

lemma parse_width_no_args:
  assumes "parse_width c out ws False [] k = Inr (c', out', pad, extra, ws', k')"
  shows "k' = k \<and> parse_width c out ws False args j = Inr (c', out', pad, extra, ws', j)"
proof (cases ws)
  case False
  obtain c1 out1 pad1 extra1 where f: "parse_flags c (out, False, 0) = (c1, out1, pad1, extra1)"
    by (cases "parse_flags c (out, False, 0)") auto
  obtain rd n c2 k2 where w: "parseWidthOrPrecision c1 False [] k = Inr (rd, n, c2, k2)"
    using assms f False by (auto simp: parse_width_def split: sum.splits)
  from parseWidth_no_args [OF w, of args j] show ?thesis
    using assms f False w by (auto simp: parse_width_def split: if_splits)
qed (use assms in \<open>auto simp: parse_width_def\<close>)

lemma parse_precision_no_args:
  assumes "parse_precision c out False [] k = Inr (c', out', ps, k')"
  shows "k' = k \<and> parse_precision c out False args j = Inr (c', out', ps, j)"
proof (cases "take 1 c = ''.''")
  case True
  obtain rd n c2 k2 where w: "parseWidthOrPrecision (drop 1 c) False [] k = Inr (rd, n, c2, k2)"
    using assms True by (auto simp: parse_precision_def split: sum.splits)
  from parseWidth_no_args [OF w, of args j] show ?thesis
    using assms True w by (auto simp: parse_precision_def split: if_splits)
qed (use assms in \<open>auto simp: parse_precision_def\<close>)

lemma streamState_no_args:
  assumes "streamStateFromFormat fmt False [] 0 = Inr r"
  shows "\<not> res_positional r \<and> streamStateFromFormat fmt False args k = Inr (r\<lparr>res_argIndex := k\<rparr>)"
proof -
  obtain c1 out1 ws1 pos1 k1 where 1: "parse_index fmt False [] 0 = Inr (c1, out1, ws1, pos1, k1)"
    using assms by (auto simp: streamStateFromFormat_def split: sum.splits)
  note i = parse_index_no_args [OF 1, of args k]
  obtain c2 out2 pad extra ws k2 where 2: "parse_width c1 out1 ws1 False [] 0 = Inr (c2, out2, pad, extra, ws, k2)"
    using assms 1 i by (auto simp: streamStateFromFormat_def split: sum.splits)
  note w = parse_width_no_args [OF 2, of args k]
  obtain c3 out3 ps k3 where 3: "parse_precision c2 out2 False [] 0 = Inr (c3, out3, ps, k3)"
    using assms 1 2 i w by (auto simp: streamStateFromFormat_def split: sum.splits)
  note p = parse_precision_no_args [OF 3, of args k]
  show ?thesis
    using assms 1 2 3 i w p
    by (auto simp: streamStateFromFormat_def Let_def split: sum.splits list.splits)
qed

lemma format_loop_count:
  "spec_count fmt = Some n \<Longrightarrow> k \<le> length args \<Longrightarrow>
     (\<exists>out. format_loop fmt False args k = Inr out) \<longleftrightarrow> length args = k + n"
proof (induction fmt arbitrary: n k rule: spec_count.induct)
  case (1 fmt)
  obtain w cs' where lit: "printFormatStringLiteral fmt = (w, cs')" by fastforce
  show ?case
  proof (cases cs')
    case Nil
    then have "n = 0" using "1.prems"(1) lit by (simp add: spec_count.simps)
    then show ?thesis using lit Nil "1.prems"(2) by (subst format_loop.simps) auto
  next
    case (Cons c cs)
    then obtain r m where r: "streamStateFromFormat cs False [] 0 = Inr r" and n: "n = Suc m"
      and m: "spec_count (res_rest r) = Some m"
      using "1.prems"(1) lit by (auto simp: spec_count.simps [of fmt] split: sum.splits)
    note s = streamState_no_args [OF r, of args k]
    have step: "format_loop fmt False args k =
        (if k \<ge> length args then Inl TooManySpecifiers
         else (case format_loop (res_rest r) False args (k + 1) of
                 Inl e \<Rightarrow> Inl e
               | Inr t \<Rightarrow> Inr (w @ arg_format (args ! k) (r\<lparr>res_argIndex := k\<rparr>)
                     (take (length (c # cs) - length (res_rest r)) (c # cs)) @ t)))"
      using lit Cons s by (subst format_loop.simps) (simp split: sum.split)
    show ?thesis
    proof (cases "k < length args")
      case True
      have "(\<exists>out. format_loop (res_rest r) False args (k + 1) = Inr out) \<longleftrightarrow> length args = (k + 1) + m"
        using "1.IH" [OF lit [symmetric] _ r m] Cons True by simp
      then show ?thesis using step True n by (auto split: sum.splits)
    next
      case False
      then show ?thesis using step n "1.prems"(2) by simp
    qed
  qed
qed

section \<open>Positional specifications\<close>

text \<open>Placeholders whose conversion to an integer throws; the number is a bound for the search only.\<close>

definition blank_args :: "FormatArg list" where
  "blank_args = replicate 99 \<lparr>m_formatImpl = (\<lambda>out spec ntrunc. []), m_toIntImpl = None\<rparr>"

text \<open>The largest argument index of a format string that uses only positional specifications.\<close>

function pos_count :: "string \<Rightarrow> nat option" where
  "pos_count fmt =
     (case printFormatStringLiteral fmt of
        (w, []) \<Rightarrow> Some 0
      | (w, c # cs) \<Rightarrow>
          (case streamStateFromFormat cs True blank_args 0 of
             Inl e \<Rightarrow> None
           | Inr r \<Rightarrow> map_option (max (res_argIndex r + 1)) (pos_count (res_rest r))))"
  by pat_completeness auto
termination
  by (relation "measure length") (auto dest: format_loop_decreases [OF sym])

declare pos_count.simps [simp del]

lemma blank_toInt: "i < 99 \<Longrightarrow> m_toIntImpl (blank_args ! i) = None" and length_blank [simp]: "length blank_args = 99"
  by (simp_all add: blank_args_def)

lemma parseWidth_blank:
  assumes "parseWidthOrPrecision c True blank_args k = Inr (rd, n, c', k')"
  shows "k' = k \<and> parseWidthOrPrecision c True args j = Inr (rd, n, c', j)"
  using assms blank_toInt
  by (auto simp: parseWidthOrPrecision_def Let_def split: if_splits list.splits prod.splits option.splits)

lemma parse_index_positional:
  assumes "parse_index c True blank_args j = Inr (c', out, ws, pos, k)"
  shows "pos \<and> \<not> ws \<and>
    parse_index c p args i = (if k < length args then Inr (c', out, False, True, k) else Inl PositionalOutOfRange)"
proof -
  obtain v d where v: "parseIntAndAdvance 0 c = (v, d)" by fastforce
  have "c \<noteq> [] \<and> is_digit (hd c) \<and> take 1 d = ''$'' \<and> v > 0 \<and> k = nat (v - 1)"
    using assms v by (auto simp: parse_index_def Let_def split: if_splits)
  moreover from this have "v \<le> int (length args) \<longleftrightarrow> k < length args" by linarith
  ultimately show ?thesis using assms v by (auto simp: parse_index_def split: if_splits)
qed

lemma parse_width_blank:
  assumes "parse_width c out False True blank_args k = Inr (c', out', pad, extra, ws', k')"
  shows "k' = k \<and> parse_width c out False True args j = Inr (c', out', pad, extra, ws', j)"
proof -
  obtain c1 out1 pad1 extra1 where f: "parse_flags c (out, False, 0) = (c1, out1, pad1, extra1)"
    by (cases "parse_flags c (out, False, 0)") auto
  obtain rd n c2 k2 where w: "parseWidthOrPrecision c1 True blank_args k = Inr (rd, n, c2, k2)"
    using assms f by (auto simp: parse_width_def split: sum.splits)
  from parseWidth_blank [OF w, of args j] show ?thesis
    using assms f w by (auto simp: parse_width_def split: if_splits)
qed

lemma parse_precision_blank:
  assumes "parse_precision c out True blank_args k = Inr (c', out', ps, k')"
  shows "k' = k \<and> parse_precision c out True args j = Inr (c', out', ps, j)"
proof (cases "take 1 c = ''.''")
  case True
  obtain rd n c2 k2 where w: "parseWidthOrPrecision (drop 1 c) True blank_args k = Inr (rd, n, c2, k2)"
    using assms True by (auto simp: parse_precision_def split: sum.splits)
  from parseWidth_blank [OF w, of args j] show ?thesis
    using assms True w by (auto simp: parse_precision_def split: if_splits)
qed (use assms in \<open>auto simp: parse_precision_def\<close>)

lemma streamState_positional:
  assumes "streamStateFromFormat fmt True blank_args 0 = Inr r"
  shows "res_positional r \<and> streamStateFromFormat fmt p args i =
    (if res_argIndex r < length args then Inr r else Inl PositionalOutOfRange)"
proof -
  obtain c1 out1 ws1 pos1 k1 where 1: "parse_index fmt True blank_args 0 = Inr (c1, out1, ws1, pos1, k1)"
    using assms by (auto simp: streamStateFromFormat_def split: sum.splits)
  note i = parse_index_positional [OF 1]
  obtain c2 out2 pad extra ws k2 where 2: "parse_width c1 out1 False True blank_args k1 = Inr (c2, out2, pad, extra, ws, k2)"
    using assms 1 i by (auto simp: streamStateFromFormat_def split: sum.splits)
  note w = parse_width_blank [OF 2]
  obtain c3 out3 ps k3 where 3: "parse_precision c2 out2 True blank_args k1 = Inr (c3, out3, ps, k3)"
    using assms 1 2 i w [of blank_args k1] by (auto simp: streamStateFromFormat_def split: sum.splits)
  note p = parse_precision_blank [OF 3]
  have "res_argIndex r = k1" "res_positional r"
    using assms 1 2 3 i w [of blank_args k1] p [of blank_args k1]
    by (auto simp: streamStateFromFormat_def Let_def split: sum.splits list.splits)
  then show ?thesis
    using assms 1 2 3 i [of p args i] w [of args k1] w [of blank_args k1] p [of args k1] p [of blank_args k1]
    by (auto simp: streamStateFromFormat_def Let_def split: sum.splits list.splits)
qed

lemma format_loop_positional:
  "pos_count fmt = Some n \<Longrightarrow> p \<or> n > 0 \<Longrightarrow>
     (\<exists>out. format_loop fmt p args k = Inr out) \<longleftrightarrow> n \<le> length args"
proof (induction fmt arbitrary: n k p rule: pos_count.induct)
  case (1 fmt)
  obtain w cs' where lit: "printFormatStringLiteral fmt = (w, cs')" by fastforce
  show ?case
  proof (cases cs')
    case Nil
    then have "n = 0" using "1.prems"(1) lit by (simp add: pos_count.simps)
    then show ?thesis using lit Nil "1.prems"(2) by (subst format_loop.simps) auto
  next
    case (Cons c cs)
    then obtain r m where r: "streamStateFromFormat cs True blank_args 0 = Inr r" and n: "n = max (res_argIndex r + 1) m"
      and m: "pos_count (res_rest r) = Some m"
      using "1.prems"(1) lit by (auto simp: pos_count.simps [of fmt] split: sum.splits)
    note s = streamState_positional [OF r, of p args k]
    show ?thesis
    proof (cases "res_argIndex r < length args")
      case True
      have "format_loop fmt p args k =
          (case format_loop (res_rest r) True args (res_argIndex r) of
             Inl e \<Rightarrow> Inl e
           | Inr t \<Rightarrow> Inr (w @ arg_format (args ! res_argIndex r) r
                 (take (length (c # cs) - length (res_rest r)) (c # cs)) @ t))"
        using lit Cons s True by (subst format_loop.simps) (simp split: sum.split)
      moreover have "(\<exists>out. format_loop (res_rest r) True args (res_argIndex r) = Inr out) \<longleftrightarrow> m \<le> length args"
        using "1.IH" [OF lit [symmetric] _ r m] Cons by simp
      ultimately show ?thesis using n True by (auto split: sum.splits)
    next
      case False
      then have "format_loop fmt p args k = Inl PositionalOutOfRange"
        using lit Cons s by (subst format_loop.simps) simp
      then show ?thesis using n False by simp
    qed
  qed
qed

text \<open>For evaluation: where the next specification starts, without collecting the literal text.\<close>

fun next_spec :: "string \<Rightarrow> string" where
  "next_spec [] = []"
| "next_spec (c # cs) =
     (if c = CHR ''%'' then
        (case cs of d # ds \<Rightarrow> if d = CHR ''%'' then next_spec ds else c # cs | [] \<Rightarrow> c # cs)
      else next_spec cs)"

lemma next_spec_literal: "snd (printFormatStringLiteral fmt) = next_spec fmt"
proof (induction fmt rule: next_spec.induct)
  case (2 c cs)
  show ?case
  proof (cases "c = CHR ''%''")
    case pc: True
    show ?thesis
    proof (cases cs)
      case (Cons d ds)
      show ?thesis
      proof (cases "d = CHR ''%''")
        case True
        obtain w r where rec: "printFormatStringLiteral ds = (w, r)" by fastforce
        from "2.IH"(1) [OF pc Cons True] rec have "r = next_spec ds" by simp
        then show ?thesis unfolding pc Cons True using rec by simp
      next
        case False
        then show ?thesis unfolding pc Cons by simp
      qed
    qed (simp add: pc)
  next
    case False
    obtain w r where rec: "printFormatStringLiteral cs = (w, r)" by fastforce
    from "2.IH"(2) [OF False] rec have "r = next_spec cs" by simp
    then show ?thesis using False rec by simp
  qed
qed simp

lemma spec_count_code [code]:
  "spec_count fmt = (case next_spec fmt of
     [] \<Rightarrow> Some 0
   | c # cs \<Rightarrow> (case streamStateFromFormat cs False [] 0 of
                 Inl e \<Rightarrow> None | Inr r \<Rightarrow> map_option Suc (spec_count (res_rest r))))"
proof -
  obtain w r where lit: "printFormatStringLiteral fmt = (w, r)" by fastforce
  then have "next_spec fmt = r" using next_spec_literal [of fmt] by simp
  then show ?thesis using lit by (cases r) (simp_all add: spec_count.simps [of fmt])
qed

lemma pos_count_code [code]:
  "pos_count fmt = (case next_spec fmt of
     [] \<Rightarrow> Some 0
   | c # cs \<Rightarrow> (case streamStateFromFormat cs True blank_args 0 of
                 Inl e \<Rightarrow> None | Inr r \<Rightarrow> map_option (max (res_argIndex r + 1)) (pos_count (res_rest r))))"
proof -
  obtain w r where lit: "printFormatStringLiteral fmt = (w, r)" by fastforce
  then have "next_spec fmt = r" using next_spec_literal [of fmt] by simp
  then show ?thesis using lit by (cases r) (simp_all add: pos_count.simps [of fmt])
qed

text \<open>What a format string demands of its arguments.\<close>

datatype shape = Plain nat | Positional nat

definition format_shape :: "string \<Rightarrow> shape option" where
  "format_shape fmt =
     (case spec_count fmt of
        Some n \<Rightarrow> Some (Plain n)
      | None \<Rightarrow> (case pos_count fmt of
                   None \<Rightarrow> None
                 | Some n \<Rightarrow> if n > 0 then Some (Positional n) else None))"

fun accepts :: "shape \<Rightarrow> nat \<Rightarrow> bool" where
  "accepts (Plain n) k = (k = n)"
| "accepts (Positional n) k = (n \<le> k)"

lemma format_shape_accepts:
  assumes "format_shape fmt = Some sh"
  shows "(\<exists>out. formatImpl fmt args = Inr out) = accepts sh (length args)"
proof (cases "spec_count fmt")
  case (Some n)
  then have "sh = Plain n" using assms by (simp add: format_shape_def)
  then show ?thesis using format_loop_count [OF Some, of 0 args] by (simp add: formatImpl_def)
next
  case None
  then obtain n where "pos_count fmt = Some n" "n > 0" "sh = Positional n"
    using assms by (auto simp: format_shape_def split: option.splits if_splits)
  then show ?thesis using format_loop_positional [of fmt n False args 0] by (simp add: formatImpl_def)
qed

section \<open>Properties\<close>

text \<open>A format string without variable widths succeeds or throws \<open>format_error\<close> depending only on
  the number of arguments: with plain specifications it needs exactly as many arguments as it has
  specifications, with positional ones at least as many as its largest index.\<close>

theorem format_needs_arguments:
  assumes "format_shape fmt = Some sh"
  shows "(\<exists>out. formatImpl fmt args = Inr out) =
    (case sh of Plain n \<Rightarrow> length args = n | Positional n \<Rightarrow> n \<le> length args)"
  using format_shape_accepts [OF assms] by (cases sh) simp_all

definition text_arg :: "string \<Rightarrow> FormatArg" where
  "text_arg t = \<lparr>m_formatImpl = (\<lambda>out spec ntrunc. t), m_toIntImpl = None\<rparr>"

theorem format_needs_arguments_witness:
  "format_shape ''port %u of %s, 100%%'' = Some (Plain 2) \<and>
   formatImpl ''port %u of %s, 100%%'' [text_arg ''1'', text_arg ''x''] = Inr ''port 1 of x, 100%'' \<and>
   \<not> (\<exists>out. formatImpl ''port %u of %s, 100%%'' [text_arg ''1''] = Inr out) \<and>
   format_shape ''%2$s before %1$s'' = Some (Positional 2) \<and>
   formatImpl ''%2$s before %1$s'' [text_arg ''a'', text_arg ''b''] = Inr ''b before a''"
proof -
  have n: "format_shape ''port %u of %s, 100%%'' = Some (Plain 2)" by code_simp
  moreover have "formatImpl ''port %u of %s, 100%%'' [text_arg ''1'', text_arg ''x''] = Inr ''port 1 of x, 100%''"
    by code_simp
  moreover have "format_shape ''%2$s before %1$s'' = Some (Positional 2)" by code_simp
  moreover have "formatImpl ''%2$s before %1$s'' [text_arg ''a'', text_arg ''b''] = Inr ''b before a''" by code_simp
  ultimately show ?thesis using format_needs_arguments [OF n, of "[text_arg ''1'']"] by simp
qed

end
