(* ===== verification/Catalogue.thy ===== *)
theory Catalogue
  imports Tinyformat
begin

text \<open>
  The translation catalogues \<^verbatim>\<open>src/src/qt/locale/bitcoin_*.ts\<close> meet the code in the context
  \<^verbatim>\<open>bitcoin-core\<close>: a message marked with \<open>_()\<close> is looked up there at run time
  (\<^verbatim>\<open>G_TRANSLATION_FUN\<close>, \<^verbatim>\<open>src/src/qt/main.cpp\<close>), and the translated text is then
  formatted by tinyformat with the arguments of the English one. Nothing checks the translated
  format string at compile time; one with another number of specifications would throw where the
  English message works.

  This theory has the record of a \<^verbatim>\<open><message>\<close> element, the agreement that a translation needs,
  and the messages of the catalogues that do not have it: one message, in eight languages.
\<close>

record message =
  source :: string
  translation :: string

definition msg :: "string \<Rightarrow> string \<Rightarrow> message" where
  "msg s t = \<lparr>source = s, translation = t\<rparr>"

text \<open>The two texts of a message demand the same of their arguments; an empty translation is not used.\<close>

definition agrees :: "message \<Rightarrow> bool" where
  "agrees m = (case format_shape (source m) of
     None \<Rightarrow> False
   | Some sh \<Rightarrow> translation m = [] \<or> format_shape (translation m) = Some sh)"

lemma agrees_formats:
  assumes "agrees m" and "formatImpl (source m) args = Inr out" and "length args' = length args"
    and "translation m \<noteq> []"
  shows "\<exists>out'. formatImpl (translation m) args' = Inr out'"
proof -
  obtain sh where sh: "format_shape (source m) = Some sh" and tr: "format_shape (translation m) = Some sh"
    using assms(1,4) by (auto simp: agrees_def split: option.splits)
  have "accepts sh (length args)" using format_shape_accepts [OF sh, of args] assms(2) by blast
  then show ?thesis using format_shape_accepts [OF tr, of args'] assms(3) by simp
qed

section \<open>The message of \<^verbatim>\<open>-loglevel\<close>\<close>

definition loglevel_source :: string where
  \<open>loglevel_source = ''Unsupported category-specific logging level %1$s=%2$s. Expected %1$s=<category>:<loglevel>. Valid categories: %3$s. Valid loglevels: %4$s.''\<close>

definition loglevel_es :: message where
  \<open>loglevel_es = msg loglevel_source (''El nivel de registro espec'' @ [CHR 0xC3, CHR 0xAD] @ ''fico de la categor'' @ [CHR 0xC3, CHR 0xAD] @ ''a no es compatible: %1$s=%2$s. Se esperaba %1$s=<category>:<loglevel>. Categor'' @ [CHR 0xC3, CHR 0xAD] @ ''as v'' @ [CHR 0xC3, CHR 0xA1] @ ''lidas: %3$s. Niveles de registro v'' @ [CHR 0xC3, CHR 0xA1] @ ''lidos: %4 $s.'')\<close>

definition loglevel_es_CL :: message where
  \<open>loglevel_es_CL = msg loglevel_source (''Nivel de bolet'' @ [CHR 0xC3, CHR 0xAD] @ ''n del acceso especificado en categor'' @ [CHR 0xC3, CHR 0xAD] @ ''a no mantenida en %1$s=%2$s. Se esperaba %1$s=1:2. Categor'' @ [CHR 0xC3, CHR 0xAD] @ ''as v'' @ [CHR 0xC3, CHR 0xA1] @ ''lidas: %3$s. Niveles de bolet'' @ [CHR 0xC3, CHR 0xAD] @ ''n v'' @ [CHR 0xC3, CHR 0xA1] @ ''lidos: %4 $s.'')\<close>

definition loglevel_es_CO :: message where
  \<open>loglevel_es_CO = msg loglevel_source (''El nivel de registro de la categor'' @ [CHR 0xC3, CHR 0xAD] @ ''a espec'' @ [CHR 0xC3, CHR 0xAD] @ ''fica no es compatible: %1$s=%2$s. Se esperaba %1$s=<category>:<loglevel>. Categor'' @ [CHR 0xC3, CHR 0xAD] @ ''as v'' @ [CHR 0xC3, CHR 0xA1] @ ''lidas: %3$s. Niveles de registro v'' @ [CHR 0xC3, CHR 0xA1] @ ''lidos: %4 $s.'')\<close>

definition loglevel_es_DO :: message where
  \<open>loglevel_es_DO = msg loglevel_source (''El nivel de registro de la categor'' @ [CHR 0xC3, CHR 0xAD] @ ''a espec'' @ [CHR 0xC3, CHR 0xAD] @ ''fica no es compatible: %1$s=%2$s. Se esperaba %1$s=<category>:<loglevel>. Categor'' @ [CHR 0xC3, CHR 0xAD] @ ''as v'' @ [CHR 0xC3, CHR 0xA1] @ ''lidas: %3$s. Niveles de registro v'' @ [CHR 0xC3, CHR 0xA1] @ ''lidos: %4 $s.'')\<close>

definition loglevel_es_SV :: message where
  \<open>loglevel_es_SV = msg loglevel_source (''El nivel de registro de la categor'' @ [CHR 0xC3, CHR 0xAD] @ ''a espec'' @ [CHR 0xC3, CHR 0xAD] @ ''fica no es compatible: %1$s=%2$s. Se esperaba %1$s=<category>:<loglevel>. Categor'' @ [CHR 0xC3, CHR 0xAD] @ ''as v'' @ [CHR 0xC3, CHR 0xA1] @ ''lidas: %3$s. Niveles de registro v'' @ [CHR 0xC3, CHR 0xA1] @ ''lidos: %4 $s.'')\<close>

definition loglevel_es_VE :: message where
  \<open>loglevel_es_VE = msg loglevel_source (''El nivel de registro de la categor'' @ [CHR 0xC3, CHR 0xAD] @ ''a espec'' @ [CHR 0xC3, CHR 0xAD] @ ''fica no es compatible: %1$s=%2$s. Se esperaba %1$s=<category>:<loglevel>. Categor'' @ [CHR 0xC3, CHR 0xAD] @ ''as v'' @ [CHR 0xC3, CHR 0xA1] @ ''lidas: %3$s. Niveles de registro v'' @ [CHR 0xC3, CHR 0xA1] @ ''lidos: %4 $s.'')\<close>

definition loglevel_pl :: message where
  \<open>loglevel_pl = msg loglevel_source (''Nieobs'' @ [CHR 0xC5, CHR 0x82] @ ''ugiwany poziom rejestrowania specyficzny dla kategorii %1$s=%2$s. Oczekiwano %1$s=<category>:<loglevel>. Poprawne kategorie %3$s. Poprawne poziomy logowania: %4 $s.'')\<close>

definition loglevel_ga :: message where
  \<open>loglevel_ga = msg loglevel_source (''Leibh'' @ [CHR 0xC3, CHR 0xA9] @ ''al log'' @ [CHR 0xC3, CHR 0xA1] @ ''la catag'' @ [CHR 0xC3, CHR 0xB3] @ ''ir ar leith nach dtaca'' @ [CHR 0xC3, CHR 0xAD] @ ''tear leis%11$s=%2$s. Bh'' @ [CHR 0xC3, CHR 0xAD] @ ''othas ag s'' @ [CHR 0xC3, CHR 0xBA] @ ''il le %1$s=1:2. Catag'' @ [CHR 0xC3, CHR 0xB3] @ ''ir'' @ [CHR 0xC3, CHR 0xAD] @ '' bail'' @ [CHR 0xC3, CHR 0xAD] @ '': %3$s. Leibh'' @ [CHR 0xC3, CHR 0xA9] @ ''il loga bail'' @ [CHR 0xC3, CHR 0xAD] @ '': %4$s.'')\<close>

text \<open>The message as \<^verbatim>\<open>src/src/init/common.cpp\<close> formats it, with the option, its value and the two
  lists as arguments, and a translation function that returns the catalogue's text.\<close>

definition plain_arg :: "string \<Rightarrow> bilingual_arg" where
  "plain_arg t = \<lparr>arg_original = text_arg t, arg_translated = text_arg t\<rparr>"

definition loglevel_error :: "(string \<Rightarrow> string) option \<Rightarrow> string \<Rightarrow> string \<Rightarrow> string \<Rightarrow> format_error + bilingual_str" where
  "loglevel_error G_TRANSLATION_FUN level_str categories levels =
     bilingual_format (translate_literal G_TRANSLATION_FUN loglevel_source)
       (map plain_arg [''-loglevel'', level_str, categories, levels])"

text \<open>For an unsupported \<^verbatim>\<open>-loglevel\<close> the English text formats, but with the catalogues of eight
  languages the attempt to report it throws \<open>format_error\<close>: seven have a space inside the last
  specification, one an index out of range.\<close>

theorem loglevel_translations_throw:
  "(\<exists>out. loglevel_error None level categories levels = Inr out) \<and>
   list_all (\<lambda>m. loglevel_error (Some (\<lambda>_. translation m)) level categories levels = Inl NonPositionalAfterPositional)
     [loglevel_es, loglevel_es_CL, loglevel_es_CO, loglevel_es_DO, loglevel_es_SV, loglevel_es_VE, loglevel_pl] \<and>
   loglevel_error (Some (\<lambda>_. translation loglevel_ga)) level categories levels = Inl PositionalOutOfRange"
proof -
  have o: "\<exists>out. formatImpl loglevel_source (map text_arg [a, b, c, d]) = Inr out" for a b c d
  proof -
    have "format_shape loglevel_source = Some (Positional 4)" by code_simp
    then show ?thesis by (simp add: format_shape_accepts)
  qed
  have t: "list_all (\<lambda>m. formatImpl (translation m) (map text_arg [a, b, c, d]) = Inl NonPositionalAfterPositional)
     [loglevel_es, loglevel_es_CL, loglevel_es_CO, loglevel_es_DO, loglevel_es_SV, loglevel_es_VE, loglevel_pl]"
    and g: "formatImpl (translation loglevel_ga) (map text_arg [a, b, c, d]) = Inl PositionalOutOfRange" for a b c d
    by code_simp+
  obtain out where "formatImpl loglevel_source (map text_arg [''-loglevel'', level, categories, levels]) = Inr out"
    using o by blast
  then show ?thesis
    using t [of "''-loglevel''" level categories levels] g [of "''-loglevel''" level categories levels]
    by (simp add: loglevel_error_def bilingual_format_def translate_literal_def plain_arg_def)
qed

end
