(* ===== verification/Js_Runtime.thy ===== *)
theory Js_Runtime
  imports Prelude
begin

text \<open>
  The part of JavaScript that the deployment scripts under \<^verbatim>\<open>src/contrib/evm-htlc\<close> use: strings as
  lists of UTF-16 code units with \<open>trim\<close>, the environment \<open>process.env\<close>, the short-circuit \<open>||\<close> on
  possibly undefined strings, and asynchronous code as a state transformer whose outcome is a value,
  a thrown error or a promise that never settles.
\<close>

type_synonym js_string = "16 word list"

definition lit :: "string \<Rightarrow> js_string" where
  "lit s = map of_char s"

text \<open>The code units that \<open>String.prototype.trim\<close> removes: white space and line terminators.\<close>

definition is_js_space :: "16 word \<Rightarrow> bool" where
  "is_js_space c \<longleftrightarrow> (9 \<le> c \<and> c \<le> 13) \<or> c = 0x20 \<or> c = 0xA0 \<or> c = 0x1680 \<or> (0x2000 \<le> c \<and> c \<le> 0x200A) \<or>
     c = 0x2028 \<or> c = 0x2029 \<or> c = 0x202F \<or> c = 0x205F \<or> c = 0x3000 \<or> c = 0xFEFF"

definition js_trim :: "js_string \<Rightarrow> js_string" where
  "js_trim s = rev (dropWhile is_js_space (rev (dropWhile is_js_space s)))"

text \<open>\<open>process.env\<close>: a variable is undefined or a string. The empty string and undefined are falsy.\<close>

type_synonym process_env = "string \<Rightarrow> js_string option"

fun truthy :: "js_string option \<Rightarrow> bool" where
  "truthy None = False"
| "truthy (Some s) = (s \<noteq> [])"

definition js_or :: "js_string option \<Rightarrow> js_string option \<Rightarrow> js_string option" where
  "js_or a b = (if truthy a then a else b)"

section \<open>Asynchronous code\<close>

datatype js_error = JsError js_string | TypeError js_string

fun error_message :: "js_error \<Rightarrow> js_string" where
  "error_message (JsError e) = e"
| "error_message (TypeError e) = e"

datatype 'a outcome = Value 'a | Throws js_error | Pending

type_synonym ('a, 's) async = "'s \<Rightarrow> 'a outcome \<times> 's"

definition resolve :: "'a \<Rightarrow> ('a, 's) async" where
  "resolve a s = (Value a, s)"

definition throw :: "js_error \<Rightarrow> ('a, 's) async" where
  "throw e s = (Throws e, s)"

definition await_then :: "('a, 's) async \<Rightarrow> ('a \<Rightarrow> ('b, 's) async) \<Rightarrow> ('b, 's) async" where
  "await_then m f s = (case m s of
     (Value a, t) \<Rightarrow> f a t
   | (Throws e, t) \<Rightarrow> (Throws e, t)
   | (Pending, t) \<Rightarrow> (Pending, t))"

definition try_catch :: "('a, 's) async \<Rightarrow> (js_error \<Rightarrow> ('a, 's) async) \<Rightarrow> ('a, 's) async" where
  "try_catch m h s = (case m s of (Throws e, t) \<Rightarrow> h e t | r \<Rightarrow> r)"

section \<open>Facts\<close>

named_theorems async_simps \<open>symbolic execution of asynchronous code\<close>

lemmas [async_simps] = resolve_def throw_def

lemma await_then_cases [async_simps]:
  "m s = (Value a, t) \<Longrightarrow> await_then m f s = f a t"
  "m s = (Throws e, t) \<Longrightarrow> await_then m f s = (Throws e, t)"
  "m s = (Pending, t) \<Longrightarrow> await_then m f s = (Pending, t)"
  by (simp_all add: await_then_def)

lemma await_then_Value:
  "await_then m f s = (Value b, u) \<longleftrightarrow> (\<exists>a t. m s = (Value a, t) \<and> f a t = (Value b, u))"
  by (auto simp: await_then_def split: prod.splits outcome.splits)

text \<open>A property of the state that every step keeps survives a sequence of steps.\<close>

lemma await_then_state:
  assumes "P (snd (m s))" and "\<And>a t. m s = (Value a, t) \<Longrightarrow> P t \<Longrightarrow> P (snd (f a t))"
  shows "P (snd (await_then m f s))"
  using assms by (cases "m s"; cases "fst (m s)") (auto simp: await_then_def)

lemma await_then_assoc: "await_then (await_then m f) g = await_then m (\<lambda>a. await_then (f a) g)"
  by (rule ext) (auto simp: await_then_def split: prod.splits outcome.splits)

lemma await_then_resolve: "await_then (resolve a) f = f a"
  by (rule ext) (simp add: await_then_def resolve_def)

lemma js_or_truthy: "truthy (js_or a b) \<longleftrightarrow> truthy a \<or> truthy b"
  by (simp add: js_or_def)

lemma dropWhile_idem: "dropWhile P (dropWhile P xs) = dropWhile P xs"
  by (induction xs) auto

text \<open>Trimming removes exactly the surrounding white space: the text is what is left of any number
  of white-space units on both sides of a text that neither starts nor ends with one.\<close>

lemma dropWhile_all_append: "(\<forall>x\<in>set xs. P x) \<Longrightarrow> dropWhile P (xs @ ys) = dropWhile P ys"
  by (induction xs) auto

lemma js_trim_eq:
  assumes "t \<noteq> []" and "\<not> is_js_space (hd t)" and "\<not> is_js_space (last t)"
  shows "js_trim s = t \<longleftrightarrow> (\<exists>a b. s = a @ t @ b \<and> (\<forall>x\<in>set a \<union> set b. is_js_space x))"
proof
  assume t: "js_trim s = t"
  let ?u = "dropWhile is_js_space s"
  have "s = takeWhile is_js_space s @ ?u" by simp
  moreover have "?u = t @ rev (takeWhile is_js_space (rev ?u))"
    using t takeWhile_dropWhile_id [of is_js_space "rev ?u"] by (metis js_trim_def rev_append rev_rev_ident)
  ultimately show "\<exists>a b. s = a @ t @ b \<and> (\<forall>x\<in>set a \<union> set b. is_js_space x)"
    by (metis (no_types, lifting) Un_iff set_rev set_takeWhileD)
next
  assume "\<exists>a b. s = a @ t @ b \<and> (\<forall>x\<in>set a \<union> set b. is_js_space x)"
  then obtain a b where s: "s = a @ t @ b" and sp: "\<forall>x\<in>set a. is_js_space x" "\<forall>x\<in>set (rev b). is_js_space x" by auto
  have "dropWhile is_js_space s = t @ b"
    using assms(1,2) by (cases t) (simp_all add: s dropWhile_all_append [OF sp(1)])
  moreover have "dropWhile is_js_space (rev (t @ b)) = rev t"
    using assms(1,3) by (cases t rule: rev_cases) (simp_all add: dropWhile_all_append [OF sp(2)])
  ultimately show "js_trim s = t" by (simp add: js_trim_def)
qed

end
