(* ===== verification/Hardhat_Config.thy ===== *)
theory Hardhat_Config
  imports Js_Runtime
begin

text \<open>
  The Hardhat configuration \<^verbatim>\<open>src/contrib/evm-htlc/hardhat.config.js\<close>: the object it exports as a
  function of the environment. \<open>dotenv\<close> is the package's \<open>config()\<close>, which adds the variables of the
  \<^verbatim>\<open>.env\<close> file to the environment: a parameter. Optional members of a network are \<open>None\<close> where the
  object does not have them.
\<close>

record network_config =
  url :: "js_string option"
  chainId :: nat
  accounts :: "js_string list option"
  gasPrice :: "js_string option"

record solidity_config =
  version :: js_string
  optimizer_enabled :: bool
  optimizer_runs :: nat
  viaIR :: bool

record HardhatUserConfig =
  solidity :: solidity_config
  networks :: "(js_string \<times> network_config) list"
  etherscan_apiKey :: js_string
  gasReporter_enabled :: bool
  gasReporter_currency :: js_string

definition env_or :: "process_env \<Rightarrow> string \<Rightarrow> js_string \<Rightarrow> js_string" where
  "env_or env v dflt = (if truthy (env v) then the (env v) else dflt)"

definition DEPLOYER_KEY :: "process_env \<Rightarrow> js_string" where
  "DEPLOYER_KEY env = env_or env ''DEPLOYER_PRIVATE_KEY'' (lit ''0x'' @ concat (replicate 64 (lit ''0'')))"

definition ETHERSCAN_KEY :: "process_env \<Rightarrow> js_string" where
  "ETHERSCAN_KEY env = env_or env ''ETHERSCAN_API_KEY'' (lit '''')"

definition INFURA_KEY :: "process_env \<Rightarrow> js_string" where
  "INFURA_KEY env = env_or env ''INFURA_PROJECT_ID'' (lit '''')"

definition solidity_settings :: solidity_config where
  "solidity_settings = \<lparr>version = lit ''0.8.24'', optimizer_enabled = True, optimizer_runs = 200, viaIR = True\<rparr>"

definition hardhat_network :: network_config where
  "hardhat_network = \<lparr>url = None, chainId = 31337, accounts = None, gasPrice = None\<rparr>"

definition localhost_network :: network_config where
  "localhost_network = \<lparr>url = Some (lit ''http://127.0.0.1:8545''), chainId = 31337, accounts = None, gasPrice = None\<rparr>"

definition sepolia_network :: "process_env \<Rightarrow> network_config" where
  "sepolia_network env = \<lparr>url = Some (lit ''https://sepolia.infura.io/v3/'' @ INFURA_KEY env), chainId = 11155111,
     accounts = Some [DEPLOYER_KEY env], gasPrice = Some (lit ''auto'')\<rparr>"

definition mainnet_network :: "process_env \<Rightarrow> network_config" where
  "mainnet_network env = \<lparr>url = Some (lit ''https://mainnet.infura.io/v3/'' @ INFURA_KEY env), chainId = 1,
     accounts = Some [DEPLOYER_KEY env], gasPrice = Some (lit ''auto'')\<rparr>"

definition module_exports :: "process_env \<Rightarrow> HardhatUserConfig" where
  "module_exports env = \<lparr>
     solidity = solidity_settings,
     networks = [(lit ''hardhat'', hardhat_network), (lit ''localhost'', localhost_network),
                 (lit ''sepolia'', sepolia_network env), (lit ''mainnet'', mainnet_network env)],
     etherscan_apiKey = ETHERSCAN_KEY env,
     gasReporter_enabled = (env ''REPORT_GAS'' \<noteq> None),
     gasReporter_currency = lit ''USD''\<rparr>"

definition hardhat_config :: "(process_env \<Rightarrow> process_env) \<Rightarrow> process_env \<Rightarrow> HardhatUserConfig" where
  "hardhat_config dotenv env = module_exports (dotenv env)"

section \<open>Facts\<close>

named_theorems config_defs \<open>the definitions of the configuration\<close>

lemmas [config_defs] = env_or_def DEPLOYER_KEY_def ETHERSCAN_KEY_def INFURA_KEY_def hardhat_network_def
  localhost_network_def sepolia_network_def mainnet_network_def module_exports_def hardhat_config_def

lemma env_or_empty: "env_or (env(v := Some [])) w d = env_or (env(v := None)) w d"
  by (simp add: env_or_def)

lemma network_names_distinct: "distinct (map fst (networks (module_exports env)))"
  by (simp add: module_exports_def lit_def)

lemma network_lookup:
  "map_of (networks (module_exports env)) n = Some c \<Longrightarrow>
     c = hardhat_network \<or> c = localhost_network \<or> c = sepolia_network env \<or> (n = lit ''mainnet'' \<and> c = mainnet_network env)"
  by (auto simp: module_exports_def split: if_splits)

text \<open>The configuration does not distinguish an unset variable from an empty one, except for
  \<open>REPORT_GAS\<close>: setting that one to the empty string turns the gas reporter on, although
  \<^verbatim>\<open>.env.example\<close> asks for a non-empty value.\<close>

theorem empty_variable_is_unset_but_REPORT_GAS:
  "(module_exports (env(v := Some [])) = module_exports (env(v := None))) = (v \<noteq> ''REPORT_GAS'') \<and>
   gasReporter_enabled (module_exports (env(''REPORT_GAS'' := Some []))) \<and>
   \<not> gasReporter_enabled (module_exports (env(''REPORT_GAS'' := None)))"
  by (auto simp: config_defs)

end
