(* ===== verification/Deploy.thy ===== *)
theory Deploy
  imports Hardhat_Config "HOL-Library.Sublist"
begin

text \<open>
  The deployment script \<^verbatim>\<open>src/contrib/evm-htlc/scripts/deploy.js\<close>. Hardhat, ethers and the terminal are
  parameters: the record \<open>hre\<close> gives the outcome of every call the script makes to them, which may
  depend on all the calls made before (so that any behaviour of the chain and of the operator is an
  instance). The script's own state is the list of those calls and of what it printed; one
  definition models each numbered section of \<open>main\<close>, and \<open>run_script\<close> the call at the end of the
  file with its \<open>catch\<close>.
\<close>

datatype call =
    GetSigners
  | GetBalance js_string
  | Question js_string
  | GetContractFactory js_string
  | FactoryDeploy js_string
  | WaitForDeployment
  | GetAddress
  | ReadTOKEN
  | ReadMIN_LOCKTIME
  | WaitConfirmations nat
  | RunVerify js_string "js_string list"

text \<open>Lines printed to the console, each with the values its template interpolates.\<close>

datatype line =
    LogTitle
  | LogNetwork js_string "nat option"
  | LogToken js_string
  | LogDeployer js_string
  | LogBalance nat
  | LogDeploying
  | LogDeployedAt js_string
  | LogTokenImmutable js_string
  | LogMinLocktime nat nat
  | LogWaiting
  | LogVerified
  | WarnVerification js_string
  | LogSummary js_string js_string js_string js_string nat
  | ErrorLine js_error

record io =
  calls :: "call list"
  console :: "line list"

definition start :: io where
  "start = \<lparr>calls = [], console = []\<rparr>"

record 'h hre =
  network_name :: js_string
  network_chainId :: "nat option"
  getSigners :: "call list \<Rightarrow> js_string list outcome"
  getBalance :: "call list \<Rightarrow> js_string \<Rightarrow> nat outcome"
  rl_question :: "call list \<Rightarrow> js_string outcome"
  getContractFactory :: "call list \<Rightarrow> unit outcome"
  factory_deploy :: "call list \<Rightarrow> js_string \<Rightarrow> 'h outcome"
  waitForDeployment :: "call list \<Rightarrow> 'h \<Rightarrow> unit outcome"
  getAddress :: "call list \<Rightarrow> 'h \<Rightarrow> js_string outcome"
  read_TOKEN :: "call list \<Rightarrow> 'h \<Rightarrow> js_string outcome"
  read_MIN_LOCKTIME :: "call list \<Rightarrow> 'h \<Rightarrow> nat outcome"
  wait_confirmations :: "call list \<Rightarrow> 'h \<Rightarrow> nat \<Rightarrow> nat outcome"
  run_verify :: "call list \<Rightarrow> js_string \<Rightarrow> js_string list \<Rightarrow> unit outcome"

definition external :: "call \<Rightarrow> (call list \<Rightarrow> 'a outcome) \<Rightarrow> ('a, io) async" where
  "external c response s = (response (calls s), s\<lparr>calls := calls s @ [c]\<rparr>)"

definition console_log :: "line \<Rightarrow> (unit, io) async" where
  "console_log l s = (Value (), s\<lparr>console := console s @ [l]\<rparr>)"

section \<open>The script\<close>

definition KNOWN_USDC :: "nat \<Rightarrow> js_string option" where
  "KNOWN_USDC = [11155111 \<mapsto> lit ''0x1c7D4B196Cb0C7B01d743Fbc6116a902379C7238'',
                 1 \<mapsto> lit ''0xA0b86991c6218b36c1d19D4a2e9Eb0cE3606eB48'']"

definition no_token :: js_error where
  "no_token = JsError (lit ''USDC_TOKEN_ADDRESS not set and chainId not recognised'')"

definition resolve_token :: "process_env \<Rightarrow> nat option \<Rightarrow> (js_string, io) async" where
  "resolve_token env chain =
     (let t = js_or (env ''USDC_TOKEN_ADDRESS'') (Option.bind chain KNOWN_USDC) in
      if truthy t then resolve (the t) else throw no_token)"

definition deployer_info :: "'h hre \<Rightarrow> (js_string, io) async" where
  "deployer_info H =
     await_then (external GetSigners (getSigners H)) (\<lambda>signers.
     case signers of
       [] \<Rightarrow> throw (TypeError (lit ''Cannot read properties of undefined (reading 'address')''))
     | deployer # _ \<Rightarrow>
         await_then (console_log (LogDeployer deployer)) (\<lambda>_.
         await_then (external (GetBalance deployer) (\<lambda>h. getBalance H h deployer)) (\<lambda>balance.
         await_then (console_log (LogBalance balance)) (\<lambda>_. resolve deployer))))"

definition mainnet_prompt :: js_string where
  "mainnet_prompt = [0x26A0, 0xFE0F, 0x20, 0x20] @
     lit ''You are deploying to ETHEREUM MAINNET.  Type YES to continue: ''"

definition aborted :: js_error where
  "aborted = JsError (lit ''Mainnet deployment aborted by user.'')"

definition confirm_mainnet :: "'h hre \<Rightarrow> (unit, io) async" where
  "confirm_mainnet H =
     (if network_chainId H = Some 1 then
        await_then (external (Question mainnet_prompt) (rl_question H)) (\<lambda>answer.
        if js_trim answer \<noteq> lit ''YES'' then throw aborted else resolve ())
      else resolve ())"

definition deploy_contract :: "'h hre \<Rightarrow> js_string \<Rightarrow> ('h \<times> js_string, io) async" where
  "deploy_contract H tokenAddress =
     await_then (console_log LogDeploying) (\<lambda>_.
     await_then (external (GetContractFactory (lit ''QBTCUSDCHTLC'')) (getContractFactory H)) (\<lambda>_.
     await_then (external (FactoryDeploy tokenAddress) (\<lambda>h. factory_deploy H h tokenAddress)) (\<lambda>htlc.
     await_then (external WaitForDeployment (\<lambda>h. waitForDeployment H h htlc)) (\<lambda>_.
     await_then (external GetAddress (\<lambda>h. getAddress H h htlc)) (\<lambda>address.
     await_then (console_log (LogDeployedAt address)) (\<lambda>_.
     await_then (external ReadTOKEN (\<lambda>h. read_TOKEN H h htlc)) (\<lambda>token.
     await_then (console_log (LogTokenImmutable token)) (\<lambda>_.
     await_then (external ReadMIN_LOCKTIME (\<lambda>h. read_MIN_LOCKTIME H h htlc)) (\<lambda>seconds.
     await_then (external ReadMIN_LOCKTIME (\<lambda>h. read_MIN_LOCKTIME H h htlc)) (\<lambda>seconds'.
     await_then (console_log (LogMinLocktime seconds seconds')) (\<lambda>_.
     resolve (htlc, address))))))))))))"

definition verify_source :: "process_env \<Rightarrow> 'h hre \<Rightarrow> js_string \<Rightarrow> 'h \<Rightarrow> js_string \<Rightarrow> (unit, io) async" where
  "verify_source env H tokenAddress htlc address =
     (if truthy (env ''ETHERSCAN_API_KEY'') \<and> network_chainId H \<noteq> Some 31337 then
        await_then (console_log LogWaiting) (\<lambda>_.
        await_then (external (WaitConfirmations 6) (\<lambda>h. wait_confirmations H h htlc 6)) (\<lambda>_.
        try_catch
          (await_then (external (RunVerify address [tokenAddress]) (\<lambda>h. run_verify H h address [tokenAddress])) (\<lambda>_.
           console_log LogVerified))
          (\<lambda>e. console_log (WarnVerification (error_message e)))))
      else resolve ())"

definition summary :: "'h hre \<Rightarrow> js_string \<Rightarrow> js_string \<Rightarrow> 'h \<Rightarrow> js_string \<Rightarrow> (unit, io) async" where
  "summary H tokenAddress deployer htlc address =
     await_then (external (WaitConfirmations 1) (\<lambda>h. wait_confirmations H h htlc 1)) (\<lambda>blockNumber.
     console_log (LogSummary (network_name H) address tokenAddress deployer blockNumber))"

definition main :: "process_env \<Rightarrow> 'h hre \<Rightarrow> (unit, io) async" where
  "main env H =
     await_then (console_log LogTitle) (\<lambda>_.
     await_then (console_log (LogNetwork (network_name H) (network_chainId H))) (\<lambda>_.
     await_then (resolve_token env (network_chainId H)) (\<lambda>tokenAddress.
     await_then (console_log (LogToken tokenAddress)) (\<lambda>_.
     await_then (deployer_info H) (\<lambda>deployer.
     await_then (confirm_mainnet H) (\<lambda>_.
     await_then (deploy_contract H tokenAddress) (\<lambda>(htlc, address).
     await_then (verify_source env H tokenAddress htlc address) (\<lambda>_.
     summary H tokenAddress deployer htlc address))))))))"

text \<open>What is left when the script ends: \<open>process.exitCode\<close> is undefined unless the handler of a
  rejected \<open>main\<close> set it; Node.js reports an undefined exit code as success.\<close>

record process =
  exitCode :: "nat option"
  process_io :: io

definition run_script :: "process_env \<Rightarrow> 'h hre \<Rightarrow> process" where
  "run_script env H = (case main env H start of
     (Throws e, s) \<Rightarrow> \<lparr>exitCode = Some 1, process_io = snd (console_log (ErrorLine e) s)\<rparr>
   | (_, s) \<Rightarrow> \<lparr>exitCode = None, process_io = s\<rparr>)"

section \<open>The calls of a run\<close>

text \<open>The calls a complete run makes, for token \<open>t\<close>, deployer \<open>d\<close> and contract address \<open>a\<close>.\<close>

definition wants_verification :: "process_env \<Rightarrow> 'h hre \<Rightarrow> bool" where
  "wants_verification env H \<longleftrightarrow> truthy (env ''ETHERSCAN_API_KEY'') \<and> network_chainId H \<noteq> Some 31337"

definition prompt_calls :: "'h hre \<Rightarrow> call list" where
  "prompt_calls H = (if network_chainId H = Some 1 then [Question mainnet_prompt] else [])"

definition deploy_calls :: "js_string \<Rightarrow> call list" where
  "deploy_calls t = [GetContractFactory (lit ''QBTCUSDCHTLC''), FactoryDeploy t, WaitForDeployment, GetAddress,
     ReadTOKEN, ReadMIN_LOCKTIME, ReadMIN_LOCKTIME]"

definition verify_calls :: "process_env \<Rightarrow> 'h hre \<Rightarrow> js_string \<Rightarrow> js_string \<Rightarrow> call list" where
  "verify_calls env H t a = (if wants_verification env H then [WaitConfirmations 6, RunVerify a [t]] else [])"

definition full_trace :: "process_env \<Rightarrow> 'h hre \<Rightarrow> js_string \<Rightarrow> js_string \<Rightarrow> js_string \<Rightarrow> call list" where
  "full_trace env H t d a =
     [GetSigners, GetBalance d] @ prompt_calls H @ deploy_calls t @ verify_calls env H t a @ [WaitConfirmations 1]"

text \<open>The token a run uses: the override if it is set and not empty, else the known address of the
  chain.\<close>

definition selected_token :: "process_env \<Rightarrow> nat option \<Rightarrow> js_string option" where
  "selected_token env chain = (case env ''USDC_TOKEN_ADDRESS'' of
     Some (x # xs) \<Rightarrow> Some (x # xs)
   | _ \<Rightarrow> (case chain of Some c \<Rightarrow> KNOWN_USDC c | None \<Rightarrow> None))"

text \<open>A piece of the script that makes the calls \<open>cs\<close> if it completes, and an initial part of them
  if it throws or waits forever.\<close>

fun runs_within :: "call list \<Rightarrow> io \<Rightarrow> 'a outcome \<times> io \<Rightarrow> bool" where
  "runs_within cs s (Value v, s') = (calls s' = calls s @ cs)"
| "runs_within cs s (Throws e, s') = (\<exists>xs. prefix xs cs \<and> calls s' = calls s @ xs)"
| "runs_within cs s (Pending, s') = (\<exists>xs. prefix xs cs \<and> calls s' = calls s @ xs)"

lemma runs_within_prefix: "runs_within cs s (r, s') \<Longrightarrow> \<exists>xs. prefix xs cs \<and> calls s' = calls s @ xs"
  by (cases r) auto

lemma runs_within_console_log: "runs_within [] s (console_log l s)"
  by (simp add: console_log_def)

lemma runs_within_external: "runs_within [c] s (external c resp s)"
  by (cases "resp (calls s)") (auto simp: external_def)

lemma runs_within_resolve: "runs_within [] s (resolve v s)"
  by (simp add: resolve_def)

lemma runs_within_throw: "runs_within cs s (throw e s)"
  by (auto simp: throw_def)

lemma runs_within_then:
  assumes "runs_within cs s (m s)" and "\<And>v t. m s = (Value v, t) \<Longrightarrow> runs_within ds t (f v t)"
  shows "runs_within (cs @ ds) s (await_then m f s)"
proof (cases "m s")
  case (Pair r t)
  show ?thesis
  proof (cases r)
    case (Value v)
    then have t: "calls t = calls s @ cs" and f: "runs_within ds t (f v t)" using assms Pair by auto
    obtain r' u where u: "f v t = (r', u)" by fastforce
    have "\<exists>ys. prefix ys (cs @ ds) \<and> calls u = calls s @ ys" if "prefix xs ds" "calls u = calls t @ xs" for xs
      using that t by (intro exI [of _ "cs @ xs"]) simp
    then show ?thesis using f t u Value Pair by (cases r') (auto simp: await_then_cases)
  qed (use assms(1) Pair in \<open>auto simp: await_then_cases prefix_order.order_trans [OF _ prefixI]\<close>)
qed

text \<open>The calls of each section of the script.\<close>

lemma runs_within_mono: "runs_within cs s r \<Longrightarrow> (\<And>v. fst r = Value v \<Longrightarrow> cs = ds) \<Longrightarrow> prefix cs ds \<Longrightarrow> runs_within ds s r"
  by (cases r; cases "fst r") (auto intro: prefix_order.order_trans)

lemmas runs_within_steps = runs_within_then runs_within_external runs_within_console_log runs_within_resolve

lemma deployer_info_calls: "\<exists>d. runs_within [GetSigners, GetBalance d] s (deployer_info H s)"
proof (cases "getSigners H (calls s)")
  case (Value ds)
  show ?thesis
  proof (cases ds)
    case (Cons d ds')
    let ?t = "s\<lparr>calls := calls s @ [GetSigners]\<rparr>"
    have "runs_within ([] @ [GetBalance d] @ [] @ []) ?t
      (await_then (console_log (LogDeployer d)) (\<lambda>_.
       await_then (external (GetBalance d) (\<lambda>h. getBalance H h d)) (\<lambda>balance.
       await_then (console_log (LogBalance balance)) (\<lambda>_. resolve d))) ?t)"
      by (intro runs_within_steps)
    then have "runs_within ([GetSigners] @ [GetBalance d]) s (deployer_info H s)"
      unfolding deployer_info_def by (intro runs_within_then runs_within_external) (auto simp: external_def Value Cons)
    then show ?thesis by auto
  qed (auto simp: deployer_info_def await_then_def external_def throw_def Value)
qed (auto simp: deployer_info_def await_then_def external_def)

lemma deployer_info_Value:
  "deployer_info H s = (Value d, t) \<Longrightarrow> calls t = calls s @ [GetSigners, GetBalance d]"
  by (auto simp: deployer_info_def await_then_def external_def console_log_def throw_def resolve_def
      split: outcome.splits list.splits)

lemma confirm_mainnet_calls: "runs_within (prompt_calls H) s (confirm_mainnet H s)"
  by (auto simp: confirm_mainnet_def prompt_calls_def resolve_def throw_def external_def await_then_def split: outcome.splits)

lemma confirm_mainnet_Value:
  "confirm_mainnet H s = (Value u, t) \<Longrightarrow> network_chainId H = Some 1 \<Longrightarrow>
     \<exists>answer. rl_question H (calls s) = Value answer \<and> js_trim answer = lit ''YES''"
  by (auto simp: confirm_mainnet_def resolve_def throw_def external_def await_then_def split: outcome.splits if_splits)

lemma deploy_contract_calls: "runs_within (deploy_calls t) s (deploy_contract H t s)"
proof -
  have "runs_within ([] @ [GetContractFactory (lit ''QBTCUSDCHTLC'')] @ [FactoryDeploy t] @ [WaitForDeployment] @ [GetAddress] @
      [] @ [ReadTOKEN] @ [] @ [ReadMIN_LOCKTIME] @ [ReadMIN_LOCKTIME] @ [] @ []) s (deploy_contract H t s)"
    unfolding deploy_contract_def by (intro runs_within_steps)
  then show ?thesis by (simp add: deploy_calls_def)
qed

lemma try_catch_log_calls:
  assumes "runs_within cs s (m s)" and "\<And>e t. m s = (Throws e, t) \<Longrightarrow> calls t = calls s @ cs"
  shows "runs_within cs s (try_catch m (\<lambda>e. console_log (l e)) s)"
proof (cases "m s")
  case (Pair r t)
  show ?thesis
  proof (cases r)
    case (Throws e)
    then have "calls t = calls s @ cs" using assms(2) Pair by simp
    then show ?thesis using Pair Throws by (simp add: try_catch_def console_log_def)
  qed (use assms(1) Pair in \<open>simp_all add: try_catch_def\<close>)
qed

lemma verify_source_calls: "runs_within (verify_calls env H t a) s (verify_source env H t htlc a s)"
proof (cases "wants_verification env H")
  case True
  let ?v = "await_then (external (RunVerify a [t]) (\<lambda>h. run_verify H h a [t])) (\<lambda>_. console_log LogVerified)"
  have "runs_within [RunVerify a [t]] u (try_catch ?v (\<lambda>e. console_log (WarnVerification (error_message e))) u)" for u
    by (rule try_catch_log_calls) (auto simp: await_then_def external_def console_log_def split: outcome.splits)
  then have "runs_within ([] @ [WaitConfirmations 6] @ [RunVerify a [t]]) s
     (await_then (console_log LogWaiting) (\<lambda>_.
      await_then (external (WaitConfirmations 6) (\<lambda>h. wait_confirmations H h htlc 6)) (\<lambda>_.
      try_catch ?v (\<lambda>e. console_log (WarnVerification (error_message e))))) s)"
    by (intro runs_within_then runs_within_external runs_within_console_log)
  moreover have "truthy (env ''ETHERSCAN_API_KEY'') \<and> network_chainId H \<noteq> Some 31337"
    using True unfolding wants_verification_def .
  ultimately have "runs_within [WaitConfirmations 6, RunVerify a [t]] s (verify_source env H t htlc a s)"
    unfolding verify_source_def by (simp only: if_True simp_thms append.simps)
  then show ?thesis using True by (simp add: verify_calls_def)
next
  case False
  then have "\<not> (truthy (env ''ETHERSCAN_API_KEY'') \<and> network_chainId H \<noteq> Some 31337)"
    unfolding wants_verification_def .
  then show ?thesis using False unfolding verify_source_def verify_calls_def
    by (simp only: if_False runs_within_resolve)
qed

lemma summary_calls: "runs_within [WaitConfirmations 1] s (summary H t d htlc a s)"
proof -
  have "runs_within ([WaitConfirmations 1] @ []) s (summary H t d htlc a s)"
    unfolding summary_def by (intro runs_within_steps)
  then show ?thesis by simp
qed

text \<open>The sections before the deployment, which make no transaction.\<close>

definition preparation :: "process_env \<Rightarrow> 'h hre \<Rightarrow> (js_string \<times> js_string, io) async" where
  "preparation env H =
     await_then (console_log LogTitle) (\<lambda>_.
     await_then (console_log (LogNetwork (network_name H) (network_chainId H))) (\<lambda>_.
     await_then (resolve_token env (network_chainId H)) (\<lambda>tokenAddress.
     await_then (console_log (LogToken tokenAddress)) (\<lambda>_.
     await_then (deployer_info H) (\<lambda>deployer.
     await_then (confirm_mainnet H) (\<lambda>_. resolve (tokenAddress, deployer)))))))"

definition deployment :: "process_env \<Rightarrow> 'h hre \<Rightarrow> js_string \<times> js_string \<Rightarrow> (unit, io) async" where
  "deployment env H = (\<lambda>(tokenAddress, deployer).
     await_then (deploy_contract H tokenAddress) (\<lambda>(htlc, address).
     await_then (verify_source env H tokenAddress htlc address) (\<lambda>_.
     summary H tokenAddress deployer htlc address)))"

lemma main_split: "main env H = await_then (preparation env H) (deployment env H)"
  by (simp add: main_def preparation_def deployment_def await_then_assoc await_then_resolve)

lemma runs_within_then_ex:
  assumes "runs_within cs s (m s)" and "\<And>v t. m s = (Value v, t) \<Longrightarrow> \<exists>x. runs_within (ds x) t (f v t)"
  shows "\<exists>x. runs_within (cs @ ds x) s (await_then m f s)"
proof (cases "\<exists>v t. m s = (Value v, t)")
  case True
  then obtain v t where m: "m s = (Value v, t)" by blast
  from assms(2) [OF m] obtain x where "runs_within (ds x) t (f v t)" ..
  then have "runs_within (cs @ ds x) s (await_then m f s)"
    using m by (intro runs_within_then assms(1)) auto
  then show ?thesis ..
next
  case False
  have "runs_within (cs @ ds undefined) s (await_then m f s)"
    using False by (intro runs_within_then assms(1)) auto
  then show ?thesis ..
qed

lemma KNOWN_USDC_truthy: "truthy (KNOWN_USDC c) \<longleftrightarrow> KNOWN_USDC c \<noteq> None"
  by (simp add: KNOWN_USDC_def lit_def)

lemma selected_token_known: "KNOWN_USDC c \<noteq> None \<Longrightarrow> \<exists>t. selected_token env (Some c) = Some t"
  by (auto simp: selected_token_def split: option.split list.split)

lemma resolve_token_eq:
  "resolve_token env chain = (case selected_token env chain of Some t \<Rightarrow> resolve t | None \<Rightarrow> throw no_token)"
proof (cases "truthy (env ''USDC_TOKEN_ADDRESS'')")
  case True
  then obtain x xs where "env ''USDC_TOKEN_ADDRESS'' = Some (x # xs)"
    by (metis list.exhaust truthy.elims(2))
  then show ?thesis by (simp add: resolve_token_def js_or_def selected_token_def)
next
  case False
  then have e: "env ''USDC_TOKEN_ADDRESS'' = None \<or> env ''USDC_TOKEN_ADDRESS'' = Some []"
    by (cases "env ''USDC_TOKEN_ADDRESS''") auto
  show ?thesis
  proof (cases chain)
    case (Some c)
    then show ?thesis using e False KNOWN_USDC_truthy [of c]
      by (cases "KNOWN_USDC c") (auto simp: resolve_token_def js_or_def selected_token_def)
  qed (use e False in \<open>auto simp: resolve_token_def js_or_def selected_token_def\<close>)
qed

lemma runs_within_same_calls: "calls s = calls u \<Longrightarrow> runs_within cs s r = runs_within cs u r"
  by (cases r; cases "fst r") auto

lemma preparation_without_token:
  assumes "selected_token env (network_chainId H) = None"
  shows "fst (preparation env H s) = Throws no_token \<and> calls (snd (preparation env H s)) = calls s"
  by (simp add: preparation_def resolve_token_eq assms await_then_def console_log_def throw_def)

lemma preparation_calls:
  assumes "selected_token env (network_chainId H) = Some t"
  shows "\<exists>d. runs_within ([GetSigners, GetBalance d] @ prompt_calls H) s (preparation env H s)"
proof -
  define u where "u = s\<lparr>console := console s @ [LogTitle, LogNetwork (network_name H) (network_chainId H), LogToken t]\<rparr>"
  let ?rest = "await_then (deployer_info H) (\<lambda>d. await_then (confirm_mainnet H) (\<lambda>_. resolve (t, d)))"
  obtain d where "runs_within [GetSigners, GetBalance d] u (deployer_info H u)" using deployer_info_calls ..
  then have "runs_within ([GetSigners, GetBalance d] @ prompt_calls H @ []) u (?rest u)"
    by (intro runs_within_then confirm_mainnet_calls runs_within_resolve)
  moreover have "preparation env H s = ?rest u"
    by (simp add: preparation_def resolve_token_eq assms await_then_resolve u_def)
       (simp add: await_then_def console_log_def)
  moreover have "calls s = calls u" by (simp add: u_def)
  ultimately have "runs_within ([GetSigners, GetBalance d] @ prompt_calls H) s (preparation env H s)"
    using runs_within_same_calls [of s u _ "?rest u"] by simp
  then show ?thesis ..
qed

lemma preparation_Value:
  assumes "preparation env H s = (Value (t, d), u)"
  shows "selected_token env (network_chainId H) = Some t \<and>
    calls u = calls s @ [GetSigners, GetBalance d] @ prompt_calls H \<and>
    (network_chainId H = Some 1 \<longrightarrow> (\<exists>answer. rl_question H (calls s @ [GetSigners, GetBalance d]) = Value answer \<and>
       js_trim answer = lit ''YES''))"
proof -
  obtain t' d' v w where t: "selected_token env (network_chainId H) = Some t'"
    and d: "deployer_info H v = (Value d', w)" "calls v = calls s"
    and c: "confirm_mainnet H w = (Value (), u)" and eq: "t' = t" "d' = d"
    using assms by (auto simp: preparation_def await_then_Value resolve_token_eq resolve_def throw_def console_log_def
        split: option.splits)
  have w: "calls w = calls s @ [GetSigners, GetBalance d]" using deployer_info_Value [OF d(1)] d(2) eq by simp
  have "calls u = calls w @ prompt_calls H" using confirm_mainnet_calls [of H w] c by simp
  then show ?thesis using t eq w confirm_mainnet_Value [OF c] by simp
qed

lemma deployment_calls:
  "\<exists>a. runs_within (deploy_calls t @ verify_calls env H t a @ [WaitConfirmations 1]) s (deployment env H (t, d) s)"
  unfolding deployment_def prod.case
proof (rule runs_within_then_ex [OF deploy_contract_calls])
  fix x w
  show "\<exists>a. runs_within (verify_calls env H t a @ [WaitConfirmations 1]) w
    ((case x of (htlc, a) \<Rightarrow> await_then (verify_source env H t htlc a) (\<lambda>_. summary H t d htlc a)) w)"
    unfolding case_prod_beta by (intro exI [of _ "snd x"] runs_within_then verify_source_calls summary_calls)
qed

lemma main_without_token:
  assumes "selected_token env (network_chainId H) = None"
  shows "fst (main env H s) = Throws no_token \<and> calls (snd (main env H s)) = calls s"
  using preparation_without_token [OF assms, of s]
  by (cases "preparation env H s") (simp add: main_split await_then_def)

lemma main_calls:
  assumes "selected_token env (network_chainId H) = Some t"
  shows "\<exists>d a. runs_within (full_trace env H t d a) s (main env H s)"
proof -
  obtain d where d: "runs_within ([GetSigners, GetBalance d] @ prompt_calls H) s (preparation env H s)"
    using preparation_calls [OF assms] ..
  have "\<exists>a. runs_within (deploy_calls t @ verify_calls env H t a @ [WaitConfirmations 1]) u (deployment env H v u)"
    if v: "preparation env H s = (Value v, u)" for v u
    using preparation_Value [of env H s "fst v" "snd v" u] deployment_calls [of t env H u "snd v"] v assms by (cases v) auto
  then have "\<exists>a. runs_within (([GetSigners, GetBalance d] @ prompt_calls H) @
      deploy_calls t @ verify_calls env H t a @ [WaitConfirmations 1]) s (main env H s)"
    unfolding main_split by (intro runs_within_then_ex d)
  then show ?thesis by (auto simp: full_trace_def)
qed

text \<open>A run that reaches the deployment has completed the preparation.\<close>

lemma deploy_after_preparation:
  assumes "FactoryDeploy t \<in> set (calls (snd (main env H s)))" and "calls s = []"
  shows "\<exists>d u. preparation env H s = (Value (t, d), u) \<and> prefix (calls u) (calls (snd (main env H s)))"
proof -
  obtain t' where t': "selected_token env (network_chainId H) = Some t'"
    using main_without_token [of env H s] assms by fastforce
  obtain r u where p: "preparation env H s = (r, u)" by fastforce
  show ?thesis
  proof (cases r)
    case (Value v)
    then obtain d where v: "v = (t', d)" using preparation_Value [of env H s "fst v" "snd v" u] p t' by (cases v) auto
    have u: "calls u = [GetSigners, GetBalance d] @ prompt_calls H"
      using preparation_Value p Value v assms(2) by fastforce
    obtain a where a: "runs_within (deploy_calls t' @ verify_calls env H t' a @ [WaitConfirmations 1]) u (deployment env H v u)"
      using deployment_calls [of t' env H u d] v by blast
    have m: "main env H s = deployment env H v u" using p Value by (simp add: main_split await_then_def)
    then obtain xs where xs: "calls (snd (main env H s)) = calls u @ xs"
      "prefix xs (deploy_calls t' @ verify_calls env H t' a @ [WaitConfirmations 1])"
      using a runs_within_prefix by (cases "deployment env H v u") fastforce
    have "FactoryDeploy t \<notin> set (calls u)" by (simp add: u prompt_calls_def)
    then have "FactoryDeploy t \<in> set (deploy_calls t' @ verify_calls env H t' a @ [WaitConfirmations 1])"
      using assms(1) xs set_mono_prefix by fastforce
    then have "t = t'" by (auto simp: deploy_calls_def verify_calls_def split: if_splits)
    then show ?thesis using p Value v xs(1) by auto
  qed (use assms t' preparation_calls [OF t', of s] p runs_within_prefix [of _ s r u] set_mono_prefix in
        \<open>fastforce simp: main_split await_then_def prompt_calls_def split: if_splits\<close>)+
qed

section \<open>Properties\<close>

lemma run_script_calls: "calls (process_io (run_script env H)) = calls (snd (main env H start))"
  by (auto simp: run_script_def console_log_def split: prod.splits outcome.splits)

lemma run_script_exitCode: "exitCode (run_script env H) = (case fst (main env H start) of Throws e \<Rightarrow> Some 1 | _ \<Rightarrow> None)"
  by (auto simp: run_script_def split: prod.splits outcome.splits)

lemma calls_start [simp]: "calls start = []"
  by (simp add: start_def)

text \<open>C1: The calls of every run, however it ends, are an initial part of one fixed sequence: the
  deployer's account, on mainnet the prompt, one deployment with the resolved token, and, if
  verification is wanted, the verification of the deployed address with that same token as its
  argument. The token is the override if it is set and not empty, else the known USDC address of the
  chain; when there is neither, the script makes no call at all and sets exit code 1.\<close>

theorem script_trace:
  "case selected_token env (network_chainId H) of
     None \<Rightarrow> exitCode (run_script env H) = Some 1 \<and> calls (process_io (run_script env H)) = []
   | Some t \<Rightarrow> \<exists>d a. prefix (calls (process_io (run_script env H))) (full_trace env H t d a)"
proof (cases "selected_token env (network_chainId H)")
  case None
  then show ?thesis
    using main_without_token [OF None, of start] by (simp add: run_script_calls run_script_exitCode)
next
  case (Some t)
  obtain d a where "runs_within (full_trace env H t d a) start (main env H start)" using main_calls [OF Some] by blast
  then have "prefix (calls (snd (main env H start))) (full_trace env H t d a)"
    using runs_within_prefix by (cases "main env H start") fastforce
  then show ?thesis using Some by (auto simp: run_script_calls)
qed

text \<open>C2: On chain 1 the contract is deployed only after the operator was asked and answered \<open>YES\<close>,
  surrounded by nothing but white space; and the deployment is the one of the resolved token.\<close>

theorem mainnet_needs_YES:
  assumes "network_chainId H = Some 1" and "FactoryDeploy t \<in> set (calls (process_io (run_script env H)))"
  shows "\<exists>d answer pre post. prefix [GetSigners, GetBalance d, Question mainnet_prompt] (calls (process_io (run_script env H))) \<and>
    rl_question H [GetSigners, GetBalance d] = Value answer \<and>
    answer = pre @ lit ''YES'' @ post \<and> (\<forall>x\<in>set pre \<union> set post. is_js_space x) \<and>
    selected_token env (Some 1) = Some t"
proof -
  let ?c = "calls (snd (main env H start))"
  obtain d u where p: "preparation env H start = (Value (t, d), u)" "prefix (calls u) ?c"
    using deploy_after_preparation [of t env H start] assms(2) by (auto simp: run_script_calls)
  from preparation_Value [OF p(1)] assms(1) obtain answer where q:
    "rl_question H [GetSigners, GetBalance d] = Value answer" "js_trim answer = lit ''YES''"
    "calls u = [GetSigners, GetBalance d, Question mainnet_prompt]" "selected_token env (Some 1) = Some t"
    by (auto simp: prompt_calls_def)
  have "\<exists>pre post. answer = pre @ lit ''YES'' @ post \<and> (\<forall>x\<in>set pre \<union> set post. is_js_space x)"
    using js_trim_eq [of "lit ''YES''" answer] q(2) by (simp add: lit_def is_js_space_def)
  then show ?thesis using p(2) q by (auto simp: run_script_calls)
qed

section \<open>A deployment that completes\<close>

text \<open>The outside world answers: the deployer \<open>d\<close> is the first signer, the factory returns \<open>htlc\<close>
  with address \<open>a\<close>, confirmations come with block number \<open>n\<close>, and the verification task settles.\<close>

definition responsive :: "'h hre \<Rightarrow> js_string \<Rightarrow> 'h \<Rightarrow> js_string \<Rightarrow> nat \<Rightarrow> bool" where
  "responsive H d htlc a n \<longleftrightarrow> (\<forall>h.
     (\<exists>ds. getSigners H h = Value (d # ds)) \<and> (\<exists>b. getBalance H h d = Value b) \<and>
     getContractFactory H h = Value () \<and> (\<forall>t. factory_deploy H h t = Value htlc) \<and>
     waitForDeployment H h htlc = Value () \<and> getAddress H h htlc = Value a \<and>
     (\<exists>t. read_TOKEN H h htlc = Value t) \<and> (\<exists>m. read_MIN_LOCKTIME H h htlc = Value m) \<and>
     (\<forall>k. wait_confirmations H h htlc k = Value n) \<and> (\<forall>t. run_verify H h a [t] \<noteq> Pending))"

definition confirmed :: "'h hre \<Rightarrow> bool" where
  "confirmed H \<longleftrightarrow> network_chainId H \<noteq> Some 1 \<or>
     (\<forall>h. \<exists>answer. rl_question H h = Value answer \<and> js_trim answer = lit ''YES'')"

lemma responsive_deployer_info:
  assumes "responsive H d htlc a n"
  shows "\<exists>t. deployer_info H s = (Value d, t)"
proof -
  obtain ds where "getSigners H (calls s) = Value (d # ds)" using assms unfolding responsive_def by blast
  moreover obtain b where "getBalance H (calls s @ [GetSigners]) d = Value b" using assms unfolding responsive_def by blast
  ultimately show ?thesis
    by (simp add: deployer_info_def await_then_def external_def console_log_def resolve_def)
qed

lemma confirmed_confirm_mainnet: "confirmed H \<Longrightarrow> \<exists>t. confirm_mainnet H s = (Value (), t)"
  unfolding confirmed_def confirm_mainnet_def
  by (auto simp: await_then_def external_def resolve_def split: outcome.splits)
     (metis outcome.distinct(1,3) outcome.inject(1))+

lemma responsive_deploy_contract:
  assumes "responsive H d htlc a n"
  shows "\<exists>t. deploy_contract H tok s = (Value (htlc, a), t)"
proof -
  note r = assms [unfolded responsive_def, rule_format]
  define h where "h = calls s @ [GetContractFactory (lit ''QBTCUSDCHTLC''), FactoryDeploy tok, WaitForDeployment, GetAddress]"
  obtain t where "read_TOKEN H h htlc = Value t" using r [of h] by blast
  moreover obtain m where "read_MIN_LOCKTIME H (h @ [ReadTOKEN]) htlc = Value m" using r [of "h @ [ReadTOKEN]"] by blast
  moreover obtain m' where "read_MIN_LOCKTIME H (h @ [ReadTOKEN, ReadMIN_LOCKTIME]) htlc = Value m'"
    using r [of "h @ [ReadTOKEN, ReadMIN_LOCKTIME]"] by blast
  ultimately show ?thesis using r
    by (simp add: deploy_contract_def await_then_def external_def console_log_def resolve_def h_def)
qed

lemma responsive_verify_source:
  assumes "responsive H d htlc a n"
  shows "\<exists>t. verify_source env H tok htlc a s = (Value (), t)"
proof -
  note r = assms [unfolded responsive_def, rule_format]
  have w: "wait_confirmations H h htlc 6 = Value n" and v: "run_verify H h a [tok] \<noteq> Pending" for h using r [of h] by blast+
  let ?h = "calls s @ [WaitConfirmations 6]"
  show ?thesis unfolding verify_source_def
    using v [of ?h] by (cases "run_verify H ?h a [tok]")
      (auto simp: w await_then_def external_def console_log_def resolve_def try_catch_def)
qed

lemma responsive_summary:
  assumes "responsive H d htlc a n"
  shows "\<exists>t. summary H tok dep htlc a s = (Value (), t) \<and> last (console t) = LogSummary (network_name H) a tok dep n"
proof -
  have "wait_confirmations H h htlc 1 = Value n" for h using assms unfolding responsive_def by blast
  then show ?thesis by (auto simp: summary_def await_then_def external_def console_log_def)
qed

lemma responsive_preparation:
  assumes "responsive H d htlc a n" and "confirmed H" and "selected_token env (network_chainId H) = Some t"
  shows "\<exists>u. preparation env H s = (Value (t, d), u)"
proof -
  let ?s = "s\<lparr>console := console s @ [LogTitle, LogNetwork (network_name H) (network_chainId H), LogToken t]\<rparr>"
  obtain v where "deployer_info H ?s = (Value d, v)" using responsive_deployer_info [OF assms(1)] ..
  moreover obtain w where "confirm_mainnet H v = (Value (), w)" using confirmed_confirm_mainnet [OF assms(2)] ..
  ultimately show ?thesis
    by (simp add: preparation_def resolve_token_eq assms(3) await_then_def console_log_def resolve_def)
qed

text \<open>C3: If the signers, the chain and the operator answer, and a token is set or known, the run
  completes without an error exit code, makes exactly the planned calls, and ends with the summary of
  the deployed address, the token and the deployer.\<close>

theorem deployment_succeeds:
  assumes "responsive H d htlc a n" and "confirmed H" and "selected_token env (network_chainId H) = Some t"
  shows "exitCode (run_script env H) = None \<and>
    calls (process_io (run_script env H)) = full_trace env H t d a \<and>
    last (console (process_io (run_script env H))) = LogSummary (network_name H) a t d n"
proof -
  obtain u where u: "preparation env H start = (Value (t, d), u)" using responsive_preparation [OF assms] ..
  obtain v where v: "deploy_contract H t u = (Value (htlc, a), v)" using responsive_deploy_contract [OF assms(1)] ..
  obtain w where w: "verify_source env H t htlc a v = (Value (), w)" using responsive_verify_source [OF assms(1)] ..
  obtain x where x: "summary H t d htlc a w = (Value (), x)" "last (console x) = LogSummary (network_name H) a t d n"
    using responsive_summary [OF assms(1)] by blast
  have m: "main env H start = (Value (), x)"
    using u v w x(1) by (simp add: main_split deployment_def await_then_def)
  have "calls u = [GetSigners, GetBalance d] @ prompt_calls H" using preparation_Value [OF u] by simp
  moreover have "calls v = calls u @ deploy_calls t" using deploy_contract_calls [of t u H] v by simp
  moreover have "calls w = calls v @ verify_calls env H t a" using verify_source_calls [of env H t a v htlc] w by simp
  moreover have "calls x = calls w @ [WaitConfirmations 1]" using summary_calls [of w H t d htlc a] x(1) by simp
  ultimately show ?thesis using m x(2) by (simp add: run_script_def full_trace_def)
qed

text \<open>A world that answers, for examples: the deployer is \<open>0xD\<close>, the contract \<open>0xC\<close>, and the operator
  types the given text at the prompt.\<close>

definition example_hre :: "nat \<Rightarrow> js_string outcome \<Rightarrow> unit outcome \<Rightarrow> unit hre" where
  "example_hre chain typed verification = \<lparr>
     network_name = lit ''net'', network_chainId = Some chain,
     getSigners = (\<lambda>_. Value [lit ''0xD'']), getBalance = (\<lambda>_ _. Value 5), rl_question = (\<lambda>_. typed),
     getContractFactory = (\<lambda>_. Value ()), factory_deploy = (\<lambda>_ _. Value ()), waitForDeployment = (\<lambda>_ _. Value ()),
     getAddress = (\<lambda>_ _. Value (lit ''0xC'')), read_TOKEN = (\<lambda>_ _. Value (lit ''0xT'')),
     read_MIN_LOCKTIME = (\<lambda>_ _. Value 3600), wait_confirmations = (\<lambda>_ _ _. Value 9),
     run_verify = (\<lambda>_ _ _. verification)\<rparr>"

lemma example_responsive:
  "v \<noteq> Pending \<Longrightarrow> responsive (example_hre chain typed v) (lit ''0xD'') () (lit ''0xC'') 9"
  by (simp add: responsive_def example_hre_def)

lemma example_confirmed: "confirmed (example_hre chain (Value (lit '' YES'' @ [10])) v)"
  by (simp add: confirmed_def example_hre_def lit_def js_trim_def is_js_space_def)

theorem deployment_succeeds_witness:
  "exitCode (run_script (\<lambda>_. None) (example_hre 1 (Value (lit '' YES'' @ [10])) (Value ()))) = None \<and>
   FactoryDeploy (lit ''0xA0b86991c6218b36c1d19D4a2e9Eb0cE3606eB48'') \<in>
     set (calls (process_io (run_script (\<lambda>_. None) (example_hre 1 (Value (lit '' YES'' @ [10])) (Value ())))))"
proof -
  let ?H = "example_hre 1 (Value (lit '' YES'' @ [10])) (Value ())"
  let ?t = "lit ''0xA0b86991c6218b36c1d19D4a2e9Eb0cE3606eB48''"
  have "selected_token (\<lambda>_. None) (network_chainId ?H) = Some ?t"
    by (simp add: selected_token_def example_hre_def KNOWN_USDC_def)
  moreover have "responsive ?H (lit ''0xD'') () (lit ''0xC'') 9" by (rule example_responsive) simp
  ultimately have "exitCode (run_script (\<lambda>_. None) ?H) = None \<and>
      calls (process_io (run_script (\<lambda>_. None) ?H)) = full_trace (\<lambda>_. None) ?H ?t (lit ''0xD'') (lit ''0xC'')"
    using deployment_succeeds [OF _ example_confirmed] by blast
  then show ?thesis by (simp add: full_trace_def deploy_calls_def del: One_nat_def)
qed

lemma example_mainnet_calls:
  "calls (process_io (run_script (\<lambda>_. None) (example_hre 1 (Value (lit ''YES'')) (Value ())))) =
     [GetSigners, GetBalance (lit ''0xD''), Question mainnet_prompt, GetContractFactory (lit ''QBTCUSDCHTLC''),
      FactoryDeploy (lit ''0xA0b86991c6218b36c1d19D4a2e9Eb0cE3606eB48''), WaitForDeployment, GetAddress, ReadTOKEN,
      ReadMIN_LOCKTIME, ReadMIN_LOCKTIME, WaitConfirmations 1]"
  by (simp add: run_script_def main_def resolve_token_eq selected_token_def KNOWN_USDC_def deployer_info_def confirm_mainnet_def
      deploy_contract_def verify_source_def summary_def await_then_def external_def console_log_def resolve_def start_def
      example_hre_def js_trim_def is_js_space_def lit_def)

theorem mainnet_needs_YES_witness:
  "\<exists>answer. rl_question (example_hre 1 (Value (lit ''YES'')) (Value ())) [GetSigners, GetBalance (lit ''0xD'')] = Value answer \<and>
     (\<exists>pre post. answer = pre @ lit ''YES'' @ post)"
proof -
  let ?H = "example_hre 1 (Value (lit ''YES'')) (Value ())"
  have "network_chainId ?H = Some 1" by (simp add: example_hre_def)
  moreover have "FactoryDeploy (lit ''0xA0b86991c6218b36c1d19D4a2e9Eb0cE3606eB48'') \<in> set (calls (process_io (run_script (\<lambda>_. None) ?H)))"
    unfolding example_mainnet_calls by simp
  ultimately obtain d answer pre post where
    "prefix [GetSigners, GetBalance d, Question mainnet_prompt] (calls (process_io (run_script (\<lambda>_. None) ?H)))"
    "rl_question ?H [GetSigners, GetBalance d] = Value answer" "answer = pre @ lit ''YES'' @ post"
    using mainnet_needs_YES by blast
  then show ?thesis unfolding example_mainnet_calls by auto
qed

section \<open>The prompt and the verification task\<close>

text \<open>C5: If the input ends before the prompt on mainnet is answered, nothing is deployed, but the
  promise \<open>main\<close> returned never settles: neither its body nor its handler runs on, the exit code stays
  unset and the run reports success.\<close>

theorem unanswered_prompt_reports_success:
  assumes "network_chainId H = Some 1" and "rl_question H [GetSigners, GetBalance d] = Pending"
    and "getSigners H [] = Value (d # ds)" and "getBalance H [GetSigners] d = Value b"
  shows "exitCode (run_script env H) = None \<and>
    calls (process_io (run_script env H)) = [GetSigners, GetBalance d, Question mainnet_prompt]"
proof -
  have "KNOWN_USDC 1 \<noteq> None" by (simp add: KNOWN_USDC_def)
  then obtain t where "selected_token env (Some 1) = Some t" using selected_token_known by blast
  then show ?thesis
    using assms by (simp add: run_script_def main_def resolve_token_eq deployer_info_def confirm_mainnet_def await_then_def
        external_def console_log_def resolve_def start_def)
qed

theorem unanswered_prompt_reports_success_witness:
  "exitCode (run_script (\<lambda>_. None) (example_hre 1 Pending (Value ()))) = None"
  using unanswered_prompt_reports_success [of "example_hre 1 Pending (Value ())" "lit ''0xD''" "[]" 5 "\<lambda>_. None"]
  by (simp add: example_hre_def)

text \<open>Everything but the answer of the verification task stays the same.\<close>

lemma verify_source_settled:
  assumes "\<And>h. run_verify H h a [t] \<noteq> Pending" and "\<And>h. v h a [t] \<noteq> Pending"
  shows "fst (verify_source env (H\<lparr>run_verify := v\<rparr>) t htlc a s) = fst (verify_source env H t htlc a s) \<and>
    calls (snd (verify_source env (H\<lparr>run_verify := v\<rparr>) t htlc a s)) = calls (snd (verify_source env H t htlc a s))"
proof -
  let ?h = "calls s @ [WaitConfirmations 6]"
  show ?thesis using assms(1) [of ?h] assms(2) [of ?h]
    by (cases "wait_confirmations H (calls s) htlc 6"; cases "run_verify H ?h a [t]"; cases "v ?h a [t]")
       (simp_all add: verify_source_def await_then_def external_def console_log_def resolve_def try_catch_def)
qed

lemma summary_same_calls:
  "calls s = calls t \<Longrightarrow> fst (summary H tok d htlc a s) = fst (summary H tok d htlc a t) \<and>
     calls (snd (summary H tok d htlc a s)) = calls (snd (summary H tok d htlc a t))"
  by (auto simp: summary_def await_then_def external_def console_log_def split: outcome.splits)

lemma account_sections_without_verification [simp]:
  "deployer_info (H\<lparr>run_verify := v\<rparr>) = deployer_info H"
  "confirm_mainnet (H\<lparr>run_verify := v\<rparr>) = confirm_mainnet H"
  by (simp_all add: deployer_info_def confirm_mainnet_def cong: list.case_cong)

lemma sections_without_verification [simp]:
  "preparation env (H\<lparr>run_verify := v\<rparr>) = preparation env H"
  "deploy_contract (H\<lparr>run_verify := v\<rparr>) t = deploy_contract H t"
  "summary (H\<lparr>run_verify := v\<rparr>) t d htlc a = summary H t d htlc a"
  by (simp_all add: preparation_def deploy_contract_def summary_def)

lemma await_then_same_calls:
  assumes "fst (m s) = fst (m' s')" and "calls (snd (m s)) = calls (snd (m' s'))"
    and "\<And>x t t'. calls t = calls t' \<Longrightarrow> fst (f x t) = fst (f' x t') \<and> calls (snd (f x t)) = calls (snd (f' x t'))"
  shows "fst (await_then m f s) = fst (await_then m' f' s') \<and>
    calls (snd (await_then m f s)) = calls (snd (await_then m' f' s'))"
proof -
  obtain r t where m: "m s = (r, t)" by fastforce
  obtain t' where m': "m' s' = (r, t')" using assms(1) m by (cases "m' s'") simp
  show ?thesis using assms m m' by (cases r) (simp_all add: await_then_def)
qed

text \<open>C4: A failed verification on Etherscan is not fatal: whatever the verification task answers, the
  run makes the same calls and leaves the same exit code.\<close>

theorem verification_not_fatal:
  assumes "\<And>h a t. run_verify H h a [t] \<noteq> Pending" and "\<And>h a t. v h a [t] \<noteq> Pending"
  shows "exitCode (run_script env (H\<lparr>run_verify := v\<rparr>)) = exitCode (run_script env H) \<and>
    calls (process_io (run_script env (H\<lparr>run_verify := v\<rparr>))) = calls (process_io (run_script env H))"
proof -
  have d: "fst (deployment env (H\<lparr>run_verify := v\<rparr>) x s) = fst (deployment env H x s) \<and>
      calls (snd (deployment env (H\<lparr>run_verify := v\<rparr>) x s)) = calls (snd (deployment env H x s))" for x s
  proof (cases "deploy_contract H (fst x) s")
    case (Pair r u)
    have "fst (await_then (verify_source env (H\<lparr>run_verify := v\<rparr>) t htlc a) (\<lambda>_. summary H t d htlc a) w) =
        fst (await_then (verify_source env H t htlc a) (\<lambda>_. summary H t d htlc a) w) \<and>
      calls (snd (await_then (verify_source env (H\<lparr>run_verify := v\<rparr>) t htlc a) (\<lambda>_. summary H t d htlc a) w)) =
        calls (snd (await_then (verify_source env H t htlc a) (\<lambda>_. summary H t d htlc a) w))" for t htlc a d w
      using verify_source_settled [of H a t v env htlc w] assms by (intro await_then_same_calls summary_same_calls) auto
    then show ?thesis using Pair
      by (cases x; cases r) (simp_all add: deployment_def await_then_def [of "deploy_contract H _"] case_prod_beta)
  qed
  have "fst (main env (H\<lparr>run_verify := v\<rparr>) s) = fst (main env H s) \<and>
      calls (snd (main env (H\<lparr>run_verify := v\<rparr>) s)) = calls (snd (main env H s))" for s
    using d by (cases "preparation env H s"; cases "fst (preparation env H s)")
      (simp_all add: main_split await_then_def [of "preparation env H"])
  then show ?thesis by (simp add: run_script_calls run_script_exitCode)
qed

theorem verification_not_fatal_witness:
  "exitCode (run_script (\<lambda>_. Some (lit ''k'')) (example_hre 11155111 (Value []) (Throws aborted))) = None"
proof -
  let ?e = "\<lambda>_. Some (lit ''k'')"
  have "example_hre 11155111 (Value []) (Throws aborted) =
      (example_hre 11155111 (Value []) (Value ()))\<lparr>run_verify := \<lambda>_ _ _. Throws aborted\<rparr>"
    by (simp add: example_hre_def)
  then have "exitCode (run_script ?e (example_hre 11155111 (Value []) (Throws aborted))) =
      exitCode (run_script ?e (example_hre 11155111 (Value []) (Value ())))"
    using verification_not_fatal [of "example_hre 11155111 (Value []) (Value ())" "\<lambda>_ _ _. Throws aborted" ?e]
    by (simp add: example_hre_def)
  also have "\<dots> = None" by (simp add: run_script_def main_def resolve_token_eq selected_token_def deployer_info_def
      confirm_mainnet_def deploy_contract_def verify_source_def summary_def await_then_def external_def console_log_def
      resolve_def start_def try_catch_def example_hre_def lit_def)
  finally show ?thesis .
qed

section \<open>The configured networks\<close>

text \<open>Of the networks the configuration defines, exactly the one called \<open>mainnet\<close> has the chain id
  the script guards; exactly those that sign with the deployer's key have a known USDC address, so
  they deploy without \<open>USDC_TOKEN_ADDRESS\<close>; and the others, on chain 31337, are never verified and
  need that variable.\<close>

theorem configured_networks:
  "list_all (\<lambda>(name, c).
      (chainId c = 1) = (name = lit ''mainnet'') \<and>
      (accounts c = Some [DEPLOYER_KEY (dotenv env)]) = (KNOWN_USDC (chainId c) \<noteq> None) \<and>
      (accounts c = None) = (chainId c = 31337) \<and>
      (selected_token e (Some (chainId c)) = None) = (chainId c = 31337 \<and> \<not> truthy (e ''USDC_TOKEN_ADDRESS'')))
    (networks (hardhat_config dotenv env))"
proof -
  have "(selected_token e (Some k) = None) = (KNOWN_USDC k = None \<and> \<not> truthy (e ''USDC_TOKEN_ADDRESS''))" for k
    by (auto simp: selected_token_def split: option.splits list.splits)
  then show ?thesis by (simp add: config_defs KNOWN_USDC_def lit_def del: replicate.simps One_nat_def)
qed

end
