(* ===== verification/Htlc.thy ===== *)
theory Htlc
  imports Block_Header
begin

text \<open>
  The hash time lock contract \<^verbatim>\<open>src/contrib/evm-htlc/contracts/QBTCUSDCHTLC.sol\<close>. Storage is a record,
  every external function a definition that returns an error (the transaction or the nested call is
  rolled back) or its result with the new world: storage, token state and emitted events.

  What the contract imports is a parameter, collected in the record \<open>evm\<close>: \<open>keccak256\<close>, the two halves of
  OpenZeppelin's \<open>nonReentrant\<close> modifier, and the token. The code of the token is arbitrary: while it
  runs it may call any external function of the contract, any number of times, and react to the
  answers (\<open>token_code\<close>). Calls nest to a depth given to \<open>message_call\<close>, as the EVM limits them. Arithmetic is
  checked, as in Solidity 0.8; addresses and \<open>bytes32\<close> are words read big-endian.
\<close>

type_synonym address = "160 word"
type_synonym bytes32 = "256 word"

definition MIN_LOCKTIME :: uint256 where
  "MIN_LOCKTIME = 3600"

record LockContract =
  sender :: address
  receiver :: address
  amount :: uint256
  hashlock :: bytes32
  timelock :: uint256
  withdrawn :: bool
  refunded :: bool
  preimage :: bytes32

definition no_lock :: LockContract where
  "no_lock = \<lparr>sender = 0, receiver = 0, amount = 0, hashlock = 0, timelock = 0,
     withdrawn = False, refunded = False, preimage = 0\<rparr>"

datatype event =
    HTLCInitiate bytes32 address address uint256 bytes32 uint256
  | HTLCWithdraw bytes32 bytes32
  | HTLCRefund bytes32

datatype revert =
    ContractNotFound bytes32
  | AlreadyWithdrawn bytes32
  | AlreadyRefunded bytes32
  | HashlockMismatch bytes32
  | PreimageIsZero
  | TimelockNotExpired bytes32
  | TimelockExpired bytes32
  | TimelockTooShort uint256 uint256
  | ZeroReceiver
  | ZeroAmount
  | TokenIsZero
  | ContractIdCollision
  | ArithmeticPanic
  | ReentrantCall
  | TokenReverted
  | CallDepthExceeded

record 'g HTLC =
  TOKEN :: address
  nonces :: "address \<Rightarrow> uint256"
  contracts :: "bytes32 \<Rightarrow> LockContract"
  guard :: 'g

record ('g, 't) world =
  htlc :: "'g HTLC"
  tok :: 't
  events :: "event list"

type_synonym ('a, 'g, 't) tx = "('g, 't) world \<Rightarrow> revert + 'a \<times> ('g, 't) world"

section \<open>Code outside the contract\<close>

datatype entry =
    Initiate address bytes32 uint256 uint256
  | InitiateWithPermit address bytes32 uint256 uint256 uint256 uint8 bytes32 bytes32
  | Withdraw bytes32 bytes32
  | Refund bytes32
  | GetContract bytes32

datatype reply = Reverted revert | ReturnsId bytes32 | ReturnsNothing | ReturnsLock LockContract

datatype 't token_code =
    Finish 't
  | Fail
  | CallHtlc 't address entry "reply \<times> 't \<Rightarrow> 't token_code"

record ('g, 't) evm =
  this_address :: address
  keccak256 :: "uint8 list \<Rightarrow> bytes32"
  nonReentrantBefore :: "'g \<Rightarrow> 'g option"
  nonReentrantAfter :: "'g \<Rightarrow> 'g"
  safeTransfer :: "address \<Rightarrow> uint256 \<Rightarrow> 't \<Rightarrow> 't token_code"
  safeTransferFrom :: "address \<Rightarrow> address \<Rightarrow> uint256 \<Rightarrow> 't \<Rightarrow> 't token_code"
  permit :: "address \<Rightarrow> address \<Rightarrow> uint256 \<Rightarrow> uint256 \<Rightarrow> uint8 \<Rightarrow> bytes32 \<Rightarrow> bytes32 \<Rightarrow> 't \<Rightarrow> 't token_code"

type_synonym ('g, 't) handler = "address \<Rightarrow> entry \<Rightarrow> ('g, 't) world \<Rightarrow> reply \<times> ('g, 't) world"

primrec run_token :: "('g, 't) handler \<Rightarrow> 't token_code \<Rightarrow> (unit, 'g, 't) tx" where
  "run_token h (Finish t) w = Inr ((), w\<lparr>tok := t\<rparr>)"
| "run_token h Fail w = Inl TokenReverted"
| "run_token h (CallHtlc t a e k) w =
     (let (r, w') = h a e (w\<lparr>tok := t\<rparr>) in run_token h (k (r, tok w')) w')"

definition bind_tx :: "('a, 'g, 't) tx \<Rightarrow> ('a \<Rightarrow> ('b, 'g, 't) tx) \<Rightarrow> ('b, 'g, 't) tx" where
  "bind_tx m f w = (case m w of Inl e \<Rightarrow> Inl e | Inr (a, w') \<Rightarrow> f a w')"

definition nonReentrant :: "('g, 't) evm \<Rightarrow> ('a, 'g, 't) tx \<Rightarrow> ('a, 'g, 't) tx" where
  "nonReentrant P body w = (case nonReentrantBefore P (guard (htlc w)) of
     None \<Rightarrow> Inl ReentrantCall
   | Some g \<Rightarrow> (case body (w\<lparr>htlc := (htlc w)\<lparr>guard := g\<rparr>\<rparr>) of
       Inl e \<Rightarrow> Inl e
     | Inr (a, w') \<Rightarrow> Inr (a, w'\<lparr>htlc := (htlc w')\<lparr>guard := nonReentrantAfter P (guard (htlc w'))\<rparr>\<rparr>)))"

section \<open>The contract\<close>

definition constructor :: "'g \<Rightarrow> address \<Rightarrow> revert + 'g HTLC" where
  "constructor g token =
     (if token = 0 then Inl TokenIsZero
      else Inr \<lparr>TOKEN = token, nonces = (\<lambda>_. 0), contracts = (\<lambda>_. no_lock), guard = g\<rparr>)"

definition be_bytes :: "nat \<Rightarrow> nat \<Rightarrow> uint8 list" where
  "be_bytes n x = rev (le_bytes n x)"

text \<open>\<open>abi.encodePacked\<close> of the six fields that identify a lock: 20 bytes for each address, 32 for
  each word.\<close>

definition encode_id :: "address \<Rightarrow> address \<Rightarrow> uint256 \<Rightarrow> bytes32 \<Rightarrow> uint256 \<Rightarrow> uint256 \<Rightarrow> uint8 list" where
  "encode_id src rcv amt hash time nonce =
     be_bytes 20 (unat src) @ be_bytes 20 (unat rcv) @ be_bytes 32 (unat amt) @ be_bytes 32 (unat hash) @
     be_bytes 32 (unat time) @ be_bytes 32 (unat nonce)"

definition emit :: "event \<Rightarrow> ('g, 't) world \<Rightarrow> ('g, 't) world" where
  "emit e w = w\<lparr>events := events w @ [e]\<rparr>"

definition store :: "bytes32 \<Rightarrow> LockContract \<Rightarrow> ('g, 't) world \<Rightarrow> ('g, 't) world" where
  "store i c w = w\<lparr>htlc := (htlc w)\<lparr>contracts := (contracts (htlc w))(i := c)\<rparr>\<rparr>"

definition initiate_internal ::
  "('g, 't) evm \<Rightarrow> ('g, 't) handler \<Rightarrow> uint256 \<Rightarrow> address \<Rightarrow> address \<Rightarrow> bytes32 \<Rightarrow> uint256 \<Rightarrow> uint256 \<Rightarrow> (bytes32, 'g, 't) tx" where
  "initiate_internal P h now src rcv hash time amt w =
     (if rcv = 0 then Inl ZeroReceiver
      else if amt = 0 then Inl ZeroAmount
      else if unat now + unat MIN_LOCKTIME \<ge> 2 ^ 256 then Inl ArithmeticPanic
      else if time < now + MIN_LOCKTIME
      then Inl (TimelockTooShort (if time > now then time - now else 0) MIN_LOCKTIME)
      else if nonces (htlc w) src = - 1 then Inl ArithmeticPanic
      else
        let nonce = nonces (htlc w) src;
            w1 = w\<lparr>htlc := (htlc w)\<lparr>nonces := (nonces (htlc w))(src := nonce + 1)\<rparr>\<rparr>;
            contractId = keccak256 P (encode_id src rcv amt hash time nonce)
        in
          if amount (contracts (htlc w1) contractId) \<noteq> 0 then Inl ContractIdCollision
          else
            let w2 = store contractId \<lparr>sender = src, receiver = rcv, amount = amt, hashlock = hash, timelock = time,
                       withdrawn = False, refunded = False, preimage = 0\<rparr> w1;
                w3 = emit (HTLCInitiate contractId src rcv amt hash time) w2
            in bind_tx (run_token h (safeTransferFrom P src (this_address P) amt (tok w3))) (\<lambda>_ w4. Inr (contractId, w4)) w3)"

definition initiate ::
  "('g, 't) evm \<Rightarrow> ('g, 't) handler \<Rightarrow> uint256 \<Rightarrow> address \<Rightarrow> address \<Rightarrow> bytes32 \<Rightarrow> uint256 \<Rightarrow> uint256 \<Rightarrow> (bytes32, 'g, 't) tx" where
  "initiate P h now msg_sender rcv hash time amt =
     nonReentrant P (initiate_internal P h now msg_sender rcv hash time amt)"

definition initiateWithPermit ::
  "('g, 't) evm \<Rightarrow> ('g, 't) handler \<Rightarrow> uint256 \<Rightarrow> address \<Rightarrow> address \<Rightarrow> bytes32 \<Rightarrow> uint256 \<Rightarrow> uint256 \<Rightarrow>
   uint256 \<Rightarrow> uint8 \<Rightarrow> bytes32 \<Rightarrow> bytes32 \<Rightarrow> (bytes32, 'g, 't) tx" where
  "initiateWithPermit P h now msg_sender rcv hash time amt deadline v r s' =
     nonReentrant P
       (bind_tx (\<lambda>w. run_token h (permit P msg_sender (this_address P) amt deadline v r s' (tok w)) w)
          (\<lambda>_. initiate_internal P h now msg_sender rcv hash time amt))"

text \<open>\<open>sha256(abi.encodePacked(preimage))\<close>\<close>

definition sha256_word :: "bytes32 \<Rightarrow> bytes32" where
  "sha256_word p = digest_uint256 (sha256_digest (be_bytes 32 (unat p)))"

definition withdraw :: "('g, 't) evm \<Rightarrow> ('g, 't) handler \<Rightarrow> uint256 \<Rightarrow> bytes32 \<Rightarrow> bytes32 \<Rightarrow> (unit, 'g, 't) tx" where
  "withdraw P h now contractId pre = nonReentrant P (\<lambda>w.
     let c = contracts (htlc w) contractId in
     if amount c = 0 then Inl (ContractNotFound contractId)
     else if withdrawn c then Inl (AlreadyWithdrawn contractId)
     else if refunded c then Inl (AlreadyRefunded contractId)
     else if pre = 0 then Inl PreimageIsZero
     else if now \<ge> timelock c then Inl (TimelockExpired contractId)
     else if hashlock c \<noteq> sha256_word pre then Inl (HashlockMismatch contractId)
     else
       let w1 = store contractId (c\<lparr>preimage := pre, withdrawn := True\<rparr>) w;
           w2 = emit (HTLCWithdraw contractId pre) w1
       in run_token h (safeTransfer P (receiver c) (amount c) (tok w2)) w2)"

definition refund :: "('g, 't) evm \<Rightarrow> ('g, 't) handler \<Rightarrow> uint256 \<Rightarrow> bytes32 \<Rightarrow> (unit, 'g, 't) tx" where
  "refund P h now contractId = nonReentrant P (\<lambda>w.
     let c = contracts (htlc w) contractId in
     if amount c = 0 then Inl (ContractNotFound contractId)
     else if withdrawn c then Inl (AlreadyWithdrawn contractId)
     else if refunded c then Inl (AlreadyRefunded contractId)
     else if now < timelock c then Inl (TimelockNotExpired contractId)
     else
       let w1 = store contractId (c\<lparr>refunded := True\<rparr>) w;
           w2 = emit (HTLCRefund contractId) w1
       in run_token h (safeTransfer P (sender c) (amount c) (tok w2)) w2)"

definition getContract :: "bytes32 \<Rightarrow> ('g, 't) world \<Rightarrow> LockContract" where
  "getContract contractId w = contracts (htlc w) contractId"

text \<open>A message call to the contract; a failed call is rolled back.\<close>

definition returning :: "('a \<Rightarrow> reply) \<Rightarrow> revert + 'a \<times> ('g, 't) world \<Rightarrow> ('g, 't) world \<Rightarrow> reply \<times> ('g, 't) world" where
  "returning f r w = (case r of Inl e \<Rightarrow> (Reverted e, w) | Inr (a, w') \<Rightarrow> (f a, w'))"

fun dispatch :: "('g, 't) evm \<Rightarrow> ('g, 't) handler \<Rightarrow> uint256 \<Rightarrow> ('g, 't) handler" where
  "dispatch P h now from (Initiate rcv hash time amt) w = returning ReturnsId (initiate P h now from rcv hash time amt w) w"
| "dispatch P h now from (InitiateWithPermit rcv hash time amt deadline v r s') w =
     returning ReturnsId (initiateWithPermit P h now from rcv hash time amt deadline v r s' w) w"
| "dispatch P h now from (Withdraw i pre) w = returning (\<lambda>_. ReturnsNothing) (withdraw P h now i pre w) w"
| "dispatch P h now from (Refund i) w = returning (\<lambda>_. ReturnsNothing) (refund P h now i w) w"
| "dispatch P h now from (GetContract i) w = (ReturnsLock (getContract i w), w)"

fun message_call :: "('g, 't) evm \<Rightarrow> nat \<Rightarrow> uint256 \<Rightarrow> ('g, 't) handler" where
  "message_call P 0 now from e w = (Reverted CallDepthExceeded, w)"
| "message_call P (Suc depth) now from e w = dispatch P (message_call P depth now) now from e w"

section \<open>Reentrancy\<close>

text \<open>What OpenZeppelin documents of \<open>ReentrancyGuard\<close>: an idle guard can be entered, an entered one
  cannot, and leaving makes it idle.\<close>

definition guard_laws :: "('g, 't) evm \<Rightarrow> 'g \<Rightarrow> 'g \<Rightarrow> bool" where
  "guard_laws P idle busy \<longleftrightarrow>
     nonReentrantBefore P idle = Some busy \<and> nonReentrantBefore P busy = None \<and> nonReentrantAfter P busy = idle"

text \<open>A handler that leaves the world alone while the guard is taken.\<close>

definition quiet :: "'g \<Rightarrow> ('g, 't) handler \<Rightarrow> bool" where
  "quiet busy h \<longleftrightarrow> (\<forall>a e w. guard (htlc w) = busy \<longrightarrow> snd (h a e w) = w)"

named_theorems htlc_defs \<open>the functions of the contract\<close>

lemmas [htlc_defs] = initiate_def initiateWithPermit_def withdraw_def refund_def nonReentrant_def returning_def

lemma message_call_busy:
  assumes "guard_laws P idle busy" and "guard (htlc w) = busy"
  shows "message_call P n now a e w =
    (case n of 0 \<Rightarrow> (Reverted CallDepthExceeded, w)
     | Suc _ \<Rightarrow> (case e of GetContract i \<Rightarrow> (ReturnsLock (contracts (htlc w) i), w) | _ \<Rightarrow> (Reverted ReentrantCall, w)))"
  using assms by (cases n; cases e) (simp_all add: guard_laws_def htlc_defs getContract_def)

lemma quiet_message_call: "guard_laws P idle busy \<Longrightarrow> quiet busy (message_call P n now)"
  by (simp add: quiet_def message_call_busy split: nat.split entry.split)

lemma run_token_quiet:
  assumes "quiet busy h" and "guard (htlc w) = busy" and "run_token h code w = Inr (u, w')"
  shows "htlc w' = htlc w \<and> events w' = events w"
  using assms(2,3)
proof (induction code arbitrary: w)
  case (CallHtlc t a e k)
  let ?w = "w\<lparr>tok := t\<rparr>"
  obtain r v where h: "h a e ?w = (r, v)" by fastforce
  moreover have "snd (h a e ?w) = ?w" using assms(1) CallHtlc.prems(1) by (simp add: quiet_def)
  ultimately have v: "v = ?w" by simp
  have "run_token h (k (r, tok v)) v = Inr (u, w')" using CallHtlc.prems(2) h by simp
  then have "htlc w' = htlc v \<and> events w' = events v"
    using CallHtlc.IH [of "k (r, tok v)" v] CallHtlc.prems(1) v by simp
  then show ?case using v by simp
qed auto

section \<open>What a successful call does\<close>

text \<open>Token states reached by the three calls to the token while the contract's guard is taken.\<close>

definition pays :: "('g, 't) evm \<Rightarrow> 'g \<Rightarrow> address \<Rightarrow> uint256 \<Rightarrow> 't \<Rightarrow> 't \<Rightarrow> bool" where
  "pays P busy to amt t t' \<longleftrightarrow> (\<exists>h w w'. quiet busy h \<and> guard (htlc w) = busy \<and>
     run_token h (safeTransfer P to amt t) w = Inr ((), w') \<and> tok w' = t')"

definition pulls :: "('g, 't) evm \<Rightarrow> 'g \<Rightarrow> address \<Rightarrow> uint256 \<Rightarrow> 't \<Rightarrow> 't \<Rightarrow> bool" where
  "pulls P busy src amt t t' \<longleftrightarrow> (\<exists>h w w'. quiet busy h \<and> guard (htlc w) = busy \<and>
     run_token h (safeTransferFrom P src (this_address P) amt t) w = Inr ((), w') \<and> tok w' = t')"

definition permits :: "('g, 't) evm \<Rightarrow> 'g \<Rightarrow> address \<Rightarrow> uint256 \<Rightarrow> 't \<Rightarrow> 't \<Rightarrow> bool" where
  "permits P busy src amt t t' \<longleftrightarrow> (\<exists>h w w' deadline v r s'. quiet busy h \<and> guard (htlc w) = busy \<and>
     run_token h (permit P src (this_address P) amt deadline v r s' t) w = Inr ((), w') \<and> tok w' = t')"

definition created :: "('g, 't) evm \<Rightarrow> 'g \<Rightarrow> uint256 \<Rightarrow> bytes32 \<Rightarrow> LockContract \<Rightarrow> ('g, 't) world \<Rightarrow> ('g, 't) world \<Rightarrow> bool" where
  "created P busy now i c w w' \<longleftrightarrow>
     amount (contracts (htlc w) i) = 0 \<and> receiver c \<noteq> 0 \<and> amount c \<noteq> 0 \<and> unat now + 3600 \<le> unat (timelock c) \<and>
     \<not> withdrawn c \<and> \<not> refunded c \<and> preimage c = 0 \<and>
     i = keccak256 P (encode_id (sender c) (receiver c) (amount c) (hashlock c) (timelock c) (nonces (htlc w) (sender c))) \<and>
     nonces (htlc w) (sender c) \<noteq> - 1 \<and>
     htlc w' = (htlc w)\<lparr>nonces := (nonces (htlc w))(sender c := nonces (htlc w) (sender c) + 1),
                        contracts := (contracts (htlc w))(i := c)\<rparr> \<and>
     events w' = events w @ [HTLCInitiate i (sender c) (receiver c) (amount c) (hashlock c) (timelock c)] \<and>
     (\<exists>t. (t = tok w \<or> permits P busy (sender c) (amount c) (tok w) t) \<and> pulls P busy (sender c) (amount c) t (tok w'))"

definition claimed :: "('g, 't) evm \<Rightarrow> 'g \<Rightarrow> uint256 \<Rightarrow> bytes32 \<Rightarrow> bytes32 \<Rightarrow> ('g, 't) world \<Rightarrow> ('g, 't) world \<Rightarrow> bool" where
  "claimed P busy now i pre w w' \<longleftrightarrow> (let c = contracts (htlc w) i in
     amount c \<noteq> 0 \<and> \<not> withdrawn c \<and> \<not> refunded c \<and> pre \<noteq> 0 \<and> now < timelock c \<and> sha256_word pre = hashlock c \<and>
     htlc w' = (htlc w)\<lparr>contracts := (contracts (htlc w))(i := c\<lparr>preimage := pre, withdrawn := True\<rparr>)\<rparr> \<and>
     events w' = events w @ [HTLCWithdraw i pre] \<and> pays P busy (receiver c) (amount c) (tok w) (tok w'))"

definition returned :: "('g, 't) evm \<Rightarrow> 'g \<Rightarrow> uint256 \<Rightarrow> bytes32 \<Rightarrow> ('g, 't) world \<Rightarrow> ('g, 't) world \<Rightarrow> bool" where
  "returned P busy now i w w' \<longleftrightarrow> (let c = contracts (htlc w) i in
     amount c \<noteq> 0 \<and> \<not> withdrawn c \<and> \<not> refunded c \<and> timelock c \<le> now \<and>
     htlc w' = (htlc w)\<lparr>contracts := (contracts (htlc w))(i := c\<lparr>refunded := True\<rparr>)\<rparr> \<and>
     events w' = events w @ [HTLCRefund i] \<and> pays P busy (sender c) (amount c) (tok w) (tok w'))"

lemma nonReentrant_Inr:
  assumes "guard_laws P idle busy" and "guard (htlc w) = idle" and "nonReentrant P body w = Inr (a, w')"
  shows "\<exists>w2. body (w\<lparr>htlc := (htlc w)\<lparr>guard := busy\<rparr>\<rparr>) = Inr (a, w2) \<and>
    w' = w2\<lparr>htlc := (htlc w2)\<lparr>guard := nonReentrantAfter P (guard (htlc w2))\<rparr>\<rparr>"
  using assms by (auto simp: nonReentrant_def guard_laws_def split: sum.splits)

lemma withdraw_effect:
  assumes g: "guard_laws P idle busy" "guard (htlc w) = idle" and q: "quiet busy h"
    and r: "withdraw P h now i pre w = Inr (u, w')"
  shows "claimed P busy now i pre w w'"
proof -
  define v where "v = w\<lparr>htlc := (htlc w)\<lparr>guard := busy\<rparr>\<rparr>"
  define c where "c = contracts (htlc w) i"
  define m where "m = emit (HTLCWithdraw i pre) (store i (c\<lparr>preimage := pre, withdrawn := True\<rparr>) v)"
  from nonReentrant_Inr [OF g r [unfolded withdraw_def]] obtain w2 where
    b: "amount c \<noteq> 0" "\<not> withdrawn c" "\<not> refunded c" "pre \<noteq> 0" "now < timelock c" "sha256_word pre = hashlock c"
    and run: "run_token h (safeTransfer P (receiver c) (amount c) (tok m)) m = Inr (u, w2)"
    and w': "w' = w2\<lparr>htlc := (htlc w2)\<lparr>guard := nonReentrantAfter P (guard (htlc w2))\<rparr>\<rparr>"
    by (auto simp: Let_def c_def m_def v_def not_le split: if_splits)
  have m: "guard (htlc m) = busy" "tok m = tok w" by (simp_all add: m_def v_def emit_def store_def)
  have keep: "htlc w2 = htlc m \<and> events w2 = events m" by (rule run_token_quiet [OF q m(1) run])
  have "pays P busy (receiver c) (amount c) (tok w) (tok w2)"
    unfolding pays_def using q m run by auto
  then show ?thesis using b keep g m(1)
    by (simp add: claimed_def c_def [symmetric] w') (simp add: m_def v_def emit_def store_def c_def guard_laws_def)
qed

lemma refund_effect:
  assumes g: "guard_laws P idle busy" "guard (htlc w) = idle" and q: "quiet busy h"
    and r: "refund P h now i w = Inr (u, w')"
  shows "returned P busy now i w w'"
proof -
  define v where "v = w\<lparr>htlc := (htlc w)\<lparr>guard := busy\<rparr>\<rparr>"
  define c where "c = contracts (htlc w) i"
  define m where "m = emit (HTLCRefund i) (store i (c\<lparr>refunded := True\<rparr>) v)"
  from nonReentrant_Inr [OF g r [unfolded refund_def]] obtain w2 where
    b: "amount c \<noteq> 0" "\<not> withdrawn c" "\<not> refunded c" "timelock c \<le> now"
    and run: "run_token h (safeTransfer P (sender c) (amount c) (tok m)) m = Inr (u, w2)"
    and w': "w' = w2\<lparr>htlc := (htlc w2)\<lparr>guard := nonReentrantAfter P (guard (htlc w2))\<rparr>\<rparr>"
    by (auto simp: Let_def c_def m_def v_def not_less split: if_splits)
  have m: "guard (htlc m) = busy" "tok m = tok w" by (simp_all add: m_def v_def emit_def store_def)
  have keep: "htlc w2 = htlc m \<and> events w2 = events m" by (rule run_token_quiet [OF q m(1) run])
  have "pays P busy (sender c) (amount c) (tok w) (tok w2)"
    unfolding pays_def using q m run by auto
  then show ?thesis using b keep g m(1)
    by (simp add: returned_def c_def [symmetric] w') (simp add: m_def v_def emit_def store_def c_def guard_laws_def)
qed

lemma timelock_bound:
  fixes now time :: uint256
  assumes "unat now + unat MIN_LOCKTIME < 2 ^ 256" and "now + MIN_LOCKTIME \<le> time"
  shows "unat now + 3600 \<le> unat time"
  using assms unat_add_small [of now MIN_LOCKTIME] by (simp add: MIN_LOCKTIME_def word_le_nat_alt)

text \<open>The body shared by \<open>initiate\<close> and \<open>initiateWithPermit\<close>, run with the guard taken.\<close>

definition opened ::
  "('g, 't) evm \<Rightarrow> 'g \<Rightarrow> uint256 \<Rightarrow> bytes32 \<Rightarrow> LockContract \<Rightarrow> ('g, 't) world \<Rightarrow> ('g, 't) world \<Rightarrow> bool" where
  "opened P busy now i c v w2 \<longleftrightarrow>
    amount (contracts (htlc v) i) = 0 \<and> receiver c \<noteq> 0 \<and> amount c \<noteq> 0 \<and> unat now + 3600 \<le> unat (timelock c) \<and>
    \<not> withdrawn c \<and> \<not> refunded c \<and> preimage c = 0 \<and>
    i = keccak256 P (encode_id (sender c) (receiver c) (amount c) (hashlock c) (timelock c) (nonces (htlc v) (sender c))) \<and>
    nonces (htlc v) (sender c) \<noteq> - 1 \<and>
    htlc w2 = (htlc v)\<lparr>nonces := (nonces (htlc v))(sender c := nonces (htlc v) (sender c) + 1),
                       contracts := (contracts (htlc v))(i := c)\<rparr> \<and>
    events w2 = events v @ [HTLCInitiate i (sender c) (receiver c) (amount c) (hashlock c) (timelock c)] \<and>
    pulls P busy (sender c) (amount c) (tok v) (tok w2)"

lemma initiate_internal_effect:
  assumes q: "quiet busy h" and g: "guard (htlc v) = busy"
    and r: "initiate_internal P h now src rcv hash time amt v = Inr (i, w2)"
  shows "\<exists>c. opened P busy now i c v w2 \<and> sender c = src \<and> amount c = amt"
proof -
  define c where "c = \<lparr>sender = src, receiver = rcv, amount = amt, hashlock = hash, timelock = time,
    withdrawn = False, refunded = False, preimage = 0\<rparr>"
  define j where "j = keccak256 P (encode_id src rcv amt hash time (nonces (htlc v) src))"
  define m where "m = emit (HTLCInitiate j src rcv amt hash time)
    (store j c (v\<lparr>htlc := (htlc v)\<lparr>nonces := (nonces (htlc v))(src := nonces (htlc v) src + 1)\<rparr>\<rparr>))"
  have b: "rcv \<noteq> 0" "amt \<noteq> 0" "unat now + unat MIN_LOCKTIME < 2 ^ 256" "now + MIN_LOCKTIME \<le> time"
    "nonces (htlc v) src \<noteq> - 1" "amount (contracts (htlc v) j) = 0"
    and run: "bind_tx (run_token h (safeTransferFrom P src (this_address P) amt (tok m))) (\<lambda>_ w4. Inr (j, w4)) m = Inr (i, w2)"
    using r by (auto simp: initiate_internal_def Let_def c_def j_def m_def not_le not_less split: if_splits)
  from run have i: "i = j" and run': "run_token h (safeTransferFrom P src (this_address P) amt (tok m)) m = Inr ((), w2)"
    by (auto simp: bind_tx_def split: sum.splits)
  have m: "guard (htlc m) = busy" "tok m = tok v" using g by (simp_all add: m_def emit_def store_def)
  have keep: "htlc w2 = htlc m \<and> events w2 = events m" by (rule run_token_quiet [OF q m(1) run'])
  have "pulls P busy src amt (tok v) (tok w2)" unfolding pulls_def using q m run' by auto
  then show ?thesis using b(1,2,5,6) timelock_bound [OF b(3,4)] keep i
    by (intro exI [of _ c]) (simp add: opened_def c_def j_def m_def emit_def store_def)
qed

lemma initiate_effect:
  assumes g: "guard_laws P idle busy" "guard (htlc w) = idle" and q: "quiet busy h"
    and r: "initiate P h now src rcv hash time amt w = Inr (i, w')"
  shows "\<exists>c. created P busy now i c w w' \<and> sender c = src"
proof -
  define v where "v = w\<lparr>htlc := (htlc w)\<lparr>guard := busy\<rparr>\<rparr>"
  from nonReentrant_Inr [OF g r [unfolded initiate_def]] obtain w2 where
    run: "initiate_internal P h now src rcv hash time amt v = Inr (i, w2)"
    and w': "w' = w2\<lparr>htlc := (htlc w2)\<lparr>guard := nonReentrantAfter P (guard (htlc w2))\<rparr>\<rparr>"
    by (auto simp: v_def)
  have v: "guard (htlc v) = busy" by (simp add: v_def)
  obtain c where c: "opened P busy now i c v w2" "sender c = src" using initiate_internal_effect [OF q v run] by blast
  then have "created P busy now i c w w'" using g by (auto simp: opened_def created_def v_def w' guard_laws_def)
  then show ?thesis using c(2) by blast
qed

lemma initiateWithPermit_effect:
  assumes g: "guard_laws P idle busy" "guard (htlc w) = idle" and q: "quiet busy h"
    and r: "initiateWithPermit P h now src rcv hash time amt deadline vv rr ss w = Inr (i, w')"
  shows "\<exists>c. created P busy now i c w w' \<and> sender c = src"
proof -
  define v where "v = w\<lparr>htlc := (htlc w)\<lparr>guard := busy\<rparr>\<rparr>"
  from nonReentrant_Inr [OF g r [unfolded initiateWithPermit_def]] obtain v1 w2 where
    p: "run_token h (permit P src (this_address P) amt deadline vv rr ss (tok w)) v = Inr ((), v1)"
    and run: "initiate_internal P h now src rcv hash time amt v1 = Inr (i, w2)"
    and w': "w' = w2\<lparr>htlc := (htlc w2)\<lparr>guard := nonReentrantAfter P (guard (htlc w2))\<rparr>\<rparr>"
    by (auto simp: v_def bind_tx_def split: sum.splits)
  have v: "guard (htlc v) = busy" by (simp add: v_def)
  have k: "htlc v1 = htlc v \<and> events v1 = events v" by (rule run_token_quiet [OF q v p])
  have pm: "permits P busy src amt (tok w) (tok v1)" unfolding permits_def using q v p by blast
  have v1: "guard (htlc v1) = busy" using k v by simp
  obtain c where c: "opened P busy now i c v1 w2" "sender c = src" "amount c = amt"
    using initiate_internal_effect [OF q v1 run] by blast
  then have "created P busy now i c w w'" using g pm k by (auto simp: opened_def created_def v_def w' guard_laws_def)
  then show ?thesis using c(2) by blast
qed

lemma message_call_effect:
  assumes g: "guard_laws P idle busy" "guard (htlc w) = idle" and r: "message_call P n now src e w = (r, w')"
  shows "w' = w \<or> (\<exists>i c. created P busy now i c w w' \<and> sender c = src) \<or> (\<exists>i pre. claimed P busy now i pre w w') \<or>
    (\<exists>i. returned P busy now i w w')"
proof (cases n)
  case (Suc d)
  let ?h = "message_call P d now"
  note q = quiet_message_call [OF g(1), of d now]
  have d: "dispatch P ?h now src e w = (r, w')" using r Suc by simp
  show ?thesis
  proof (cases e)
    case (Initiate rcv hash time amt)
    then show ?thesis using d by (cases "initiate P ?h now src rcv hash time amt w") (auto simp: returning_def dest!: initiate_effect [OF g q])
  next
    case (InitiateWithPermit rcv hash time amt deadline vv rr ss)
    then show ?thesis using d by (cases "initiateWithPermit P ?h now src rcv hash time amt deadline vv rr ss w") (auto simp: returning_def dest!: initiateWithPermit_effect [OF g q])
  next
    case (Withdraw i pre)
    then show ?thesis using d by (cases "withdraw P ?h now i pre w") (auto simp: returning_def dest!: withdraw_effect [OF g q])
  next
    case (Refund i)
    then show ?thesis using d by (cases "refund P ?h now i w") (auto simp: returning_def dest!: refund_effect [OF g q])
  qed (use d in simp)
qed (use r in simp)

section \<open>Reachable worlds\<close>

text \<open>A world is reached by deploying the contract, by calls from any account other than the contract
  itself and the null address, at times that never decrease, and by movements of the token that do
  not take tokens from the contract, which never approves a spender.\<close>

inductive reachable_htlc :: "('g, 't) evm \<Rightarrow> 'g \<Rightarrow> ('t \<Rightarrow> address \<Rightarrow> nat) \<Rightarrow> uint256 \<Rightarrow> ('g, 't) world \<Rightarrow> bool"
  for P idle balanceOf where
  deployed: "constructor idle token = Inr st \<Longrightarrow> reachable_htlc P idle balanceOf now \<lparr>htlc = st, tok = t, events = []\<rparr>"
| called: "\<lbrakk>reachable_htlc P idle balanceOf now w; now \<le> now'; src \<noteq> this_address P; src \<noteq> 0;
     message_call P depth now' src e w = (r, w')\<rbrakk> \<Longrightarrow> reachable_htlc P idle balanceOf now' w'"
| token_moved: "\<lbrakk>reachable_htlc P idle balanceOf now w; now \<le> now';
     balanceOf (tok w) (this_address P) \<le> balanceOf t (this_address P)\<rbrakk> \<Longrightarrow>
     reachable_htlc P idle balanceOf now' (w\<lparr>tok := t\<rparr>)"

text \<open>The invariant: of a lock, relative to the present time; of the event log; and of the storage.\<close>

definition lock_ok :: "uint256 \<Rightarrow> LockContract \<Rightarrow> bool" where
  "lock_ok now c \<longleftrightarrow>
     (amount c = 0 \<longrightarrow> c = no_lock) \<and> (amount c \<noteq> 0 \<longrightarrow> receiver c \<noteq> 0 \<and> sender c \<noteq> 0) \<and>
     \<not> (withdrawn c \<and> refunded c) \<and>
     (withdrawn c \<longleftrightarrow> preimage c \<noteq> 0) \<and> (withdrawn c \<longrightarrow> sha256_word (preimage c) = hashlock c) \<and>
     (refunded c \<longrightarrow> timelock c \<le> now)"

fun recorded :: "(bytes32 \<Rightarrow> LockContract) \<Rightarrow> event \<Rightarrow> bool" where
  "recorded cs (HTLCInitiate i a b n hash time) = (amount (cs i) \<noteq> 0 \<and> sender (cs i) = a \<and> receiver (cs i) = b \<and>
     amount (cs i) = n \<and> hashlock (cs i) = hash \<and> timelock (cs i) = time)"
| "recorded cs (HTLCWithdraw i p) = (withdrawn (cs i) \<and> preimage (cs i) = p)"
| "recorded cs (HTLCRefund i) = refunded (cs i)"

definition htlc_inv :: "'g \<Rightarrow> uint256 \<Rightarrow> ('g, 't) world \<Rightarrow> bool" where
  "htlc_inv idle now w \<longleftrightarrow> guard (htlc w) = idle \<and> TOKEN (htlc w) \<noteq> 0 \<and>
     finite {i. amount (contracts (htlc w) i) \<noteq> 0} \<and> (\<forall>i. lock_ok now (contracts (htlc w) i)) \<and>
     (\<forall>ev. ev \<in> set (events w) \<longleftrightarrow> recorded (contracts (htlc w)) ev) \<and> distinct (events w)"

lemma lock_ok_later: "lock_ok now c \<Longrightarrow> now \<le> now' \<Longrightarrow> lock_ok now' c"
  by (auto simp: lock_ok_def intro: order_trans)

lemma lock_ok_no_lock: "lock_ok now no_lock"
  by (simp add: lock_ok_def no_lock_def)

lemma htlc_inv_later: "htlc_inv idle now w \<Longrightarrow> now \<le> now' \<Longrightarrow> htlc_inv idle now' w"
  by (auto simp: htlc_inv_def intro: lock_ok_later)

lemma finite_update: "finite {i. amount (cs i) \<noteq> 0} \<Longrightarrow> finite {i. amount ((cs(j := c)) i) \<noteq> 0}"
  by (rule finite_subset [of _ "insert j {i. amount (cs i) \<noteq> 0}"]) auto

lemma recorded_created:
  assumes "cs i = no_lock" and "\<not> withdrawn c" and "\<not> refunded c" and "amount c \<noteq> 0"
  shows "recorded (cs(i := c)) ev \<longleftrightarrow>
    recorded cs ev \<or> ev = HTLCInitiate i (sender c) (receiver c) (amount c) (hashlock c) (timelock c)"
  using assms by (cases ev) (auto simp: no_lock_def)

lemma recorded_claimed:
  assumes "\<not> withdrawn (cs i)"
  shows "recorded (cs(i := (cs i)\<lparr>preimage := p, withdrawn := True\<rparr>)) ev \<longleftrightarrow> recorded cs ev \<or> ev = HTLCWithdraw i p"
  using assms by (cases ev) auto

lemma recorded_returned:
  assumes "\<not> refunded (cs i)"
  shows "recorded (cs(i := (cs i)\<lparr>refunded := True\<rparr>)) ev \<longleftrightarrow> recorded cs ev \<or> ev = HTLCRefund i"
  using assms by (cases ev) auto

text \<open>Each successful call keeps the invariant.\<close>

lemma created_inv:
  assumes "htlc_inv idle now w" and "created P busy now i c w w'" and "sender c \<noteq> 0"
  shows "htlc_inv idle now w'"
proof -
  note c = assms(2) [unfolded created_def]
  have i: "contracts (htlc w) i = no_lock" using assms(1) c by (auto simp: htlc_inv_def lock_ok_def)
  have "lock_ok now c" using c assms(3) by (simp add: lock_ok_def)
  moreover have "\<not> recorded (contracts (htlc w)) (HTLCInitiate i (sender c) (receiver c) (amount c) (hashlock c) (timelock c))"
    using i by (simp add: no_lock_def)
  ultimately show ?thesis
    using assms(1) c recorded_created [of "contracts (htlc w)" i c] i finite_update [of "contracts (htlc w)" i c]
    unfolding htlc_inv_def by (auto simp del: recorded.simps)
qed

lemma claimed_inv:
  assumes "htlc_inv idle now w" and "claimed P busy now i pre w w'"
  shows "htlc_inv idle now w'"
proof -
  let ?c = "contracts (htlc w) i"
  note c = assms(2) [unfolded claimed_def Let_def]
  have "lock_ok now (?c\<lparr>preimage := pre, withdrawn := True\<rparr>)"
    using assms(1) c by (auto simp: htlc_inv_def lock_ok_def)
  moreover have "\<not> recorded (contracts (htlc w)) (HTLCWithdraw i pre)" using c by simp
  ultimately show ?thesis
    using assms(1) c recorded_claimed [of "contracts (htlc w)" i pre] finite_update [of "contracts (htlc w)" i "?c\<lparr>preimage := pre, withdrawn := True\<rparr>"]
    unfolding htlc_inv_def by (auto simp del: recorded.simps)
qed

lemma returned_inv:
  assumes "htlc_inv idle now w" and "returned P busy now i w w'"
  shows "htlc_inv idle now w'"
proof -
  let ?c = "contracts (htlc w) i"
  note c = assms(2) [unfolded returned_def Let_def]
  have "lock_ok now (?c\<lparr>refunded := True\<rparr>)" using assms(1) c by (auto simp: htlc_inv_def lock_ok_def)
  moreover have "\<not> recorded (contracts (htlc w)) (HTLCRefund i)" using c by simp
  ultimately show ?thesis
    using assms(1) c recorded_returned [of "contracts (htlc w)" i] finite_update [of "contracts (htlc w)" i "?c\<lparr>refunded := True\<rparr>"]
    unfolding htlc_inv_def by (auto simp del: recorded.simps)
qed

lemma constructor_Inr: "constructor g token = Inr st \<Longrightarrow>
    token \<noteq> 0 \<and> st = \<lparr>TOKEN = token, nonces = (\<lambda>_. 0), contracts = (\<lambda>_. no_lock), guard = g\<rparr>"
  by (auto simp: constructor_def split: if_splits)

lemma reachable_htlc_inv:
  assumes "guard_laws P idle busy" and "reachable_htlc P idle balanceOf now w"
  shows "htlc_inv idle now w"
  using assms(2)
proof induction
  case (deployed token st now t)
  have "\<not> recorded (\<lambda>_. no_lock) ev" for ev by (cases ev) (simp_all add: no_lock_def)
  moreover have "amount no_lock = 0" by (simp add: no_lock_def)
  ultimately show ?case using constructor_Inr [OF deployed] by (simp add: htlc_inv_def lock_ok_no_lock)
next
  case (called now w now' src depth e r w')
  have i: "htlc_inv idle now' w" by (rule htlc_inv_later [OF called.IH called.hyps(2)])
  then have "guard (htlc w) = idle" by (simp add: htlc_inv_def)
  from message_call_effect [OF assms(1) this called.hyps(5)]
  consider "w' = w" | i c where "created P busy now' i c w w'" "sender c = src"
    | i pre where "claimed P busy now' i pre w w'" | i where "returned P busy now' i w w'" by blast
  then show ?case
  proof cases
    case 2
    then show ?thesis using created_inv [OF i] called.hyps(4) by simp
  qed (use i claimed_inv [OF i] returned_inv [OF i] in \<open>auto\<close>)
next
  case (token_moved now w now' t)
  have "htlc_inv idle now' w" by (rule htlc_inv_later [OF token_moved.IH token_moved.hyps(2)])
  then show ?case by (simp add: htlc_inv_def)
qed

section \<open>Solvency\<close>

text \<open>What ERC-20 promises of the token and \<open>balanceOf\<close>: a transfer moves exactly the amount, a permit
  moves nothing. Calls that revert promise nothing.\<close>

definition move :: "(address \<Rightarrow> nat) \<Rightarrow> address \<Rightarrow> address \<Rightarrow> nat \<Rightarrow> address \<Rightarrow> nat" where
  "move bal a b n = (let bal' = bal(a := bal a - n) in bal'(b := bal' b + n))"

definition standard_token :: "('g, 't) evm \<Rightarrow> 'g \<Rightarrow> ('t \<Rightarrow> address \<Rightarrow> nat) \<Rightarrow> bool" where
  "standard_token P busy balanceOf \<longleftrightarrow>
     (\<forall>a amt t t'. pays P busy a amt t t' \<longrightarrow>
        unat amt \<le> balanceOf t (this_address P) \<and> balanceOf t' = move (balanceOf t) (this_address P) a (unat amt)) \<and>
     (\<forall>a amt t t'. pulls P busy a amt t t' \<longrightarrow>
        unat amt \<le> balanceOf t a \<and> balanceOf t' = move (balanceOf t) a (this_address P) (unat amt)) \<and>
     (\<forall>a amt t t'. permits P busy a amt t t' \<longrightarrow> balanceOf t' = balanceOf t)"

text \<open>What the contract owes for a lock, and in total.\<close>

definition owed :: "LockContract \<Rightarrow> nat" where
  "owed c = (if withdrawn c \<or> refunded c then 0 else unat (amount c))"

definition total_owed :: "(bytes32 \<Rightarrow> LockContract) \<Rightarrow> nat" where
  "total_owed cs = (\<Sum>i\<in>{i. amount (cs i) \<noteq> 0}. owed (cs i))"

lemma owed_no_amount: "amount c = 0 \<Longrightarrow> owed c = 0"
  by (simp add: owed_def)

lemma total_owed_superset:
  assumes "finite S" and "{i. amount (cs i) \<noteq> 0} \<subseteq> S"
  shows "total_owed cs = (\<Sum>i\<in>S. owed (cs i))"
  unfolding total_owed_def using assms owed_no_amount by (intro sum.mono_neutral_left) auto

lemma total_owed_update:
  assumes "finite {i. amount (cs i) \<noteq> 0}"
  shows "total_owed (cs(j := c)) + owed (cs j) = total_owed cs + owed c"
proof -
  let ?S = "insert j {i. amount (cs i) \<noteq> 0}"
  have S: "finite ?S" using assms by simp
  have "total_owed (cs(j := c)) = (\<Sum>i\<in>?S. owed ((cs(j := c)) i))"
    by (rule total_owed_superset [OF S]) auto
  also have "\<dots> = owed c + (\<Sum>i\<in>?S - {j}. owed ((cs(j := c)) i))"
    using sum.remove [OF S, of j "\<lambda>i. owed ((cs(j := c)) i)"] by simp
  also have "(\<Sum>i\<in>?S - {j}. owed ((cs(j := c)) i)) = (\<Sum>i\<in>?S - {j}. owed (cs i))"
    by (rule sum.cong) auto
  finally have "total_owed (cs(j := c)) = owed c + (\<Sum>i\<in>?S - {j}. owed (cs i))" .
  moreover have "total_owed cs = (\<Sum>i\<in>?S. owed (cs i))" by (rule total_owed_superset [OF S]) auto
  then have "total_owed cs = owed (cs j) + (\<Sum>i\<in>?S - {j}. owed (cs i))"
    using sum.remove [OF S, of j "\<lambda>i. owed (cs i)"] by simp
  ultimately show ?thesis by simp
qed

definition solvent :: "('g, 't) evm \<Rightarrow> ('t \<Rightarrow> address \<Rightarrow> nat) \<Rightarrow> ('g, 't) world \<Rightarrow> bool" where
  "solvent P balanceOf w \<longleftrightarrow> total_owed (contracts (htlc w)) \<le> balanceOf (tok w) (this_address P)"

lemma created_solvent:
  assumes "standard_token P busy balanceOf" and "htlc_inv idle now w" and "created P busy now i c w w'"
    and "sender c \<noteq> this_address P" and "solvent P balanceOf w"
  shows "solvent P balanceOf w'"
proof -
  note c = assms(3) [unfolded created_def]
  obtain t where t: "t = tok w \<or> permits P busy (sender c) (amount c) (tok w) t"
    "pulls P busy (sender c) (amount c) t (tok w')" using c by blast
  then have "balanceOf t = balanceOf (tok w)" using assms(1) by (auto simp: standard_token_def)
  then have "balanceOf (tok w') (this_address P) = balanceOf (tok w) (this_address P) + unat (amount c)"
    using t(2) assms(1,4) by (auto simp: standard_token_def move_def)
  moreover have "total_owed (contracts (htlc w')) + owed (contracts (htlc w) i) = total_owed (contracts (htlc w)) + owed c"
    using c assms(2) total_owed_update [of "contracts (htlc w)" i c] by (simp add: htlc_inv_def)
  ultimately show ?thesis using assms(5) c by (simp add: solvent_def owed_def)
qed

lemma settled_solvent:
  assumes "standard_token P busy balanceOf" and "htlc_inv idle now w" and "solvent P balanceOf w"
    and "contracts (htlc w') = (contracts (htlc w))(i := c')" and "owed c' = 0"
    and "owed (contracts (htlc w) i) = unat (amount (contracts (htlc w) i))"
    and "pays P busy a (amount (contracts (htlc w) i)) (tok w) (tok w')"
  shows "solvent P balanceOf w'"
proof -
  let ?n = "unat (amount (contracts (htlc w) i))"
  have "balanceOf (tok w') (this_address P) \<ge> balanceOf (tok w) (this_address P) - ?n"
    using assms(1,7) by (auto simp: standard_token_def move_def Let_def)
  moreover have "total_owed (contracts (htlc w')) + ?n = total_owed (contracts (htlc w))"
    using assms(2,4,5,6) total_owed_update [of "contracts (htlc w)" i c'] by (simp add: htlc_inv_def)
  ultimately show ?thesis using assms(3) by (simp add: solvent_def)
qed

lemma reachable_solvent:
  assumes g: "guard_laws P idle busy" and st: "standard_token P busy balanceOf"
    and r: "reachable_htlc P idle balanceOf now w"
  shows "solvent P balanceOf w"
  using r
proof induction
  case (deployed token st now t)
  then show ?case using constructor_Inr [OF deployed]
    by (simp add: solvent_def total_owed_def no_lock_def)
next
  case (called now w now' src depth e r w')
  have i: "htlc_inv idle now' w" using htlc_inv_later [OF reachable_htlc_inv [OF g called.hyps(1)] called.hyps(2)] .
  then have "guard (htlc w) = idle" by (simp add: htlc_inv_def)
  from message_call_effect [OF g this called.hyps(5)]
  consider "w' = w" | i c where "created P busy now' i c w w'" "sender c = src"
    | i pre where "claimed P busy now' i pre w w'" | i where "returned P busy now' i w w'" by blast
  then show ?case
  proof cases
    case 2
    then show ?thesis using created_solvent [OF st i] called.IH called.hyps(3) by simp
  next
    case (3 j pre)
    then show ?thesis
      by (intro settled_solvent [OF st i called.IH, of w' j]) (auto simp: claimed_def Let_def owed_def)
  next
    case (4 j)
    then show ?thesis
      by (intro settled_solvent [OF st i called.IH, of w' j]) (auto simp: returned_def Let_def owed_def)
  qed (use called.IH in simp)
next
  case (token_moved now w now' t)
  then show ?case by (simp add: solvent_def)
qed

end
