(* ===== verification/Htlc_Safety.thy ===== *)
theory Htlc_Safety
  imports Htlc
begin

text \<open>
  What the lock contract guarantees: no reentrancy, one settlement per lock and at the right time,
  an event log that mirrors storage, solvency, settlement of every open lock, unique identifiers.
  The examples run the contract against a plain token and against one that calls back.
\<close>

section \<open>Worlds that follow one another\<close>

inductive evolves :: "('g, 't) evm \<Rightarrow> uint256 \<Rightarrow> ('g, 't) world \<Rightarrow> uint256 \<Rightarrow> ('g, 't) world \<Rightarrow> bool"
  for P now w where
  same: "evolves P now w now w"
| call: "\<lbrakk>evolves P now w now1 w1; now1 \<le> now2; message_call P depth now2 src e w1 = (r, w2)\<rbrakk> \<Longrightarrow>
     evolves P now w now2 w2"
| token: "\<lbrakk>evolves P now w now1 w1; now1 \<le> now2\<rbrakk> \<Longrightarrow> evolves P now w now2 (w1\<lparr>tok := t\<rparr>)"

definition same_terms :: "LockContract \<Rightarrow> LockContract \<Rightarrow> bool" where
  "same_terms c d \<longleftrightarrow> sender c = sender d \<and> receiver c = receiver d \<and> amount c = amount d \<and>
     hashlock c = hashlock d \<and> timelock c = timelock d"

lemma call_keeps_locks:
  assumes g: "guard_laws P idle busy" "guard (htlc w) = idle" and r: "message_call P n now src e w = (r, w')"
    and a: "amount (contracts (htlc w) i) \<noteq> 0"
  shows "guard (htlc w') = idle \<and> same_terms (contracts (htlc w) i) (contracts (htlc w') i) \<and>
    (withdrawn (contracts (htlc w) i) \<or> refunded (contracts (htlc w) i) \<longrightarrow> contracts (htlc w') i = contracts (htlc w) i)"
  using message_call_effect [OF g r] a g(2)
  by (auto simp: created_def claimed_def returned_def Let_def same_terms_def)

lemma evolves_keeps_locks:
  assumes g: "guard_laws P idle busy" "guard (htlc w) = idle" and e: "evolves P now w now' w'"
    and a: "amount (contracts (htlc w) i) \<noteq> 0"
  shows "guard (htlc w') = idle \<and> same_terms (contracts (htlc w) i) (contracts (htlc w') i) \<and>
    (withdrawn (contracts (htlc w) i) \<or> refunded (contracts (htlc w) i) \<longrightarrow> contracts (htlc w') i = contracts (htlc w) i)"
  using e
proof induction
  case (call now1 w1 now2 depth src e r w2)
  have g1: "guard (htlc w1) = idle" and t: "same_terms (contracts (htlc w) i) (contracts (htlc w1) i)"
    and k: "withdrawn (contracts (htlc w) i) \<or> refunded (contracts (htlc w) i) \<Longrightarrow> contracts (htlc w1) i = contracts (htlc w) i"
    using call.IH by blast+
  have "amount (contracts (htlc w1) i) \<noteq> 0" using t a by (simp add: same_terms_def)
  from call_keeps_locks [OF g(1) g1 call.hyps(3) this]
  have g2: "guard (htlc w2) = idle" and t2: "same_terms (contracts (htlc w1) i) (contracts (htlc w2) i)"
    and k2: "withdrawn (contracts (htlc w1) i) \<or> refunded (contracts (htlc w1) i) \<Longrightarrow> contracts (htlc w2) i = contracts (htlc w1) i"
    by blast+
  have "same_terms (contracts (htlc w) i) (contracts (htlc w2) i)" using t t2 by (simp add: same_terms_def)
  then show ?case using g2 k k2 by metis
qed (use g in \<open>simp_all add: same_terms_def\<close>)

section \<open>Identifiers\<close>

definition lock_id :: "('g, 't) evm \<Rightarrow> LockContract \<Rightarrow> uint256 \<Rightarrow> bytes32" where
  "lock_id P c k = keccak256 P (encode_id (sender c) (receiver c) (amount c) (hashlock c) (timelock c) k)"

definition id_inv :: "('g, 't) evm \<Rightarrow> 'g HTLC \<Rightarrow> bool" where
  "id_inv P st \<longleftrightarrow> (\<forall>i. amount (contracts st i) \<noteq> 0 \<longrightarrow>
     (\<exists>k. k < nonces st (sender (contracts st i)) \<and> i = lock_id P (contracts st i) k))"

lemma be_bytes_length [simp]: "length (be_bytes n x) = n"
  by (simp add: be_bytes_def)

lemma be_bytes_word_inj:
  fixes x y :: "'a::len word"
  assumes "be_bytes n (unat x) = be_bytes n (unat y)" and "LENGTH('a) \<le> 8 * n"
  shows "x = y"
proof -
  have "unat z < 256 ^ n" for z :: "'a word"
  proof -
    have "unat z < 2 ^ LENGTH('a)" by (rule unsigned_less)
    also have "\<dots> \<le> 2 ^ (8 * n)" using assms(2) by simp
    finally show ?thesis by (simp add: power_mult)
  qed
  then have "unat x = unat y" using assms(1) le_bytes_inj [of "unat x" n "unat y"] by (simp add: be_bytes_def)
  then show ?thesis by (rule unsigned_word_eqI [where ?'a = nat])
qed

lemma encode_id_sender_nonce: "encode_id a b c d e k = encode_id a' b' c' d' e' k' \<Longrightarrow> a = a' \<and> k = k'"
  by (auto simp: encode_id_def intro: be_bytes_word_inj)

lemma length_encode_id: "length (encode_id a b c d e k) = 168"
  by (simp add: encode_id_def)

lemma word_less_Suc: "n \<noteq> (- 1 :: uint256) \<Longrightarrow> k \<le> n \<Longrightarrow> k < n + 1"
proof -
  assume n: "n \<noteq> - 1" and k: "k \<le> n"
  have "unat n \<noteq> unat (- 1 :: uint256)" using n unsigned_word_eqI [where ?'a = nat] by blast
  then have "unat n + unat (1 :: uint256) < 2 ^ LENGTH(256)"
    using unsigned_less [of n, where ?'a = nat] by (simp add: unsigned_minus_1_eq_mask mask_eq_exp_minus_1)
  then show "k < n + 1" using k unat_add_small [of n 1] by (simp add: word_less_nat_alt word_le_nat_alt)
qed

lemma id_inv_created:
  assumes "id_inv P (htlc w)" and "created P busy now i c w w'"
  shows "id_inv P (htlc w')"
  unfolding id_inv_def
proof (intro allI impI)
  fix j
  let ?n = "nonces (htlc w) (sender c)"
  assume a: "amount (contracts (htlc w') j) \<noteq> 0"
  note c = assms(2) [unfolded created_def]
  have up: "k < nonces (htlc w) a \<Longrightarrow> k < nonces (htlc w') a" for k a
    using c word_less_Suc [of ?n k] by auto
  show "\<exists>k<nonces (htlc w') (sender (contracts (htlc w') j)). j = lock_id P (contracts (htlc w') j) k"
  proof (cases "j = i")
    case True
    have "?n < nonces (htlc w') (sender c)" using c word_less_Suc [of ?n ?n] by simp
    then show ?thesis using True c by (intro exI [of _ ?n]) (simp add: lock_id_def)
  next
    case False
    then have j: "contracts (htlc w') j = contracts (htlc w) j" using c by simp
    obtain k where "k < nonces (htlc w) (sender (contracts (htlc w) j))" "j = lock_id P (contracts (htlc w) j) k"
      using assms(1) a j unfolding id_inv_def by auto
    then show ?thesis using up j by auto
  qed
qed

lemma id_inv_settled:
  assumes "id_inv P st" and "contracts st' = (contracts st)(i := d)" and "nonces st' = nonces st"
    and "same_terms (contracts st i) d"
  shows "id_inv P st'"
  unfolding id_inv_def
proof (intro allI impI)
  fix j
  assume a: "amount (contracts st' j) \<noteq> 0"
  have t: "same_terms (contracts st j) (contracts st' j)" using assms(2,4) by (simp add: same_terms_def)
  then have "lock_id P (contracts st' j) = lock_id P (contracts st j)" "sender (contracts st' j) = sender (contracts st j)"
    "amount (contracts st j) \<noteq> 0"
    using a by (auto simp: same_terms_def lock_id_def)
  then show "\<exists>k<nonces st' (sender (contracts st' j)). j = lock_id P (contracts st' j) k"
    using assms(1,3) by (simp add: id_inv_def)
qed

lemma reachable_id_inv:
  assumes g: "guard_laws P idle busy" and r: "reachable_htlc P idle balanceOf now w"
  shows "id_inv P (htlc w)"
  using r
proof induction
  case (deployed token st now t)
  then show ?case using constructor_Inr [OF deployed] by (simp add: id_inv_def no_lock_def)
next
  case (called now w now' src depth e r w')
  have "guard (htlc w) = idle" using reachable_htlc_inv [OF g called.hyps(1)] by (simp add: htlc_inv_def)
  from message_call_effect [OF g this called.hyps(5)]
  consider "w' = w" | i c where "created P busy now' i c w w'"
    | i pre where "claimed P busy now' i pre w w'" | i where "returned P busy now' i w w'" by blast
  then show ?case
  proof cases
    case 2
    then show ?thesis by (rule id_inv_created [OF called.IH])
  next
    case (3 i pre)
    then show ?thesis
      by (intro id_inv_settled [OF called.IH, of "htlc w'" i "contracts (htlc w') i"]) (auto simp: claimed_def Let_def same_terms_def)
  next
    case (4 i)
    then show ?thesis
      by (intro id_inv_settled [OF called.IH, of "htlc w'" i "contracts (htlc w') i"]) (auto simp: returned_def Let_def same_terms_def)
  qed (use called.IH in simp)
qed simp

lemma run_token_error: "run_token h code w = Inl e \<Longrightarrow> e = TokenReverted"
  by (induction code arbitrary: w) (auto split: prod.splits)

lemma initiate_internal_collision:
  assumes "initiate_internal P h now src rcv hash time amt v = Inl ContractIdCollision"
  shows "amount (contracts (htlc v) (keccak256 P (encode_id src rcv amt hash time (nonces (htlc v) src)))) \<noteq> 0"
proof (rule notI)
  assume "amount (contracts (htlc v) (keccak256 P (encode_id src rcv amt hash time (nonces (htlc v) src)))) = 0"
  then obtain code m where "bind_tx (run_token h code) (\<lambda>_ w. Inr (keccak256 P (encode_id src rcv amt hash time (nonces (htlc v) src)), w)) m
      = Inl ContractIdCollision"
    using assms by (simp add: initiate_internal_def Let_def split: if_splits)
  then show False by (cases "run_token h code m") (auto simp: bind_tx_def dest: run_token_error)
qed

section \<open>Settling an open lock\<close>

text \<open>The worlds in which \<open>withdraw\<close> and \<open>refund\<close> call the token, with guard, record and event already
  written, and whether the token accepts a transfer from the contract in such a world. Pausing,
  blacklisting and the like are the token's own business: nothing is assumed of when it accepts.\<close>

definition claim_recorded :: "'g \<Rightarrow> bytes32 \<Rightarrow> bytes32 \<Rightarrow> ('g, 't) world \<Rightarrow> ('g, 't) world" where
  "claim_recorded busy i pre w = emit (HTLCWithdraw i pre)
     (store i ((contracts (htlc w) i)\<lparr>preimage := pre, withdrawn := True\<rparr>) (w\<lparr>htlc := (htlc w)\<lparr>guard := busy\<rparr>\<rparr>))"

definition refund_recorded :: "'g \<Rightarrow> bytes32 \<Rightarrow> ('g, 't) world \<Rightarrow> ('g, 't) world" where
  "refund_recorded busy i w = emit (HTLCRefund i)
     (store i ((contracts (htlc w) i)\<lparr>refunded := True\<rparr>) (w\<lparr>htlc := (htlc w)\<lparr>guard := busy\<rparr>\<rparr>))"

definition token_accepts :: "('g, 't) evm \<Rightarrow> nat \<Rightarrow> uint256 \<Rightarrow> address \<Rightarrow> uint256 \<Rightarrow> ('g, 't) world \<Rightarrow> bool" where
  "token_accepts P n now a amt w =
     (case run_token (message_call P n now) (safeTransfer P a amt (tok w)) w of Inl _ \<Rightarrow> False | Inr _ \<Rightarrow> True)"

definition is_open :: "LockContract \<Rightarrow> bool" where
  "is_open c \<longleftrightarrow> amount c \<noteq> 0 \<and> \<not> withdrawn c \<and> \<not> refunded c"

lemma open_amount_held:
  assumes "htlc_inv idle now w" and "solvent P balanceOf w" and "is_open (contracts (htlc w) i)"
  shows "unat (amount (contracts (htlc w) i)) \<le> balanceOf (tok w) (this_address P)"
proof -
  have "owed (contracts (htlc w) i) \<le> total_owed (contracts (htlc w))"
    using assms(1,3) unfolding total_owed_def by (intro member_le_sum) (auto simp: htlc_inv_def is_open_def)
  then show ?thesis using assms(2,3) by (simp add: solvent_def owed_def is_open_def)
qed

lemma if_cases_mono: "if b then A else C \<Longrightarrow> (A \<Longrightarrow> B) \<Longrightarrow> if b then B else C"
  by (simp split: if_splits)

lemma withdraw_settles:
  assumes g: "guard_laws P idle busy" "guard (htlc w) = idle" and c: "c = contracts (htlc w) i" "is_open c"
  shows "if now < timelock c \<and> pre \<noteq> 0 \<and> sha256_word pre = hashlock c \<and>
        token_accepts P n now (receiver c) (amount c) (claim_recorded busy i pre w)
    then \<exists>w'. message_call P (Suc n) now a (Withdraw i pre) w = (ReturnsNothing, w') \<and> claimed P busy now i pre w w'
    else \<exists>e. message_call P (Suc n) now a (Withdraw i pre) w = (Reverted e, w)"
proof -
  let ?h = "message_call P n now"
  have "withdraw P ?h now i pre w = Inr ((), w') \<Longrightarrow> claimed P busy now i pre w w'" for w'
    by (rule withdraw_effect [OF g quiet_message_call [OF g(1)]])
  then show ?thesis using g c
    by (cases "run_token ?h (safeTransfer P (receiver c) (amount c) (tok w)) (claim_recorded busy i pre w)")
      (auto simp: withdraw_def nonReentrant_def guard_laws_def Let_def is_open_def token_accepts_def claim_recorded_def
        emit_def store_def returning_def not_le)
qed

lemma refund_settles:
  assumes g: "guard_laws P idle busy" "guard (htlc w) = idle" and c: "c = contracts (htlc w) i" "is_open c"
  shows "if timelock c \<le> now \<and> token_accepts P n now (sender c) (amount c) (refund_recorded busy i w)
    then \<exists>w'. message_call P (Suc n) now a (Refund i) w = (ReturnsNothing, w') \<and> returned P busy now i w w'
    else \<exists>e. message_call P (Suc n) now a (Refund i) w = (Reverted e, w)"
proof -
  let ?h = "message_call P n now"
  have "refund P ?h now i w = Inr ((), w') \<Longrightarrow> returned P busy now i w w'" for w'
    by (rule refund_effect [OF g quiet_message_call [OF g(1)]])
  then show ?thesis using g c
    by (cases "run_token ?h (safeTransfer P (sender c) (amount c) (tok w)) (refund_recorded busy i w)")
      (auto simp: refund_def nonReentrant_def guard_laws_def Let_def is_open_def token_accepts_def refund_recorded_def
        emit_def store_def returning_def not_less)
qed

section \<open>An example\<close>

text \<open>A guard that is a flag, a token that is its table of balances, and a hash that always collides.
  Account 3 locks 60 of its 100 tokens for account 4 under the hash of 11; the contract is account 7.\<close>

definition plain_evm :: "(bool, address \<Rightarrow> nat) evm" where
  "plain_evm = \<lparr>this_address = 7, keccak256 = (\<lambda>_. 5),
     nonReentrantBefore = (\<lambda>g. if g then None else Some True), nonReentrantAfter = (\<lambda>_. False),
     safeTransfer = (\<lambda>a amt t. if unat amt \<le> t 7 \<and> a \<noteq> 0 then Finish (move t 7 a (unat amt)) else Fail),
     safeTransferFrom = (\<lambda>a b amt t. if unat amt \<le> t a then Finish (move t a b (unat amt)) else Fail),
     permit = (\<lambda>a b amt deadline v r s' t. Finish t)\<rparr>"

definition example_lock :: LockContract where
  "example_lock = \<lparr>sender = 3, receiver = 4, amount = 60, hashlock = sha256_word 11, timelock = 10000,
     withdrawn = False, refunded = False, preimage = 0\<rparr>"

definition example_start :: "(bool, address \<Rightarrow> nat) world" where
  "example_start = \<lparr>htlc = \<lparr>TOKEN = 9, nonces = (\<lambda>_. 0), contracts = (\<lambda>_. no_lock), guard = False\<rparr>,
     tok = (\<lambda>_. 0)(3 := 100), events = []\<rparr>"

definition example_locked :: "(bool, address \<Rightarrow> nat) world" where
  "example_locked = \<lparr>htlc = \<lparr>TOKEN = 9, nonces = (\<lambda>_. 0)(3 := 1), contracts = (\<lambda>_. no_lock)(5 := example_lock), guard = False\<rparr>,
     tok = (\<lambda>_. 0)(3 := 40, 7 := 60), events = [HTLCInitiate 5 3 4 60 (sha256_word 11) 10000]\<rparr>"

lemma plain_guard_laws: "guard_laws plain_evm False True"
  by (simp add: guard_laws_def plain_evm_def)

lemma plain_standard_token: "standard_token plain_evm True (\<lambda>t. t)"
  by (auto simp: standard_token_def pays_def pulls_def permits_def plain_evm_def split: if_splits)

lemma plain_token_accepts: "token_accepts plain_evm n now a amt w \<longleftrightarrow> unat amt \<le> tok w 7 \<and> a \<noteq> 0"
  by (simp add: token_accepts_def plain_evm_def)

lemma example_initiate:
  "message_call plain_evm (Suc (Suc 0)) 100 3 (Initiate 4 (sha256_word 11) 10000 60) example_start = (ReturnsId 5, example_locked)"
  by (simp add: initiate_def initiate_internal_def nonReentrant_def returning_def bind_tx_def plain_evm_def example_start_def
      MIN_LOCKTIME_def emit_def store_def no_lock_def move_def example_locked_def example_lock_def fun_upd_twist)

lemma example_reachable: "reachable_htlc plain_evm False (\<lambda>t. t) 100 example_locked"
proof -
  have "constructor False 9 = Inr (htlc example_start)" by (simp add: constructor_def example_start_def)
  then have "reachable_htlc plain_evm False (\<lambda>t. t) 50 \<lparr>htlc = htlc example_start, tok = tok example_start, events = []\<rparr>"
    by (rule reachable_htlc.deployed)
  then have "reachable_htlc plain_evm False (\<lambda>t. t) 50 example_start" by (simp add: example_start_def)
  then show ?thesis by (rule reachable_htlc.called [OF _ _ _ _ example_initiate]) (simp_all add: plain_evm_def)
qed

lemma example_open:
  "example_lock = contracts (htlc example_locked) 5" "is_open example_lock" "guard (htlc example_locked) = False"
  by (simp_all add: example_locked_def example_lock_def is_open_def)

lemma example_accepts:
  "token_accepts plain_evm n now (receiver example_lock) (amount example_lock) (claim_recorded True 5 11 example_locked)"
  "token_accepts plain_evm n now (sender example_lock) (amount example_lock) (refund_recorded True 5 example_locked)"
  by (simp_all add: plain_token_accepts claim_recorded_def refund_recorded_def emit_def store_def example_lock_def example_locked_def)

lemma example_withdraw:
  "\<exists>w'. message_call plain_evm (Suc 0) 200 8 (Withdraw 5 11) example_locked = (ReturnsNothing, w') \<and>
     claimed plain_evm True 200 5 11 example_locked w'"
  using withdraw_settles [OF plain_guard_laws example_open(3,1,2), of 200 11 0 8] example_accepts(1) [of 0 200]
  by (simp add: example_lock_def)

section \<open>Properties\<close>

text \<open>C16: Reentrancy. While the guard is taken, every call back into a function that changes state
  reverts and the view function changes nothing; so whatever code the token runs, however often and
  deep it calls back, the contract's storage and event log are unchanged when it returns.\<close>

theorem nested_calls_rejected:
  assumes "guard_laws P idle busy" and "guard (htlc w) = busy"
  shows "message_call P (Suc n) now a e w =
      (case e of GetContract i \<Rightarrow> (ReturnsLock (contracts (htlc w) i), w) | _ \<Rightarrow> (Reverted ReentrantCall, w)) \<and>
    (\<forall>code u w'. run_token (message_call P n now) code w = Inr (u, w') \<longrightarrow> htlc w' = htlc w \<and> events w' = events w)"
  using message_call_busy [OF assms, of "Suc n" now a e] run_token_quiet [OF quiet_message_call [OF assms(1)] assms(2)]
  by (auto split: entry.split)

theorem nested_calls_rejected_witness:
  "message_call plain_evm (Suc 0) 200 8 (Withdraw 5 11) (example_locked\<lparr>htlc := (htlc example_locked)\<lparr>guard := True\<rparr>\<rparr>) =
     (Reverted ReentrantCall, example_locked\<lparr>htlc := (htlc example_locked)\<lparr>guard := True\<rparr>\<rparr>)"
  using nested_calls_rejected [OF plain_guard_laws, of "example_locked\<lparr>htlc := (htlc example_locked)\<lparr>guard := True\<rparr>\<rparr>" 0 200 8 "Withdraw 5 11"]
  by simp

text \<open>C19: In every reachable world a lock that exists has a receiver and a sender; no lock is both
  withdrawn and refunded; a lock is withdrawn exactly if its preimage is stored, and that preimage
  hashes to its hashlock; a refunded lock's timelock has passed; and a lock that does not exist has
  the all-zero record that \<open>getContract\<close> documents.\<close>

theorem lock_records_consistent:
  assumes "guard_laws P idle busy" and "reachable_htlc P idle balanceOf now w"
  shows "let c = getContract i w in
    (if amount c = 0 then c = no_lock else receiver c \<noteq> 0 \<and> sender c \<noteq> 0) \<and> \<not> (withdrawn c \<and> refunded c) \<and>
    withdrawn c = (preimage c \<noteq> 0) \<and> (withdrawn c \<longrightarrow> sha256_word (preimage c) = hashlock c) \<and>
    (refunded c \<longrightarrow> timelock c \<le> now)"
  using reachable_htlc_inv [OF assms] by (auto simp: htlc_inv_def lock_ok_def getContract_def Let_def)

theorem lock_records_consistent_witness:
  "\<not> (withdrawn (getContract 5 example_locked) \<and> refunded (getContract 5 example_locked))"
  using lock_records_consistent [OF plain_guard_laws example_reachable, of 5] unfolding Let_def by blast

text \<open>C21: The event log and storage tell the same story: an event has been emitted exactly if the
  stored records say so, and no event is emitted twice. In particular the preimage of a withdrawn
  lock can be read from the log, where the other leg's buyer looks for it.\<close>

theorem events_mirror_storage:
  assumes "guard_laws P idle busy" and "reachable_htlc P idle balanceOf now w"
  shows "(ev \<in> set (events w)) = recorded (contracts (htlc w)) ev \<and> distinct (events w)"
  using reachable_htlc_inv [OF assms] by (simp add: htlc_inv_def)

theorem events_mirror_storage_witness: "HTLCWithdraw 5 11 \<notin> set (events example_locked)"
  using events_mirror_storage [OF plain_guard_laws example_reachable, of "HTLCWithdraw 5 11"]
  by (simp add: example_locked_def example_lock_def)

text \<open>C17: Solvency. With a token that moves exactly the amounts it is asked to, the contract's balance
  covers the sum of all open locks in every reachable world.\<close>

theorem escrow_solvent:
  assumes "guard_laws P idle busy" and "standard_token P busy balanceOf"
    and "reachable_htlc P idle balanceOf now w"
  shows "total_owed (contracts (htlc w)) \<le> balanceOf (tok w) (this_address P)"
  using reachable_solvent [OF assms] by (simp add: solvent_def)

theorem escrow_solvent_witness: "total_owed (contracts (htlc example_locked)) \<le> tok example_locked (this_address plain_evm)"
  using escrow_solvent [OF plain_guard_laws plain_standard_token example_reachable] .

text \<open>C18: The contract puts no obstacle of its own before the settlement of an open lock. In every
  reachable world, and whoever calls: \<open>withdraw\<close> succeeds exactly if the timelock has not passed, the
  preimage is not zero and hashes to the hashlock, and the token accepts the transfer of the locked
  amount to the receiver; \<open>refund\<close> succeeds exactly if the timelock has passed and the token accepts
  the transfer to the sender. The transfer that is asked for is always covered by the contract's
  balance, a successful call moves exactly the locked amount, and a failed one changes nothing, so
  that it can be repeated. A token may still refuse, as USDC does when it is paused or an
  account is blacklisted.\<close>

theorem open_lock_settles:
  assumes "guard_laws P idle busy" and "standard_token P busy balanceOf"
    and "reachable_htlc P idle balanceOf now w" and "c = contracts (htlc w) i" and "is_open c"
  shows "unat (amount c) \<le> balanceOf (tok w) (this_address P) \<and>
    (if now' < timelock c \<and> pre \<noteq> 0 \<and> sha256_word pre = hashlock c \<and>
        token_accepts P n now' (receiver c) (amount c) (claim_recorded busy i pre w)
     then \<exists>w'. message_call P (Suc n) now' a (Withdraw i pre) w = (ReturnsNothing, w') \<and>
         balanceOf (tok w') = move (balanceOf (tok w)) (this_address P) (receiver c) (unat (amount c))
     else \<exists>e. message_call P (Suc n) now' a (Withdraw i pre) w = (Reverted e, w)) \<and>
    (if timelock c \<le> now' \<and> token_accepts P n now' (sender c) (amount c) (refund_recorded busy i w)
     then \<exists>w'. message_call P (Suc n) now' a (Refund i) w = (ReturnsNothing, w') \<and>
         balanceOf (tok w') = move (balanceOf (tok w)) (this_address P) (sender c) (unat (amount c))
     else \<exists>e. message_call P (Suc n) now' a (Refund i) w = (Reverted e, w))"
proof -
  note inv = reachable_htlc_inv [OF assms(1,3)]
  have g: "guard (htlc w) = idle" using inv by (simp add: htlc_inv_def)
  have held: "unat (amount c) \<le> balanceOf (tok w) (this_address P)"
    using open_amount_held [OF inv reachable_solvent [OF assms(1-3)]] assms(4,5) by simp
  have moved: "pays P busy a' (amount c) (tok w) t \<Longrightarrow>
      balanceOf t = move (balanceOf (tok w)) (this_address P) a' (unat (amount c))" for a' t
    using assms(2) by (simp add: standard_token_def)
  have w: "claimed P busy now' i pre w w' \<Longrightarrow>
      balanceOf (tok w') = move (balanceOf (tok w)) (this_address P) (receiver c) (unat (amount c))" for w'
    using moved by (simp add: claimed_def Let_def assms(4))
  have r: "returned P busy now' i w w' \<Longrightarrow>
      balanceOf (tok w') = move (balanceOf (tok w)) (this_address P) (sender c) (unat (amount c))" for w'
    using moved by (simp add: returned_def Let_def assms(4))
  show ?thesis
    by (intro conjI held if_cases_mono [OF withdraw_settles [OF assms(1) g assms(4,5), of now' pre n a]]
          if_cases_mono [OF refund_settles [OF assms(1) g assms(4,5), of now' n a]])
      (use w r in blast)+
qed

theorem open_lock_settles_witness:
  "(\<exists>w'. message_call plain_evm (Suc 0) 200 8 (Withdraw 5 11) example_locked = (ReturnsNothing, w') \<and> tok w' 4 = 60) \<and>
   (\<exists>e. message_call plain_evm (Suc 0) 200 8 (Refund 5) example_locked = (Reverted e, example_locked)) \<and>
   (\<exists>w'. message_call plain_evm (Suc 0) 10000 8 (Refund 5) example_locked = (ReturnsNothing, w') \<and> tok w' 3 = 100)"
proof -
  note s' = open_lock_settles [OF plain_guard_laws plain_standard_token example_reachable example_open(1,2), where a = 8 and n = 0]
  have t: "timelock example_lock = 10000" "hashlock example_lock = sha256_word 11" "receiver example_lock = 4"
    "sender example_lock = 3" "amount example_lock = 60" "this_address plain_evm = 7"
    "tok example_locked = (\<lambda>_. 0)(3 := 40, 7 := 60)"
    by (simp_all add: example_lock_def plain_evm_def example_locked_def)
  note acc = example_accepts [of 0, unfolded t]
  show ?thesis using s' [of 200 11] s' [of 10000 11] acc(1) [of 200] acc(2) [of 10000] unfolding t
    by (auto simp: move_def)
qed

text \<open>C20: Settlement is final and the terms of a lock never change: after any sequence of calls and
  token movements its parties, amount, hashlock and timelock are the same, and if it was settled, so
  is its whole record.\<close>

theorem settlement_is_final:
  assumes "guard_laws P idle busy" and "guard (htlc w) = idle" and "evolves P now w now' w'"
    and "amount (contracts (htlc w) i) \<noteq> 0"
  shows "same_terms (contracts (htlc w) i) (contracts (htlc w') i) \<and>
    (withdrawn (contracts (htlc w) i) \<or> refunded (contracts (htlc w) i) \<longrightarrow> contracts (htlc w') i = contracts (htlc w) i)"
  using evolves_keeps_locks [OF assms] by blast

theorem settlement_is_final_witness:
  "same_terms (contracts (htlc example_locked) 5)
     (contracts (htlc (snd (message_call plain_evm (Suc 0) 200 8 (Withdraw 5 11) example_locked))) 5)"
proof -
  let ?r = "message_call plain_evm (Suc 0) 200 8 (Withdraw 5 11) example_locked"
  have r: "?r = (fst ?r, snd ?r)" by simp
  have "evolves plain_evm 100 example_locked 200 (snd ?r)"
    by (rule evolves.call [OF evolves.same _ r]) simp
  then show ?thesis
    using settlement_is_final [OF plain_guard_laws, of example_locked 100 200 "snd ?r" 5]
    by (simp add: example_locked_def example_lock_def)
qed

text \<open>Whoever calls \<open>withdraw\<close>, even someone who merely observed or holds the preimage, the outcome
  is the same and the tokens go to the receiver recorded in the lock; and no lock can be withdrawn and
  refunded at the same time: at any timestamp at most one of the two calls succeeds.\<close>

theorem withdraw_pays_receiver:
  assumes "guard_laws P idle busy" and "standard_token P busy balanceOf" and "guard (htlc w) = idle"
    and "message_call P n now a (Withdraw i pre) w = (ReturnsNothing, w')"
  shows "message_call P n now b (Withdraw i pre) w = (ReturnsNothing, w') \<and>
    balanceOf (tok w') = move (balanceOf (tok w)) (this_address P)
      (receiver (contracts (htlc w) i)) (unat (amount (contracts (htlc w) i))) \<and>
    fst (message_call P k now b (Refund i) w) \<noteq> ReturnsNothing"
proof -
  obtain d where n: "n = Suc d" using assms(4) by (cases n) auto
  then have "withdraw P (message_call P d now) now i pre w = Inr ((), w')"
    using assms(4) by (auto simp: returning_def split: sum.splits)
  then have c: "claimed P busy now i pre w w'"
    by (rule withdraw_effect [OF assms(1,3) quiet_message_call [OF assms(1)]])
  have "\<not> returned P busy now i w v" for v
    using c by (auto simp: claimed_def returned_def Let_def)
  then have "fst (message_call P k now b (Refund i) w) \<noteq> ReturnsNothing"
    by (cases k) (auto simp: returning_def split: sum.splits
        dest!: refund_effect [OF assms(1,3) quiet_message_call [OF assms(1)]])
  then show ?thesis using assms(2,4) n c by (auto simp: claimed_def Let_def standard_token_def)
qed

theorem withdraw_pays_receiver_witness:
  "\<exists>w'. message_call plain_evm (Suc 0) 200 8 (Withdraw 5 11) example_locked = (ReturnsNothing, w') \<and> tok w' 4 = 60 \<and> tok w' 8 = 0"
proof -
  obtain w' where w': "message_call plain_evm (Suc 0) 200 8 (Withdraw 5 11) example_locked = (ReturnsNothing, w')"
    using example_withdraw by blast
  then have "tok w' = move (tok example_locked) 7 4 60"
    using withdraw_pays_receiver [OF plain_guard_laws plain_standard_token _ w']
    by (simp add: example_locked_def example_lock_def plain_evm_def)
  then show ?thesis using w' by (auto simp: move_def example_locked_def)
qed

text \<open>The collision check of \<open>initiate\<close> never fires by itself: if it does in a reachable world, an
  existing lock's identifier was computed from a different 168-byte string with the same
  \<open>keccak256\<close>. Repeating a swap with identical parameters is no such case, because the sender's nonce
  has moved on.\<close>

theorem collision_needs_keccak_collision:
  assumes "guard_laws P idle busy" and "reachable_htlc P idle balanceOf now w"
    and "initiate P h now' src rcv hash time amt w = Inl ContractIdCollision"
  shows "\<exists>i k. let c = contracts (htlc w) i;
      x = encode_id (sender c) (receiver c) (amount c) (hashlock c) (timelock c) k;
      y = encode_id src rcv amt hash time (nonces (htlc w) src)
    in amount c \<noteq> 0 \<and> i = keccak256 P x \<and> keccak256 P x = keccak256 P y \<and> x \<noteq> y \<and> length x = 168 \<and> length y = 168"
proof -
  let ?y = "encode_id src rcv amt hash time (nonces (htlc w) src)"
  define i where "i = keccak256 P ?y"
  have g: "guard (htlc w) = idle" using reachable_htlc_inv [OF assms(1,2)] by (simp add: htlc_inv_def)
  have a: "amount (contracts (htlc w) i) \<noteq> 0"
    using assms(1,3) g initiate_internal_collision [of P h now' src rcv hash time amt "w\<lparr>htlc := (htlc w)\<lparr>guard := busy\<rparr>\<rparr>"]
    by (simp add: initiate_def nonReentrant_def guard_laws_def i_def split: sum.splits prod.splits)
  then obtain k where k: "k < nonces (htlc w) (sender (contracts (htlc w) i))" "i = lock_id P (contracts (htlc w) i) k"
    using reachable_id_inv [OF assms(1,2)] by (auto simp: id_inv_def)
  define c where "c = contracts (htlc w) i"
  define x where "x = encode_id (sender c) (receiver c) (amount c) (hashlock c) (timelock c) k"
  have x: "i = keccak256 P x" using k(2) by (simp add: lock_id_def c_def x_def)
  have "x \<noteq> ?y"
  proof
    assume "x = ?y"
    then have "sender c = src \<and> k = nonces (htlc w) src" unfolding x_def by (rule encode_id_sender_nonce)
    then show False using k(1) by (simp add: c_def)
  qed
  moreover have "amount c \<noteq> 0" using a unfolding c_def .
  moreover have "keccak256 P x = keccak256 P ?y" by (rule trans [OF x [symmetric] i_def])
  moreover have "length x = 168" "length ?y = 168" unfolding x_def by (rule length_encode_id)+
  ultimately have "amount c \<noteq> 0 \<and> i = keccak256 P x \<and> keccak256 P x = keccak256 P ?y \<and> x \<noteq> ?y \<and> length x = 168 \<and> length ?y = 168"
    using x by (intro conjI)
  then show ?thesis unfolding Let_def x_def c_def by (intro exI)
qed

text \<open>With the example's constant hash a second swap does collide.\<close>

theorem collision_needs_keccak_collision_witness:
  "initiate plain_evm (message_call plain_evm 0 200) 200 3 4 0 20000 1 example_locked = Inl ContractIdCollision \<and>
   (\<exists>i k. i = keccak256 plain_evm (encode_id 3 4 60 (sha256_word 11) 10000 k) \<and>
      encode_id 3 4 60 (sha256_word 11) 10000 k \<noteq> encode_id 3 4 1 0 20000 1)"
proof -
  have r: "initiate plain_evm (message_call plain_evm 0 200) 200 3 4 0 20000 1 example_locked = Inl ContractIdCollision"
    by (simp add: initiate_def initiate_internal_def nonReentrant_def plain_evm_def example_locked_def MIN_LOCKTIME_def example_lock_def)
  obtain i k where "amount (contracts (htlc example_locked) i) \<noteq> 0"
    "i = keccak256 plain_evm (encode_id (sender (contracts (htlc example_locked) i)) (receiver (contracts (htlc example_locked) i))
       (amount (contracts (htlc example_locked) i)) (hashlock (contracts (htlc example_locked) i))
       (timelock (contracts (htlc example_locked) i)) k)"
    "encode_id (sender (contracts (htlc example_locked) i)) (receiver (contracts (htlc example_locked) i))
       (amount (contracts (htlc example_locked) i)) (hashlock (contracts (htlc example_locked) i))
       (timelock (contracts (htlc example_locked) i)) k \<noteq> encode_id 3 4 1 0 20000 (nonces (htlc example_locked) 3)"
    using collision_needs_keccak_collision [OF plain_guard_laws example_reachable r] unfolding Let_def by blast
  moreover from this(1) have "contracts (htlc example_locked) i = example_lock"
    by (auto simp: example_locked_def no_lock_def split: if_splits)
  ultimately show ?thesis using r by (auto simp: example_lock_def example_locked_def)
qed

end
