(* ===== verification/Consensus_Params.thy ===== *)
theory Consensus_Params
  imports Arith_Uint256 "HOL-Library.Signed_Division"
begin

text \<open>
  The consensus parameters (\<^verbatim>\<open>src/src/consensus/params.h\<close>) that difficulty adjustment, the
  subsidy and header acceptance read, with the values that the chains which fix them in
  \<^verbatim>\<open>src/src/kernel/chainparams.cpp\<close> give them, and the amounts of
  \<^verbatim>\<open>src/src/consensus/amount.h\<close>. Activation heights of the inherited soft forks and the version
  bits deployments are left out. Signed integers of the source are \<open>int\<close>; their division
  truncates towards zero (\<open>sdiv\<close>, \<open>smod\<close>).
\<close>

record Params =
  nSubsidyHalvingInterval :: int
  powLimit :: uint256
  fPowAllowMinDifficultyBlocks :: bool
  enforce_BIP94 :: bool
  fPowNoRetargeting :: bool
  nPowTargetSpacing :: int
  nPowTargetTimespan :: int
  fDagMode :: bool
  ghostdag_k :: uint32
  nDagTargetSpacingMs :: int
  nDagDiffWindowSize :: int
  fDagUseEma :: bool
  nDagEmaFastHalfLife :: int
  nDagEmaSlowHalfLife :: int
  nDagEmaMaxAdjust :: int
  nMaxDagParents :: uint32
  nMaxBlockWeightPQC :: uint32
  nHybridSigHeight :: int
  nLoadDiffBaseline :: int
  nLoadDiffMaxMultiplier :: int
  fEarlyProtection :: bool

definition int_max :: int where
  "int_max = 2 ^ 31 - 1"

definition DifficultyAdjustmentInterval :: "Params \<Rightarrow> int" where
  "DifficultyAdjustmentInterval params = nPowTargetTimespan params sdiv nPowTargetSpacing params"

text \<open>The default member initializers; the members without one, up to
  \<open>nPowTargetTimespan\<close>, are set by every chain.\<close>

definition default_Params :: Params where
  "default_Params = \<lparr>nSubsidyHalvingInterval = 0, powLimit = 0, fPowAllowMinDifficultyBlocks = False,
     enforce_BIP94 = False, fPowNoRetargeting = False, nPowTargetSpacing = 0, nPowTargetTimespan = 0,
     fDagMode = False, ghostdag_k = 32, nDagTargetSpacingMs = 1000, nDagDiffWindowSize = 4032,
     fDagUseEma = False, nDagEmaFastHalfLife = 12, nDagEmaSlowHalfLife = 72, nDagEmaMaxAdjust = 3000,
     nMaxDagParents = 64, nMaxBlockWeightPQC = 4 * 4000000, nHybridSigHeight = int_max,
     nLoadDiffBaseline = 0, nLoadDiffMaxMultiplier = 4, fEarlyProtection = False\<rparr>"

definition CMainParams :: Params where
  "CMainParams = default_Params\<lparr>nSubsidyHalvingInterval := 210000,
     powLimit := ArithToUint256 0x00000000ffffffffffffffffffffffffffffffffffffffffffffffffffffffff,
     nPowTargetTimespan := 14 * 24 * 60 * 60, nPowTargetSpacing := 10 * 60,
     fPowAllowMinDifficultyBlocks := False, enforce_BIP94 := False, fPowNoRetargeting := False,
     fDagMode := False, ghostdag_k := 18, nDagTargetSpacingMs := 1000, nMaxDagParents := 32,
     nMaxBlockWeightPQC := 4 * 4000000, nHybridSigHeight := int_max, fEarlyProtection := False\<rparr>"

definition CQbtcTestNetParams :: Params where
  "CQbtcTestNetParams = default_Params\<lparr>nSubsidyHalvingInterval := 12600000,
     powLimit := ArithToUint256 0x00000fffffffffffffffffffffffffffffffffffffffffffffffffffffffffff,
     nPowTargetTimespan := 1280, nPowTargetSpacing := 10,
     fPowAllowMinDifficultyBlocks := False, enforce_BIP94 := False, fPowNoRetargeting := False,
     fDagMode := True, ghostdag_k := 32, nDagTargetSpacingMs := 10000, nMaxDagParents := 64,
     nMaxBlockWeightPQC := 4 * 4000000, nHybridSigHeight := int_max, nDagDiffWindowSize := 256,
     fDagUseEma := True, nDagEmaFastHalfLife := 12, nDagEmaSlowHalfLife := 72, nDagEmaMaxAdjust := 3000,
     nLoadDiffBaseline := 200, nLoadDiffMaxMultiplier := 4, fEarlyProtection := True\<rparr>"

definition CQbtcMainParams :: Params where
  "CQbtcMainParams = default_Params\<lparr>nSubsidyHalvingInterval := 126000000,
     powLimit := ArithToUint256 0x00000000ffffffffffffffffffffffffffffffffffffffffffffffffffffffff,
     nPowTargetTimespan := 2016, nPowTargetSpacing := 1,
     fPowAllowMinDifficultyBlocks := False, enforce_BIP94 := False, fPowNoRetargeting := False,
     fDagMode := True, ghostdag_k := 18, nDagTargetSpacingMs := 1000, nMaxDagParents := 32,
     nMaxBlockWeightPQC := 4 * 4000000, nHybridSigHeight := int_max,
     nLoadDiffBaseline := 200, nLoadDiffMaxMultiplier := 4, fEarlyProtection := True\<rparr>"

definition CRegTestParams :: Params where
  "CRegTestParams = default_Params\<lparr>nSubsidyHalvingInterval := 150,
     powLimit := ArithToUint256 0x7fffffffffffffffffffffffffffffffffffffffffffffffffffffffffffffff,
     nPowTargetTimespan := 24 * 60 * 60, nPowTargetSpacing := 10 * 60,
     fPowAllowMinDifficultyBlocks := True, enforce_BIP94 := True, fPowNoRetargeting := True,
     fDagMode := True, ghostdag_k := 32, nDagTargetSpacingMs := 500, nMaxDagParents := 64,
     nMaxBlockWeightPQC := 4 * 4000000, nHybridSigHeight := 200, fEarlyProtection := True\<rparr>"

lemmas chain_params = default_Params_def CMainParams_def CQbtcTestNetParams_def CQbtcMainParams_def
  CRegTestParams_def

section \<open>Amounts\<close>

definition COIN :: int where
  "COIN = 100000000"

definition MAX_MONEY :: int where
  "MAX_MONEY = 21000000 * COIN"

definition MoneyRange :: "int \<Rightarrow> bool" where
  "MoneyRange nValue \<longleftrightarrow> nValue \<ge> 0 \<and> nValue \<le> MAX_MONEY"

end
