(* ===== verification/Subsidy.thy ===== *)
theory Subsidy
  imports Consensus_Params
begin

text \<open>
  The block subsidy (\<^verbatim>\<open>GetBlockSubsidy\<close> in \<^verbatim>\<open>src/src/validation.cpp\<close>) and the supply that
  follows from it: what all blocks up to a height may create together.
\<close>

definition DAG_INITIAL_BLOCK_REWARD :: int where
  "DAG_INITIAL_BLOCK_REWARD = 83333333"

definition GetBlockSubsidy :: "int \<Rightarrow> Params \<Rightarrow> bool \<Rightarrow> int" where
  "GetBlockSubsidy nHeight consensusParams fHasUserTransactions =
     (let halvings = nHeight sdiv nSubsidyHalvingInterval consensusParams in
      if halvings \<ge> 64 then 0
      else let nSubsidy = (if fDagMode consensusParams then DAG_INITIAL_BLOCK_REWARD else 50 * COIN);
               nSubsidy' = drop_bit (nat halvings) nSubsidy
           in if fDagMode consensusParams \<and> halvings \<ge> 1 \<and> \<not> fHasUserTransactions then 0 else nSubsidy')"

text \<open>The coins created by the first \<open>n\<close> blocks; \<open>busy\<close> tells which of them carry a user
  transaction.\<close>

definition total_subsidy :: "Params \<Rightarrow> (nat \<Rightarrow> bool) \<Rightarrow> nat \<Rightarrow> int" where
  "total_subsidy params busy n = (\<Sum>h<n. GetBlockSubsidy (int h) params (busy h))"

section \<open>Bounds\<close>

definition initial_subsidy :: "Params \<Rightarrow> int" where
  "initial_subsidy params = (if fDagMode params then DAG_INITIAL_BLOCK_REWARD else 50 * COIN)"

lemma initial_subsidy_nonneg: "0 \<le> initial_subsidy params"
  by (simp add: initial_subsidy_def DAG_INITIAL_BLOCK_REWARD_def COIN_def)

lemma sdiv_nonneg: "0 \<le> a \<Longrightarrow> 0 \<le> b \<Longrightarrow> a sdiv b = a div (b :: int)"
  by (cases "a = 0") (auto simp: signed_divide_int_def sgn_if)

lemma GetBlockSubsidy_era:
  assumes "0 < nSubsidyHalvingInterval params"
  shows "0 \<le> GetBlockSubsidy (int h) params b"
    and "GetBlockSubsidy (int h) params b \<le>
      initial_subsidy params div 2 ^ (h div nat (nSubsidyHalvingInterval params))"
proof -
  let ?i = "nSubsidyHalvingInterval params"
  have q: "int h sdiv ?i = int (h div nat ?i)" using assms by (simp add: sdiv_nonneg zdiv_int)
  show "0 \<le> GetBlockSubsidy (int h) params b"
    "GetBlockSubsidy (int h) params b \<le> initial_subsidy params div 2 ^ (h div nat ?i)"
    using initial_subsidy_nonneg [of params]
    by (auto simp: GetBlockSubsidy_def Let_def q drop_bit_eq_div initial_subsidy_def pos_imp_zdiv_nonneg_iff split: if_splits)
qed

lemma sum_halvings: "(\<Sum>k<n. r div 2 ^ k) + 2 * (r div 2 ^ n) \<le> 2 * (r :: int)"
proof (induction n)
  case (Suc n)
  have "2 * (r div 2 ^ Suc n) \<le> r div 2 ^ n"
    using div_mult2_eq' [of r] by (simp add: zdiv_zmult2_eq mult.commute [of 2 "2 ^ n"])
  then show ?case using Suc by simp
qed simp

lemma total_subsidy_mono:
  assumes "0 < nSubsidyHalvingInterval params" and "m \<le> n"
  shows "total_subsidy params busy m \<le> total_subsidy params busy n"
  unfolding total_subsidy_def using assms GetBlockSubsidy_era(1) by (intro sum_mono2) auto

lemma total_subsidy_bound:
  assumes "0 < nSubsidyHalvingInterval params"
  shows "total_subsidy params busy n \<le> 2 * nSubsidyHalvingInterval params * initial_subsidy params"
proof -
  let ?i = "nat (nSubsidyHalvingInterval params)" and ?r = "initial_subsidy params"
  have i: "0 < ?i" using assms by simp
  have "n \<le> n * ?i" using i by (simp del: nat_0_iff zero_less_nat_eq)
  then have "total_subsidy params busy n \<le> total_subsidy params busy (n * ?i)"
    by (rule total_subsidy_mono [OF assms])
  also have "\<dots> \<le> (\<Sum>h<n * ?i. ?r div 2 ^ (h div ?i))"
    unfolding total_subsidy_def by (intro sum_mono GetBlockSubsidy_era assms)
  also have "\<dots> = (\<Sum>k<n. \<Sum>h\<in>{k * ?i..<k * ?i + ?i}. ?r div 2 ^ (h div ?i))"
    by (simp add: sum.nat_group)
  also have "\<dots> = (\<Sum>k<n. \<Sum>h\<in>{k * ?i..<k * ?i + ?i}. ?r div 2 ^ k)"
    by (intro sum.cong refl arg_cong [where f = "\<lambda>e. ?r div 2 ^ e"] div_nat_eqI) (auto simp: mult.commute)
  also have "\<dots> = int ?i * (\<Sum>k<n. ?r div 2 ^ k)" by (simp add: sum_distrib_left)
  also have "\<dots> \<le> int ?i * (2 * ?r)"
    using sum_halvings [of ?r n] initial_subsidy_nonneg [of params]
    by (intro mult_left_mono) (auto simp: pos_imp_zdiv_nonneg_iff intro: order_trans [rotated])
  finally show ?thesis using assms by simp
qed

lemma first_era:
  assumes "0 < nSubsidyHalvingInterval params" and "int n \<le> nSubsidyHalvingInterval params"
  shows "total_subsidy params busy n = int n * initial_subsidy params"
proof -
  have "GetBlockSubsidy (int h) params b = initial_subsidy params" if "h < n" for h b
    using that assms by (simp add: GetBlockSubsidy_def initial_subsidy_def sdiv_nonneg Let_def)
  then show ?thesis by (simp add: total_subsidy_def)
qed

section \<open>Properties\<close>

text \<open>C33: On the legacy chain and on the QBTC test network all subsidies together stay within
  \<open>MAX_MONEY\<close>, whatever the height and whichever blocks are empty. On the QBTC main network the
  same initial reward is paid for ten times as many blocks per halving: from block 25,200,001 on,
  within the first halving interval, the created coins exceed \<open>MAX_MONEY\<close>.\<close>

theorem supply_within_MAX_MONEY:
  "MoneyRange (total_subsidy CMainParams busy n) \<and>
   MoneyRange (total_subsidy CQbtcTestNetParams busy n) \<and>
   \<not> MoneyRange (total_subsidy CQbtcMainParams busy (25200001 + n))"
proof -
  have nonneg: "0 \<le> total_subsidy p busy n" if "0 < nSubsidyHalvingInterval p" for p
    unfolding total_subsidy_def by (intro sum_nonneg GetBlockSubsidy_era(1) that)
  have "total_subsidy CQbtcMainParams busy 25200001 = 25200001 * DAG_INITIAL_BLOCK_REWARD"
    by (subst first_era) (simp_all add: chain_params initial_subsidy_def)
  moreover have "total_subsidy CQbtcMainParams busy 25200001 \<le> total_subsidy CQbtcMainParams busy (25200001 + n)"
    by (rule total_subsidy_mono) (simp_all add: chain_params)
  ultimately have "MAX_MONEY < total_subsidy CQbtcMainParams busy (25200001 + n)"
    by (simp add: DAG_INITIAL_BLOCK_REWARD_def MAX_MONEY_def COIN_def)
  then show ?thesis
    using nonneg [of CMainParams] nonneg [of CQbtcTestNetParams]
      total_subsidy_bound [of CMainParams busy n] total_subsidy_bound [of CQbtcTestNetParams busy n]
    by (simp add: MoneyRange_def chain_params initial_subsidy_def DAG_INITIAL_BLOCK_REWARD_def MAX_MONEY_def COIN_def)
qed

end
