(* ===== verification/Pow.thy ===== *)
theory Pow
  imports Consensus_Params Block_Index
begin

unbundle bit_operations_syntax

text \<open>
  Difficulty adjustment and the proof-of-work check (\<^verbatim>\<open>src/src/pow.cpp\<close>). Unsigned 64-bit and
  256-bit values are words and wrap around; signed values are \<open>int\<close>. A failed assertion, an
  integer or big-number division by zero and the exception of \<^verbatim>\<open>reserve\<close> with a negative
  count are values of \<open>failure\<close>. A pointer into the block index is the hash of the entry;
  \<open>nullptr\<close> is \<open>None\<close>. The command line option \<^verbatim>\<open>-dag\<close> is an argument, \<open>None\<close> if not given.
\<close>

datatype failure = AssertionFailed | DivisionByZero | LengthError

definition GetBlockTime :: "CBlockIndex \<Rightarrow> int" where
  "GetBlockTime i = uint (nTime i)"

definition header_GetBlockTime :: "CBlockHeader \<Rightarrow> int" where
  "header_GetBlockTime h = uint (CBlockHeader.nTime h)"

section \<open>Integer square root\<close>

function isqrt_start :: "uint64 \<Rightarrow> uint64 \<Rightarrow> uint64" where
  "isqrt_start n b = (if b > n then isqrt_start n (drop_bit 2 b) else b)"
  by pat_completeness auto
termination
  by (relation "measure (\<lambda>(n, b). unat b)") (auto simp: unat_drop_bit word_less_nat_alt simp del: drop_bit_eq_div)

declare isqrt_start.simps [simp del]

function isqrt_loop :: "uint64 \<Rightarrow> uint64 \<Rightarrow> uint64 \<Rightarrow> uint64" where
  "isqrt_loop n result b =
     (if b \<noteq> 0 then
        if n \<ge> result + b
        then isqrt_loop (n - (result + b)) (drop_bit 1 result + b) (drop_bit 2 b)
        else isqrt_loop n (drop_bit 1 result) (drop_bit 2 b)
      else result)"
  by pat_completeness auto
termination
  by (relation "measure (\<lambda>(n, r, b). unat b)")
    (auto simp: unat_drop_bit unat_gt_0 simp del: drop_bit_eq_div intro!: div_less_dividend)

declare isqrt_loop.simps [simp del]

definition IntegerSquareRoot :: "uint64 \<Rightarrow> uint64" where
  "IntegerSquareRoot n = isqrt_loop n 0 (isqrt_start n (push_bit 62 1))"

section \<open>Moving averages of block times\<close>

definition FP_SCALE :: uint64 where
  "FP_SCALE = push_bit 16 1"

text \<open>The block times collected walking back from \<open>cur\<close>, newest first.\<close>

fun block_times :: "BlockMap \<Rightarrow> nat \<Rightarrow> uint256 \<Rightarrow> int list" where
  "block_times m 0 cur = []"
| "block_times m (Suc n) cur =
     (case m cur of
        None \<Rightarrow> []
      | Some c \<Rightarrow>
          (case pprev c of
             None \<Rightarrow> []
           | Some q \<Rightarrow>
               (case m q of
                  None \<Rightarrow> []
                | Some p \<Rightarrow>
                    let bt = GetBlockTime c - GetBlockTime p
                    in (if bt < 1 then 1 else bt) # block_times m n q)))"

definition ema_alpha :: "int \<Rightarrow> uint64" where
  "ema_alpha halfLife = max 1 (45426 div word_of_int (max 1 halfLife))"

definition ema_step :: "uint64 \<Rightarrow> int \<Rightarrow> uint64 \<Rightarrow> uint64" where
  "ema_step alpha_fp bt ema_fp =
     (let one_minus_alpha = FP_SCALE - alpha_fp;
          sample_fp = word_of_int bt * FP_SCALE
      in (alpha_fp * sample_fp + one_minus_alpha * ema_fp) div FP_SCALE)"

definition ComputeBlockTimeEMA :: "BlockMap \<Rightarrow> uint256 \<Rightarrow> int \<Rightarrow> int \<Rightarrow> failure + uint64" where
  "ComputeBlockTimeEMA m pindexLast halfLife maxLookback =
     (case m pindexLast of
        None \<Rightarrow> Inl AssertionFailed
      | Some tip \<Rightarrow>
          let alpha_fp = ema_alpha halfLife;
              limit = min maxLookback (int (nHeight tip))
          in if limit < 0 then Inl LengthError
             else let times = block_times m (nat limit) pindexLast
                  in if times = [] then Inr (10 * FP_SCALE)
                     else Inr (foldr (ema_step alpha_fp) times (word_of_int (last times) * FP_SCALE)))"

section \<open>Transaction load\<close>

definition load_multiplier :: "uint64 \<Rightarrow> uint64 \<Rightarrow> uint64 \<Rightarrow> uint64" where
  "load_multiplier avg_tx baseline max_mult =
     (let capped_avg_tx = min avg_tx (baseline * max_mult * max_mult);
          ratio_scaled = (capped_avg_tx * FP_SCALE * FP_SCALE) div baseline;
          load_mult_scaled = IntegerSquareRoot ratio_scaled;
          at_least_one = (if load_mult_scaled < FP_SCALE then FP_SCALE else load_mult_scaled)
      in if at_least_one > max_mult * FP_SCALE then max_mult * FP_SCALE else at_least_one)"

definition load_adjusted :: "Params \<Rightarrow> uint64 \<Rightarrow> uint64 \<Rightarrow> int \<Rightarrow> arith_uint256 \<Rightarrow> failure + arith_uint256" where
  "load_adjusted params tx_last tx_first window bnNew =
     (if tx_last > tx_first then
        if (word_of_int window :: uint64) = 0 then Inl DivisionByZero
        else let avg_tx = sint ((tx_last - tx_first) div word_of_int window);
                 baseline = word_of_int (nLoadDiffBaseline params);
                 max_mult = word_of_int (nLoadDiffMaxMultiplier params)
             in if avg_tx > 0 \<and> (word_of_int avg_tx :: uint64) > baseline then
                  let load_mult_scaled = load_multiplier (word_of_int avg_tx) baseline max_mult
                  in if load_mult_scaled = 0 then Inl DivisionByZero
                     else Inr (bnNew * ucast FP_SCALE div ucast load_mult_scaled)
                else Inr bnNew
      else Inr bnNew)"

definition load_enabled :: "Params \<Rightarrow> bool" where
  "load_enabled params \<longleftrightarrow> nLoadDiffBaseline params > 0 \<and> nLoadDiffMaxMultiplier params > 1"

text \<open>The end of both adjustments: cap at the limit and encode.\<close>

definition capped_compact :: "arith_uint256 \<Rightarrow> arith_uint256 \<Rightarrow> uint32" where
  "capped_compact bnPowLimit bnNew = GetCompact (if bnNew > bnPowLimit then bnPowLimit else bnNew)"

section \<open>Adjustment for the DAG\<close>

text \<open>The branch of \<open>GetNextWorkRequiredDAG\<close> that adjusts every block.\<close>

definition ema_adjust_milli :: "Params \<Rightarrow> int \<Rightarrow> uint64 \<Rightarrow> uint64 \<Rightarrow> failure + uint64" where
  "ema_adjust_milli params nTargetSpacing fast_ema_fp slow_ema_fp =
     (let blended = (fast_ema_fp * 7 + slow_ema_fp * 3) div 10;
          spacing_fp = word_of_int nTargetSpacing * FP_SCALE;
          blended_fp = (if blended = 0 then 1 else blended);
          target_fp = (if spacing_fp = 0 then FP_SCALE else spacing_fp);
          adjust_milli = (blended_fp * 1000) div target_fp;
          maxAdj = word_of_int (nDagEmaMaxAdjust params)
      in if maxAdj = 0 then Inl DivisionByZero
         else let minAdj = 1000000 div maxAdj;
                  upper = (if adjust_milli > maxAdj then maxAdj else adjust_milli)
              in Inr (if upper < minAdj then minAdj else upper))"

definition ema_load :: "BlockMap \<Rightarrow> Params \<Rightarrow> uint256 \<Rightarrow> CBlockIndex \<Rightarrow> int \<Rightarrow> arith_uint256 \<Rightarrow> failure + arith_uint256" where
  "ema_load m params pindexLast tip postActivation bnNew =
     (if load_enabled params \<and> pprev tip \<noteq> None then
        let loadWindow = min (nDagEmaSlowHalfLife params * 2) postActivation
        in (case GetAncestor m pindexLast (int (nHeight tip) - loadWindow) of
              None \<Rightarrow> Inr bnNew
            | Some pOlder \<Rightarrow>
                (case m pOlder of
                   None \<Rightarrow> Inl AssertionFailed
                 | Some older \<Rightarrow> load_adjusted params (m_chain_tx_count tip) (m_chain_tx_count older) loadWindow bnNew))
      else Inr bnNew)"

definition ema_activation :: "Params \<Rightarrow> int" where
  "ema_activation params = max 4 (nDagDiffWindowSize params)"

definition ema_retarget :: "BlockMap \<Rightarrow> Params \<Rightarrow> uint256 \<Rightarrow> CBlockIndex \<Rightarrow> CBlockHeader \<Rightarrow> int \<Rightarrow> failure + uint32" where
  "ema_retarget m params pindexLast tip pblock nTargetSpacing =
     (let bnPowLimit = UintToArith256 (powLimit params);
          emaActivation = ema_activation params
      in if int (nHeight tip) < emaActivation then Inr (GetCompact bnPowLimit)
         else if fPowAllowMinDifficultyBlocks params \<and>
                 header_GetBlockTime pblock > GetBlockTime tip + nTargetSpacing * 4
         then Inr (GetCompact bnPowLimit)
         else let postActivation = int (nHeight tip) - emaActivation;
                  effectiveLookback = min (nDagDiffWindowSize params) postActivation
              in (case ComputeBlockTimeEMA m pindexLast (nDagEmaFastHalfLife params) effectiveLookback of
                    Inl e \<Rightarrow> Inl e
                  | Inr fast_ema_fp \<Rightarrow>
                 (case ComputeBlockTimeEMA m pindexLast (nDagEmaSlowHalfLife params) effectiveLookback of
                    Inl e \<Rightarrow> Inl e
                  | Inr slow_ema_fp \<Rightarrow>
                 (case ema_adjust_milli params nTargetSpacing fast_ema_fp slow_ema_fp of
                    Inl e \<Rightarrow> Inl e
                  | Inr adjust_milli \<Rightarrow>
                 (case ema_load m params pindexLast tip postActivation
                         (target (SetCompact (nBits tip)) div 1000 * ucast adjust_milli) of
                    Inl e \<Rightarrow> Inl e
                  | Inr bnNew \<Rightarrow> Inr (capped_compact bnPowLimit bnNew))))))"

text \<open>Clamping and scaling shared by the fixed-window adjustment and the inherited one:
  the factor is truncated to 32 bits by the overload of \<^verbatim>\<open>*=\<close> that is chosen.\<close>

definition clamp_timespan :: "int \<Rightarrow> int \<Rightarrow> int" where
  "clamp_timespan nTargetTimespan nActualTimespan =
     (let lower = (if nActualTimespan < nTargetTimespan sdiv 4 then nTargetTimespan sdiv 4 else nActualTimespan)
      in if lower > nTargetTimespan * 4 then nTargetTimespan * 4 else lower)"

definition scale_target :: "uint32 \<Rightarrow> int \<Rightarrow> int \<Rightarrow> failure + arith_uint256" where
  "scale_target old_bits timespan nTargetTimespan =
     (let divisor = ucast (word_of_int nTargetTimespan :: uint64) :: arith_uint256
      in if divisor = 0 then Inl DivisionByZero
         else Inr (target (SetCompact old_bits) * ucast (word_of_int timespan :: uint32) div divisor))"

definition window_retarget :: "BlockMap \<Rightarrow> Params \<Rightarrow> uint256 \<Rightarrow> CBlockIndex \<Rightarrow> CBlockHeader \<Rightarrow> int \<Rightarrow> failure + uint32" where
  "window_retarget m params pindexLast tip pblock nTargetSpacing =
     (let bnPowLimit = UintToArith256 (powLimit params);
          nWindow = nDagDiffWindowSize params;
          nTargetTimespan = nWindow * nTargetSpacing
      in if int (nHeight tip) < nWindow then Inr (GetCompact bnPowLimit)
         else if nWindow = 0 then Inl DivisionByZero
         else if (int (nHeight tip) + 1) smod nWindow \<noteq> 0 then
           if fPowAllowMinDifficultyBlocks params \<and>
              header_GetBlockTime pblock > GetBlockTime tip + nTargetSpacing * 2
           then Inr (GetCompact bnPowLimit) else Inr (nBits tip)
         else (case GetAncestor m pindexLast (int (nHeight tip) - (nWindow - 1)) of
                 None \<Rightarrow> Inl AssertionFailed
               | Some pindexFirst \<Rightarrow>
              (case m pindexFirst of
                 None \<Rightarrow> Inl AssertionFailed
               | Some first \<Rightarrow>
              (case scale_target (nBits tip)
                      (clamp_timespan nTargetTimespan (GetBlockTime tip - GetBlockTime first)) nTargetTimespan of
                 Inl e \<Rightarrow> Inl e
               | Inr bnNew \<Rightarrow>
              (case (if load_enabled params
                     then load_adjusted params (m_chain_tx_count tip) (m_chain_tx_count first) (nWindow - 1) bnNew
                     else Inr bnNew) of
                 Inl e \<Rightarrow> Inl e
               | Inr bnNew' \<Rightarrow> Inr (capped_compact bnPowLimit bnNew'))))))"

definition GetNextWorkRequiredDAG :: "BlockMap \<Rightarrow> uint256 option \<Rightarrow> CBlockHeader \<Rightarrow> Params \<Rightarrow> failure + uint32" where
  "GetNextWorkRequiredDAG m pindexLast pblock params =
     (case pindexLast of
        None \<Rightarrow> Inl AssertionFailed
      | Some p \<Rightarrow>
          (case m p of
             None \<Rightarrow> Inl AssertionFailed
           | Some tip \<Rightarrow>
               if fPowNoRetargeting params then Inr (nBits tip)
               else let nTargetSpacing = nDagTargetSpacingMs params sdiv 1000
                    in if nTargetSpacing \<le> 0 then Inr (nBits tip)
                       else if fDagUseEma params then ema_retarget m params p tip pblock nTargetSpacing
                       else window_retarget m params p tip pblock nTargetSpacing))"

section \<open>The inherited adjustment\<close>

definition GetBoolArg :: "bool option \<Rightarrow> bool \<Rightarrow> bool" where
  "GetBoolArg arg fDefault = (case arg of None \<Rightarrow> fDefault | Some b \<Rightarrow> b)"

definition CalculateNextWorkRequired :: "BlockMap \<Rightarrow> uint256 \<Rightarrow> int \<Rightarrow> Params \<Rightarrow> failure + uint32" where
  "CalculateNextWorkRequired m pindexLast nFirstBlockTime params =
     (case m pindexLast of
        None \<Rightarrow> Inl AssertionFailed
      | Some tip \<Rightarrow>
          if fPowNoRetargeting params then Inr (nBits tip)
          else let nActualTimespan = clamp_timespan (nPowTargetTimespan params) (GetBlockTime tip - nFirstBlockTime);
                   bnPowLimit = UintToArith256 (powLimit params);
                   nHeightFirst = int (nHeight tip) - (DifficultyAdjustmentInterval params - 1);
                   old_bits = (if enforce_BIP94 params
                               then map_option nBits (Option.bind (GetAncestor m pindexLast nHeightFirst) m)
                               else Some (nBits tip))
               in (case old_bits of
                     None \<Rightarrow> Inl AssertionFailed
                   | Some b \<Rightarrow>
                       (case scale_target b nActualTimespan (nPowTargetTimespan params) of
                          Inl e \<Rightarrow> Inl e
                        | Inr bnNew \<Rightarrow> Inr (capped_compact bnPowLimit bnNew))))"

text \<open>The walk to the last block mined without the special rule; \<open>n\<close> bounds its steps and is
  the height it starts from.\<close>

fun last_regular_bits :: "BlockMap \<Rightarrow> int \<Rightarrow> uint32 \<Rightarrow> nat \<Rightarrow> uint256 \<Rightarrow> failure + uint32" where
  "last_regular_bits m interval limit n p =
     (case m p of
        None \<Rightarrow> Inl AssertionFailed
      | Some i \<Rightarrow>
          (case (n, pprev i) of
             (Suc k, Some q) \<Rightarrow>
               if int (nHeight i) smod interval \<noteq> 0 \<and> nBits i = limit
               then last_regular_bits m interval limit k q else Inr (nBits i)
           | _ \<Rightarrow> Inr (nBits i)))"

declare last_regular_bits.simps [simp del]

definition GetNextWorkRequired :: "BlockMap \<Rightarrow> bool option \<Rightarrow> uint256 option \<Rightarrow> CBlockHeader \<Rightarrow> Params \<Rightarrow> failure + uint32" where
  "GetNextWorkRequired m dag_arg pindexLast pblock params =
     (case pindexLast of
        None \<Rightarrow> Inl AssertionFailed
      | Some p \<Rightarrow>
          (case m p of
             None \<Rightarrow> Inl AssertionFailed
           | Some tip \<Rightarrow>
               let nProofOfWorkLimit = GetCompact (UintToArith256 (powLimit params));
                   interval = DifficultyAdjustmentInterval params
               in if GetBoolArg dag_arg (fDagMode params) then GetNextWorkRequiredDAG m pindexLast pblock params
                  else if nPowTargetSpacing params = 0 \<or> interval = 0 then Inl DivisionByZero
                  else if (int (nHeight tip) + 1) smod interval \<noteq> 0 then
                    if fPowAllowMinDifficultyBlocks params then
                      if header_GetBlockTime pblock > GetBlockTime tip + nPowTargetSpacing params * 2
                      then Inr nProofOfWorkLimit
                      else last_regular_bits m interval nProofOfWorkLimit (nHeight tip) p
                    else Inr (nBits tip)
                  else let nHeightFirst = int (nHeight tip) - (interval - 1)
                       in if nHeightFirst < 0 then Inl AssertionFailed
                          else (case Option.bind (GetAncestor m p nHeightFirst) m of
                                  None \<Rightarrow> Inl AssertionFailed
                                | Some first \<Rightarrow> CalculateNextWorkRequired m p (GetBlockTime first) params)))"

section \<open>Checks\<close>

text \<open>One bound of \<open>PermittedDifficultyTransition\<close>: the old target scaled by a timespan, capped
  and rounded.\<close>

definition transition_bound :: "Params \<Rightarrow> uint32 \<Rightarrow> int \<Rightarrow> failure + arith_uint256" where
  "transition_bound params old_nbits timespan =
     (case scale_target old_nbits timespan (nPowTargetTimespan params) of
        Inl e \<Rightarrow> Inl e
      | Inr t \<Rightarrow> Inr (target (SetCompact (capped_compact (UintToArith256 (powLimit params)) t))))"

definition PermittedDifficultyTransition :: "Params \<Rightarrow> int \<Rightarrow> uint32 \<Rightarrow> uint32 \<Rightarrow> failure + bool" where
  "PermittedDifficultyTransition params height old_nbits new_nbits =
     (if fPowAllowMinDifficultyBlocks params then Inr True
      else if nPowTargetSpacing params = 0 \<or> DifficultyAdjustmentInterval params = 0 then Inl DivisionByZero
      else if height smod DifficultyAdjustmentInterval params = 0 then
        let smallest_timespan = nPowTargetTimespan params sdiv 4;
            largest_timespan = nPowTargetTimespan params * 4;
            observed_new_target = target (SetCompact new_nbits)
        in (case transition_bound params old_nbits largest_timespan of
              Inl e \<Rightarrow> Inl e
            | Inr maximum_new_target \<Rightarrow>
                if maximum_new_target < observed_new_target then Inr False
                else (case transition_bound params old_nbits smallest_timespan of
                        Inl e \<Rightarrow> Inl e
                      | Inr minimum_new_target \<Rightarrow> Inr (\<not> minimum_new_target > observed_new_target)))
      else if old_nbits \<noteq> new_nbits then Inr False
      else Inr True)"

definition CheckProofOfWork :: "uint256 \<Rightarrow> uint32 \<Rightarrow> Params \<Rightarrow> bool" where
  "CheckProofOfWork hash nbits params =
     (let bnTarget = SetCompact nbits
      in if fNegative bnTarget \<or> target bnTarget = 0 \<or> fOverflow bnTarget \<or>
            target bnTarget > UintToArith256 (powLimit params) then False
         else if UintToArith256 hash > target bnTarget then False
         else True)"

end
