(* ===== verification/Pow_Bounds.thy ===== *)
theory Pow_Bounds
  imports Pow
begin

text \<open>
  Arithmetic of difficulty adjustment: the bitwise square root, moving averages of block times,
  the load multiplier, one step of the per-block adjustment, and rounding to the compact form,
  each with the bounds under which no word wraps around.
\<close>

section \<open>Square root\<close>

lemma four_power: "(4::nat) ^ j = 2 ^ j * 2 ^ j"
  by (simp flip: power_mult_distrib)

lemma isqrt_start_result:
  assumes "j \<le> 32" and "unat b = 4 ^ j div 4" and "unat n < 4 ^ j"
  shows "\<exists>i\<le>32. unat (isqrt_start n b) = 4 ^ i div 4 \<and> unat n < 4 ^ i"
  using assms
proof (induction j arbitrary: b)
  case 0
  then show ?case by (subst isqrt_start.simps) (auto simp: word_less_nat_alt intro!: exI [of _ 0])
next
  case (Suc j)
  show ?case
  proof (cases "n < b")
    case True
    have "unat (drop_bit 2 b) = 4 ^ j div 4" using Suc.prems(2) by (simp add: unat_drop_bit del: drop_bit_eq_div)
    moreover have "unat n < 4 ^ j" using True Suc.prems(2) by (simp add: word_less_nat_alt)
    ultimately show ?thesis using Suc.IH [of "drop_bit 2 b"] Suc.prems(1) True by (subst isqrt_start.simps) simp
  next
    case False
    then show ?thesis using Suc.prems by (subst isqrt_start.simps) (auto intro!: exI [of _ "Suc j"])
  qed
qed

text \<open>After the bits above \<open>2 ^ j\<close> are fixed, \<open>t * 2 ^ j\<close> is the root found so far.\<close>

lemma isqrt_no_wrap:
  assumes "(t * 2 ^ Suc j)\<^sup>2 \<le> (N :: nat)" and "N < 2 ^ 64" and "j < 32"
  shows "t * 4 ^ Suc j + 4 ^ j < 2 ^ 64"
proof -
  have p: "(2::nat) ^ (31 - j) * 2 ^ Suc j = 2 ^ 32" using assms(3) by (simp flip: power_add)
  have "(t * 2 ^ Suc j)\<^sup>2 < (2 ^ 32)\<^sup>2" using assms(1,2) by simp
  then have "t * 2 ^ Suc j < 2 ^ 32" using power2_less_imp_less by blast
  then have "t * 2 ^ Suc j < 2 ^ (31 - j) * 2 ^ Suc j" by (simp only: p)
  then have "t < 2 ^ (31 - j)" by simp
  then have "Suc t * 4 ^ Suc j \<le> 2 ^ (31 - j) * 4 ^ Suc j" by (intro mult_le_mono1) simp
  also have "\<dots> = 2 ^ (31 - j) * 2 ^ Suc j * 2 ^ Suc j" by (simp add: four_power)
  also have "\<dots> = 2 ^ (33 + j)" by (simp only: p) (simp add: power_add)
  also have "\<dots> \<le> 2 ^ 64" using assms(3) by (intro power_increasing) auto
  finally have "t * 4 ^ Suc j + 4 ^ Suc j \<le> 2 ^ 64" by simp
  moreover have "(4::nat) ^ j < 4 ^ Suc j" by simp
  ultimately show ?thesis by linarith
qed

lemma isqrt_loop_result:
  assumes "unat b = 4 ^ j div 4" and "unat res = t * 4 ^ j" and "unat n + (t * 2 ^ j)\<^sup>2 = N"
    and "N < ((t + 1) * 2 ^ j)\<^sup>2" and "N < 2 ^ 64"
  shows "(unat (isqrt_loop n res b))\<^sup>2 \<le> N \<and> N < (unat (isqrt_loop n res b) + 1)\<^sup>2"
  using assms
proof (induction j arbitrary: b res n t)
  case 0
  then have "b = 0" by (simp add: unat_eq_0)
  then show ?case using 0 by (subst isqrt_loop.simps, subst (2) isqrt_loop.simps) simp
next
  case (Suc j)
  have b: "unat b = 4 ^ j" using Suc.prems(1) by simp
  then have nz: "b \<noteq> 0" by (auto simp: unat_eq_0)
  have "(4::nat) ^ j < 4 ^ 32" using b unsigned_less [of b, where ?'a = nat] by simp
  then have j: "j < 32" by (rule power_less_imp_less_exp [rotated]) simp
  have "(t * 2 ^ Suc j)\<^sup>2 \<le> N" using Suc.prems(3) by simp
  from isqrt_no_wrap [OF this Suc.prems(5) j]
  have sum: "unat (res + b) = t * 4 ^ Suc j + 4 ^ j" using Suc.prems(2) b by (subst unat_add_small) auto
  have b': "unat (drop_bit 2 b) = 4 ^ j div 4" using b by (simp add: unat_drop_bit del: drop_bit_eq_div)
  have half: "unat (drop_bit 1 res) = 2 * t * 4 ^ j" using Suc.prems(2) by (simp add: unat_drop_bit del: drop_bit_eq_div)
  have sq: "(t * 2 ^ Suc j)\<^sup>2 = t\<^sup>2 * 4 ^ Suc j" for t :: nat
    by (simp add: power_mult_distrib power2_eq_square four_power algebra_simps)
  have sq': "(u * 2 ^ j)\<^sup>2 = u\<^sup>2 * 4 ^ j" for u :: nat
    by (simp add: power_mult_distrib power2_eq_square four_power algebra_simps)
  show ?case
  proof (cases "res + b \<le> n")
    case True
    let ?n = "n - (res + b)" and ?r = "drop_bit 1 res + b"
    have n: "unat ?n = unat n - (t * 4 ^ Suc j + 4 ^ j)" "t * 4 ^ Suc j + 4 ^ j \<le> unat n"
      using True sum by (simp_all add: unat_diff_le word_le_nat_alt)
    have "unat ?r = (2 * t + 1) * 4 ^ j"
      using half b isqrt_no_wrap [OF \<open>(t * 2 ^ Suc j)\<^sup>2 \<le> N\<close> Suc.prems(5) j] by (subst unat_add_small) auto
    moreover have "unat ?n + ((2 * t + 1) * 2 ^ j)\<^sup>2 = N"
      using n Suc.prems(3) unfolding sq sq' by (simp add: power2_eq_square algebra_simps)
    moreover have "N < ((2 * t + 1 + 1) * 2 ^ j)\<^sup>2" using Suc.prems(4) by (simp add: algebra_simps)
    ultimately have "(unat (isqrt_loop ?n ?r (drop_bit 2 b)))\<^sup>2 \<le> N \<and> N < (unat (isqrt_loop ?n ?r (drop_bit 2 b)) + 1)\<^sup>2"
      using Suc.IH [OF b'] Suc.prems(5) by blast
    then show ?thesis using nz True by (subst (1 2) isqrt_loop.simps) simp
  next
    case False
    then have lt: "unat n < t * 4 ^ Suc j + 4 ^ j" using sum by (simp add: word_le_nat_alt)
    have "unat n + (2 * t * 2 ^ j)\<^sup>2 = N" using Suc.prems(3) by (simp add: algebra_simps)
    moreover have "N < ((2 * t + 1) * 2 ^ j)\<^sup>2"
      using lt Suc.prems(3) unfolding sq sq' by (simp add: power2_eq_square algebra_simps)
    ultimately have "(unat (isqrt_loop n (drop_bit 1 res) (drop_bit 2 b)))\<^sup>2 \<le> N \<and>
        N < (unat (isqrt_loop n (drop_bit 1 res) (drop_bit 2 b)) + 1)\<^sup>2"
      using Suc.IH [OF b' half] Suc.prems(5) by blast
    then show ?thesis using nz False by (subst (1 2) isqrt_loop.simps) simp
  qed
qed

lemma IntegerSquareRoot_bounds:
  "(unat (IntegerSquareRoot n))\<^sup>2 \<le> unat n" "unat n < (unat (IntegerSquareRoot n) + 1)\<^sup>2"
proof -
  have n: "unat n < 2 ^ 64" using unsigned_less [of n, where ?'a = nat] by simp
  obtain i where i: "unat (isqrt_start n (push_bit 62 1)) = 4 ^ i div 4" "unat n < 4 ^ i"
    using isqrt_start_result [of 32 "push_bit 62 1" n] n by auto
  have "unat n < ((0 + 1) * 2 ^ i)\<^sup>2" using i(2) by (simp add: power2_eq_square four_power)
  then show "(unat (IntegerSquareRoot n))\<^sup>2 \<le> unat n" "unat n < (unat (IntegerSquareRoot n) + 1)\<^sup>2"
    using isqrt_loop_result [OF i(1), of 0 0 n "unat n"] n by (simp_all add: IntegerSquareRoot_def)
qed

section \<open>Moving averages\<close>

lemma unat_mult_small:
  "unat a * unat (b :: 'a::len word) < 2 ^ LENGTH('a) \<Longrightarrow> unat (a * b) = unat a * unat b"
  by (rule unat_mult_lem [THEN iffD1])

lemma unat_mult_64: "unat a * unat (b :: uint64) < 2 ^ 64 \<Longrightarrow> unat (a * b) = unat a * unat b"
  by (rule unat_mult_small) simp

lemma unat_mult_256: "unat a * unat (b :: arith_uint256) < 2 ^ 256 \<Longrightarrow> unat (a * b) = unat a * unat b"
  by (rule unat_mult_small) simp

lemma unat_add_64: "unat a + unat (b :: uint64) < 2 ^ 64 \<Longrightarrow> unat (a + b) = unat a + unat b"
  by (rule unat_add_small) simp

lemma unat_FP_SCALE: "unat FP_SCALE = 2 ^ 16"
  by (simp add: FP_SCALE_def)

lemma unat_word_of_int_small: "0 \<le> i \<Longrightarrow> i < 2 ^ LENGTH('a) \<Longrightarrow> unat (word_of_int i :: 'a::len word) = nat i"
  by (simp add: unat_eq_nat_uint uint_word_of_int_eq take_bit_int_eq_self)

lemma ema_alpha_le: "unat (ema_alpha halfLife) \<le> 2 ^ 16"
proof -
  have "unat (45426 div w :: uint64) \<le> 45426" for w by (simp add: unat_div_distrib)
  then have "unat (45426 div w :: uint64) \<le> 2 ^ 16" for w by (rule order_trans) simp
  then show ?thesis by (simp add: ema_alpha_def max_def)
qed

lemma weighted_average:
  fixes lo hi :: nat
  assumes "a \<le> p" and "0 < p" and "lo \<le> x" "x \<le> hi" and "lo \<le> y" "y \<le> hi"
  shows "lo \<le> (a * x + (p - a) * y) div p" and "(a * x + (p - a) * y) div p \<le> hi"
    and "a * x + (p - a) * y \<le> p * hi"
proof -
  have c: "a * c + (p - a) * c = p * c" for c :: nat using assms(1) by (simp flip: add_mult_distrib)
  have "a * lo + (p - a) * lo \<le> a * x + (p - a) * y" using assms by (intro add_mono mult_le_mono) auto
  then have "lo * p \<le> a * x + (p - a) * y" by (simp only: c mult.commute [of lo p])
  then show "lo \<le> (a * x + (p - a) * y) div p" using assms(2) by (simp only: less_eq_div_iff_mult_less_eq)
  have "a * x + (p - a) * y \<le> a * hi + (p - a) * hi" using assms by (intro add_mono mult_le_mono) auto
  then show "a * x + (p - a) * y \<le> p * hi" by (simp only: c)
  then show "(a * x + (p - a) * y) div p \<le> hi"
    using assms(2) by (metis div_le_mono nonzero_mult_div_cancel_left less_not_refl2)
qed

lemma ema_step_between:
  assumes "unat alpha \<le> 2 ^ 16" and "lo \<le> bt" "bt \<le> hi" and "0 \<le> lo" "hi < 2 ^ 32"
    and "nat lo * 2 ^ 16 \<le> unat e" "unat e \<le> nat hi * 2 ^ 16"
  shows "nat lo * 2 ^ 16 \<le> unat (ema_step alpha bt e) \<and> unat (ema_step alpha bt e) \<le> nat hi * 2 ^ 16"
proof -
  let ?a = "unat alpha" and ?x = "nat bt * 2 ^ 16" and ?e = "unat e"
  have hi: "nat hi * 2 ^ 16 < 2 ^ 48" using assms(5) by (simp add: nat_less_iff)
  have x: "nat lo * 2 ^ 16 \<le> ?x" "?x \<le> nat hi * 2 ^ 16" using assms by (simp_all add: nat_mono)
  note w = weighted_average [OF assms(1) _ x assms(6,7), simplified]
  have s: "unat (word_of_int bt * FP_SCALE :: uint64) = ?x"
    using assms hi x(2) by (subst unat_mult_small) (auto simp: unat_word_of_int_small unat_FP_SCALE)
  have total: "?a * ?x + (2 ^ 16 - ?a) * ?e < 2 ^ 64" using w(3) hi by simp
  have o: "unat (FP_SCALE - alpha) = 2 ^ 16 - ?a"
    using assms(1) by (simp add: unat_diff_le word_le_nat_alt unat_FP_SCALE)
  have "unat (alpha * (word_of_int bt * FP_SCALE)) = ?a * ?x"
    using unat_mult_64 [of alpha "word_of_int bt * FP_SCALE"] le_less_trans [OF le_add1 total] by (simp only: s)
  moreover have "unat ((FP_SCALE - alpha) * e) = (2 ^ 16 - ?a) * ?e"
    using unat_mult_64 [of "FP_SCALE - alpha" e] le_less_trans [OF le_add2 total] by (simp only: o)
  ultimately have "unat (ema_step alpha bt e) = (?a * ?x + (2 ^ 16 - ?a) * ?e) div 2 ^ 16"
    using total by (simp only: ema_step_def Let_def unat_div_distrib unat_FP_SCALE unat_add_64)
  then show ?thesis using w(1,2) by simp
qed

lemma ema_between:
  assumes "unat alpha \<le> 2 ^ 16" and "\<And>t. t \<in> set ts \<Longrightarrow> lo \<le> t \<and> t \<le> hi" and "0 \<le> lo" "hi < 2 ^ 32"
    and "nat lo * 2 ^ 16 \<le> unat e" "unat e \<le> nat hi * 2 ^ 16"
  shows "nat lo * 2 ^ 16 \<le> unat (foldr (ema_step alpha) ts e) \<and>
    unat (foldr (ema_step alpha) ts e) \<le> nat hi * 2 ^ 16"
  using assms(2)
proof (induction ts)
  case (Cons t ts)
  then have "nat lo * 2 ^ 16 \<le> unat (foldr (ema_step alpha) ts e) \<and>
      unat (foldr (ema_step alpha) ts e) \<le> nat hi * 2 ^ 16" by simp
  then show ?case using ema_step_between [OF assms(1) _ _ assms(3,4), of t "foldr (ema_step alpha) ts e"] Cons.prems [of t]
    by simp
qed (use assms in simp)

lemma block_times_range: "t \<in> set (block_times m n p) \<Longrightarrow> 1 \<le> t \<and> t < 2 ^ 32"
proof (induction n arbitrary: p)
  case (Suc n)
  have u: "0 \<le> uint a" "uint a < 2 ^ 32" for a :: uint32 using uint_bounded [of a] by simp_all
  have "GetBlockTime c - GetBlockTime q < 2 ^ 32" for c q
    unfolding GetBlockTime_def using u(2) [of "nTime c"] u(1) [of "nTime q"] by linarith
  then show ?case using Suc by (auto simp: Let_def not_less split: option.splits if_splits)
qed simp

lemma block_times_extremes:
  assumes "ts = block_times m n p" and "ts \<noteq> []"
  shows "1 \<le> Min (set ts)" and "Max (set ts) < 2 ^ 32" and "t \<in> set ts \<Longrightarrow> Min (set ts) \<le> t \<and> t \<le> Max (set ts)"
proof -
  have r: "1 \<le> t \<and> t < 2 ^ 32" if "t \<in> set ts" for t using block_times_range that assms(1) by blast
  show "1 \<le> Min (set ts)" "Max (set ts) < 2 ^ 32" using r assms(2) by simp_all
qed simp

lemma block_times_nonempty:
  assumes "index_wf m" and "m p = Some i" and "0 < nHeight i" and "0 < n"
  shows "block_times m n p \<noteq> []"
proof -
  obtain q where q: "pprev i = Some q" using index_wf_pprev(1) [OF assms(1,2)] assms(3) by fastforce
  then obtain j where "m q = Some j" using index_wf_pprev(2) [OF assms(1,2)] by blast
  then show ?thesis using assms(2,4) q by (cases n) (simp_all add: Let_def)
qed

lemma ComputeBlockTimeEMA_between:
  assumes "m p = Some i" and "0 \<le> lookback" and "ts = block_times m (nat (min lookback (int (nHeight i)))) p"
    and "ts \<noteq> []" and "\<And>t. t \<in> set ts \<Longrightarrow> lo \<le> t \<and> t \<le> hi" and "0 \<le> lo" "hi < 2 ^ 32"
  obtains e where "ComputeBlockTimeEMA m p halfLife lookback = Inr e"
    and "nat lo * 2 ^ 16 \<le> unat e" "unat e \<le> nat hi * 2 ^ 16"
proof -
  let ?e = "word_of_int (last ts) * FP_SCALE :: uint64"
  let ?f = "foldr (ema_step (ema_alpha halfLife)) ts ?e"
  have l: "lo \<le> last ts" "last ts \<le> hi" using assms(5) [of "last ts"] assms(4) by simp_all
  have w: "unat (word_of_int (last ts) :: uint64) = nat (last ts)"
    using l assms(6,7) by (intro unat_word_of_int_small) simp_all
  have h: "nat lo * 2 ^ 16 \<le> nat (last ts) * 2 ^ 16" "nat (last ts) * 2 ^ 16 \<le> nat hi * 2 ^ 16" using l by simp_all
  have "nat hi * 2 ^ 16 < 2 ^ 64" using assms(7) by (simp add: nat_less_iff)
  then have e: "unat ?e = nat (last ts) * 2 ^ 16"
    using unat_mult_64 [of "word_of_int (last ts)" FP_SCALE] le_less_trans [OF h(2)] by (simp only: w unat_FP_SCALE)
  have "nat lo * 2 ^ 16 \<le> unat ?f \<and> unat ?f \<le> nat hi * 2 ^ 16"
    using h by (intro ema_between [OF ema_alpha_le assms(5-7)]) (simp_all only: e)
  moreover have "ComputeBlockTimeEMA m p halfLife lookback = Inr ?f"
    using assms(1-4) by (simp add: ComputeBlockTimeEMA_def Let_def)
  ultimately show ?thesis using that by blast
qed

section \<open>Transaction load\<close>

lemma load_multiplier_sqrt:
  assumes "unat baseline < unat avg" and "0 < unat baseline" and "0 < unat mm"
    and "unat baseline * unat mm * unat mm < 2 ^ 32"
  defines "ratio \<equiv> min (unat avg) (unat baseline * unat mm * unat mm) * 2 ^ 32 div unat baseline"
    and "r \<equiv> unat (load_multiplier avg baseline mm)"
  shows "r\<^sup>2 \<le> ratio" and "ratio < (r + 1)\<^sup>2" and "2 ^ 16 \<le> r" and "r \<le> unat mm * 2 ^ 16"
proof -
  let ?b = "unat baseline" and ?m = "unat mm"
  let ?c = "min avg (baseline * mm * mm)" and ?n = "min (unat avg) (?b * ?m * ?m)"
  have bm: "?b * ?m \<le> ?b * ?m * ?m" using assms(3) by simp
  have mb: "?m \<le> ?b * ?m * ?m" using assms(2,3) by (simp add: mult.assoc)
  have "?b * ?m < 2 ^ 64" using le_less_trans [OF bm assms(4)] by simp
  then have "unat (baseline * mm) = ?b * ?m" by (rule unat_mult_64)
  then have cap: "unat (baseline * mm * mm) = ?b * ?m * ?m"
    using unat_mult_64 [of "baseline * mm" mm] assms(4) by simp
  have c: "unat ?c = ?n" by (simp add: min_def cap word_le_nat_alt)
  have n: "?n < 2 ^ 32" using assms(4) by simp
  have "unat (?c * FP_SCALE) = ?n * 2 ^ 16"
    using unat_mult_64 [of ?c FP_SCALE] n by (simp add: c unat_FP_SCALE)
  then have "unat (?c * FP_SCALE * FP_SCALE) = ?n * 2 ^ 32"
    using unat_mult_64 [of "?c * FP_SCALE" FP_SCALE] n by (simp add: unat_FP_SCALE)
  then have q: "unat ((?c * FP_SCALE * FP_SCALE) div baseline) = ratio" by (simp add: unat_div_distrib ratio_def)
  let ?s = "IntegerSquareRoot ((?c * FP_SCALE * FP_SCALE) div baseline)"
  note s = IntegerSquareRoot_bounds [of "(?c * FP_SCALE * FP_SCALE) div baseline", unfolded q]
  have "?b \<le> ?n" using assms(1) bm mult_le_mono2 [of 1 "?m * ?m" ?b] assms(3) by (simp add: mult.assoc)
  then have "?b * 2 ^ 32 \<le> ?n * 2 ^ 32" by (rule mult_le_mono1)
  then have "(2 ^ 32 :: nat) \<le> ratio" unfolding ratio_def using assms(2) by (simp add: less_eq_div_iff_mult_less_eq mult.commute)
  then have "(2 ^ 16)\<^sup>2 < (unat ?s + 1)\<^sup>2" using s(2) by simp
  then have lo: "2 ^ 16 \<le> unat ?s" using power2_less_imp_less [of "2 ^ 16" "unat ?s + 1"] by simp
  have "ratio \<le> ?b * ?m * ?m * 2 ^ 32 div ?b" unfolding ratio_def by (intro div_le_mono mult_le_mono1) simp
  also have "\<dots> = (?m * 2 ^ 16)\<^sup>2" using assms(2) by (simp add: power2_eq_square mult.assoc)
  finally have "(unat ?s)\<^sup>2 \<le> (?m * 2 ^ 16)\<^sup>2" using s(1) by (rule order_trans [rotated])
  then have hi: "unat ?s \<le> ?m * 2 ^ 16" using power2_nat_le_eq_le by blast
  have mf: "unat (mm * FP_SCALE) = ?m * 2 ^ 16"
    using unat_mult_64 [of mm FP_SCALE] le_less_trans [OF mb assms(4)] by (simp add: unat_FP_SCALE)
  have "load_multiplier avg baseline mm = ?s"
    using lo hi by (simp add: load_multiplier_def Let_def word_less_nat_alt unat_FP_SCALE mf)
  then show "r\<^sup>2 \<le> ratio" "ratio < (r + 1)\<^sup>2" "2 ^ 16 \<le> r" "r \<le> ?m * 2 ^ 16"
    using s lo hi by (simp_all add: r_def)
qed

text \<open>The parameters for which the load adjustment does not wrap.\<close>

definition load_params_ok :: "Params \<Rightarrow> bool" where
  "load_params_ok params \<longleftrightarrow>
     nLoadDiffBaseline params * nLoadDiffMaxMultiplier params * nLoadDiffMaxMultiplier params < 2 ^ 32"

definition load_cap :: "Params \<Rightarrow> nat" where
  "load_cap params = (if load_enabled params then nat (nLoadDiffMaxMultiplier params) else 1)"

lemma load_params_words:
  assumes "load_enabled params" and "load_params_ok params"
  defines "b \<equiv> word_of_int (nLoadDiffBaseline params) :: uint64"
    and "mm \<equiv> word_of_int (nLoadDiffMaxMultiplier params) :: uint64"
  shows "0 < unat b" and "unat mm = load_cap params" and "0 < unat mm" and "unat b * unat mm * unat mm < 2 ^ 32"
proof -
  let ?b = "nLoadDiffBaseline params" and ?m = "nLoadDiffMaxMultiplier params"
  have pos: "1 \<le> ?b" "1 \<le> ?m" using assms(1) by (auto simp: load_enabled_def)
  have lt: "?b * ?m * ?m < 2 ^ 32" using assms(2) by (simp add: load_params_ok_def)
  have "1 \<le> ?m * ?m" "1 \<le> ?b * ?m" using pos mult_mono [of 1 ?m 1 ?m] mult_mono [of 1 ?b 1 ?m] by simp_all
  then have "?b * 1 \<le> ?b * (?m * ?m)" "1 * ?m \<le> (?b * ?m) * ?m"
    using pos mult_left_mono [of 1 "?m * ?m" ?b] mult_right_mono [of 1 "?b * ?m" ?m] by simp_all
  then have "?b < 2 ^ 32" "?m < 2 ^ 32" using lt by (simp_all add: mult.assoc)
  then have u: "unat b = nat ?b" "unat mm = nat ?m" using pos by (simp_all add: b_def mm_def unat_word_of_int_small)
  then show "0 < unat b" "0 < unat mm" "unat mm = load_cap params" using pos assms(1) by (simp_all add: load_cap_def)
  show "unat b * unat mm * unat mm < 2 ^ 32" using lt pos u by (simp add: nat_mult_distrib [symmetric] nat_less_iff)
qed

lemma unat_scaled_target:
  assumes "unat bn * 2 ^ 16 < 2 ^ 256"
  shows "unat (bn * ucast FP_SCALE div ucast (l :: uint64) :: arith_uint256) = unat bn * 2 ^ 16 div unat l"
proof -
  have "unat (bn * ucast FP_SCALE) = unat bn * 2 ^ 16"
    using assms by (subst unat_mult_small) (simp_all add: unat_ucast_small unat_FP_SCALE)
  then show ?thesis using unsigned_less [of l, where ?'a = nat] by (simp add: unat_div_distrib unat_ucast_small)
qed

lemma load_adjusted_between:
  assumes "load_enabled params" and "load_params_ok params" and "unat bn * 2 ^ 16 < 2 ^ 256"
    and "tx_last > tx_first \<Longrightarrow> (word_of_int window :: uint64) \<noteq> 0"
  obtains b where "load_adjusted params tx_last tx_first window bn = Inr b"
    and "unat bn div load_cap params \<le> unat b" and "unat b \<le> unat bn"
proof -
  let ?avg = "(tx_last - tx_first) div word_of_int window :: uint64"
  let ?b = "word_of_int (nLoadDiffBaseline params) :: uint64" and ?m = "word_of_int (nLoadDiffMaxMultiplier params) :: uint64"
  let ?l = "load_multiplier ?avg ?b ?m"
  show ?thesis
  proof (cases "tx_first < tx_last \<and> 0 < sint ?avg \<and> ?b < ?avg")
    case False
    then show ?thesis using assms(4) by (intro that [of bn]) (auto simp: load_adjusted_def Let_def)
  next
    case True
    note w = load_params_words [OF assms(1,2)]
    have "unat ?b < unat ?avg" using True by (simp add: word_less_nat_alt)
    from load_multiplier_sqrt(3,4) [OF this w(1,3,4)]
    have l: "2 ^ 16 \<le> unat ?l" "unat ?l \<le> load_cap params * 2 ^ 16" by (simp_all only: w(2))
    then have nz: "?l \<noteq> 0" by auto
    let ?r = "bn * ucast FP_SCALE div ucast ?l :: arith_uint256"
    note r = unat_scaled_target [OF assms(3), of ?l]
    have "unat bn * 2 ^ 16 div unat ?l \<le> unat bn * 2 ^ 16 div 2 ^ 16" by (rule div_le_mono2 [OF _ l(1)]) simp
    then have hi: "unat ?r \<le> unat bn" using r by simp
    have "unat bn div load_cap params = unat bn * 2 ^ 16 div (load_cap params * 2 ^ 16)" by simp
    also have "\<dots> \<le> unat bn * 2 ^ 16 div unat ?l" using l by (intro div_le_mono2) auto
    finally have lo: "unat bn div load_cap params \<le> unat ?r" by (simp only: r)
    show ?thesis using True assms(4) nz lo hi by (intro that [of ?r]) (auto simp: load_adjusted_def Let_def)
  qed
qed

lemma sint_small:
  assumes "unat (a :: uint64) < 2 ^ 63"
  shows "sint a = int (unat a)"
proof -
  have "int (unat a) < int (2 ^ 63)" using assms by (simp only: of_nat_less_iff)
  then have "uint a < 2 ^ 63" by simp
  moreover have "- (2 ^ 63) \<le> uint a" by (rule order_trans [of _ 0]) simp_all
  ultimately have "signed_take_bit 63 (uint a) = uint a" by (intro signed_take_bit_int_eq_self)
  then show ?thesis by (simp add: sint_uint [of a] del: signed_of_int)
qed

text \<open>From twice the baseline on the target is divided by more than 1.4.\<close>

lemma load_multiplier_busy:
  assumes "2 * unat b \<le> unat avg" and "0 < unat b" and "2 \<le> unat mm" and "unat b * unat mm * unat mm < 2 ^ 32"
  shows "92681 \<le> unat (load_multiplier avg b mm)"
proof -
  let ?ratio = "min (unat avg) (unat b * unat mm * unat mm) * 2 ^ 32 div unat b"
  have more: "unat b < unat avg" "0 < unat mm" using assms(1-3) by linarith+
  have "2 * 2 \<le> unat mm * unat mm" using assms(3) by (intro mult_le_mono) simp_all
  then have "unat b * 2 \<le> unat b * (unat mm * unat mm)" by (intro mult_le_mono2) simp
  then have "2 * unat b \<le> min (unat avg) (unat b * unat mm * unat mm)" using assms(1) by (simp add: mult.assoc mult.commute)
  then have "2 * unat b * 2 ^ 32 div unat b \<le> ?ratio" by (intro div_le_mono mult_le_mono1)
  then have "2 ^ 33 \<le> ?ratio" using assms(2) by simp
  then have "2 ^ 33 < (unat (load_multiplier avg b mm) + 1)\<^sup>2"
    using load_multiplier_sqrt(2) [OF more(1) assms(2) more(2) assms(4)] by (rule le_less_trans)
  moreover have "(92681 :: nat)\<^sup>2 < 2 ^ 33" by simp
  ultimately have "92681\<^sup>2 < (unat (load_multiplier avg b mm) + 1)\<^sup>2" by (rule less_trans [rotated])
  then show ?thesis using power2_less_imp_less [of 92681 "unat (load_multiplier avg b mm) + 1"] by simp
qed

lemma load_adjusted_busy:
  assumes "load_enabled params" and "load_params_ok params" and "unat bn * 2 ^ 16 < 2 ^ 256"
    and "0 < window" and "window < 2 ^ 63" and "unat tx_last < 2 ^ 63"
    and "2 * nLoadDiffBaseline params * window \<le> int (unat tx_last) - int (unat tx_first)"
  obtains b where "load_adjusted params tx_last tx_first window bn = Inr b" and "unat b * 92681 \<le> unat bn * 2 ^ 16"
proof -
  let ?B = "nLoadDiffBaseline params"
  let ?avg = "(tx_last - tx_first) div word_of_int window :: uint64"
  let ?b = "word_of_int ?B :: uint64" and ?m = "word_of_int (nLoadDiffMaxMultiplier params) :: uint64"
  let ?l = "load_multiplier ?avg ?b ?m"
  note w = load_params_words [OF assms(1,2)]
  have B: "0 < ?B" "2 \<le> load_cap params" using assms(1) by (auto simp: load_enabled_def load_cap_def)
  have "0 < 2 * ?B * window" using B(1) assms(4) by simp
  then have lt: "unat tx_first < unat tx_last" using assms(7) by linarith
  then have d: "unat (tx_last - tx_first) = unat tx_last - unat tx_first" by (simp add: unat_sub_if')
  have win: "unat (word_of_int window :: uint64) = nat window" using assms(4,5) by (simp add: unat_word_of_int_small)
  have avg: "unat ?avg = (unat tx_last - unat tx_first) div nat window" by (simp add: unat_div_distrib d win)
  have "nat (2 * ?B * window) \<le> unat tx_last - unat tx_first" using assms(7) lt by linarith
  then have "nat (2 * ?B) * nat window \<le> unat tx_last - unat tx_first" using B(1) assms(4) by (simp add: nat_mult_distrib)
  then have "nat (2 * ?B) * nat window div nat window \<le> unat ?avg" unfolding avg by (rule div_le_mono)
  then have avg2: "nat (2 * ?B) \<le> unat ?avg" using assms(4) by simp
  have "?b = of_nat (nat ?B)" using B(1) by simp
  then have "unat ?b \<le> nat ?B" by (metis unat_of_nat mod_less_eq_dividend)
  then have b2: "2 * unat ?b \<le> unat ?avg" using avg2 B(1) by linarith
  have "unat ?avg \<le> unat tx_last" unfolding avg by (meson diff_le_self div_le_dividend order_trans)
  then have "unat ?avg < 2 ^ 63" using assms(6) by (rule le_less_trans)
  then have s: "sint ?avg = int (unat ?avg)" by (rule sint_small)
  have more: "unat ?b < unat ?avg" using b2 w(1) by linarith
  have "2 \<le> unat ?m" using B(2) by (simp only: w(2))
  then have big: "92681 \<le> unat ?l" by (rule load_multiplier_busy [OF b2 w(1) _ w(4)])
  then have nz: "?l \<noteq> 0" by auto
  let ?r = "bn * ucast FP_SCALE div ucast ?l :: arith_uint256"
  have "unat ?r * 92681 \<le> unat bn * 2 ^ 16 div unat ?l * unat ?l"
    unfolding unat_scaled_target [OF assms(3)] using big by (rule mult_le_mono2)
  then have "unat ?r * 92681 \<le> unat bn * 2 ^ 16" by (rule order_trans) (simp add: div_times_less_eq_dividend)
  moreover have "(word_of_int window :: uint64) \<noteq> 0" using win assms(4) by (auto simp flip: unat_eq_0)
  moreover have "0 < sint ?avg" unfolding s using more by linarith
  moreover have "tx_first < tx_last" "?b < ?avg" using lt more by (simp_all only: word_less_nat_alt)
  ultimately show ?thesis using nz by (intro that [of ?r]) (auto simp: load_adjusted_def Let_def)
qed

section \<open>One step of the per-block adjustment\<close>

definition clamp_milli :: "nat \<Rightarrow> nat \<Rightarrow> nat" where
  "clamp_milli maxAdj x = max (1000000 div maxAdj) (min maxAdj x)"

lemma clamp_milli_mono: "x \<le> y \<Longrightarrow> clamp_milli a x \<le> clamp_milli a y"
  by (auto simp: clamp_milli_def)

lemma clamp_milli_bounds: "1000 \<le> a \<Longrightarrow> 1000000 div a \<le> clamp_milli a x \<and> clamp_milli a x \<le> a"
proof -
  assume "1000 \<le> a"
  then have "1000000 div a \<le> 1000000 div 1000" by (intro div_le_mono2) auto
  then show ?thesis using \<open>1000 \<le> a\<close> by (auto simp: clamp_milli_def)
qed

text \<open>What the per-block adjustment expects of the parameters.\<close>

definition ema_params_ok :: "Params \<Rightarrow> bool" where
  "ema_params_ok params \<longleftrightarrow>
     fDagUseEma params \<and> \<not> fPowNoRetargeting params \<and> \<not> fPowAllowMinDifficultyBlocks params \<and>
     1000 \<le> nDagTargetSpacingMs params \<and> nDagTargetSpacingMs params < 2 ^ 32 \<and>
     1000 \<le> nDagEmaMaxAdjust params \<and> nDagEmaMaxAdjust params \<le> 1000000 \<and>
     0 < nDagDiffWindowSize params \<and> 0 \<le> nDagEmaSlowHalfLife params \<and>
     nDagEmaSlowHalfLife params < 2 ^ 32 \<and> load_params_ok params \<and>
     unat (UintToArith256 (powLimit params)) div 1000 * nat (nDagEmaMaxAdjust params) * 2 ^ 16 < 2 ^ 256"

lemma ema_params_ok_testnet: "ema_params_ok CQbtcTestNetParams"
  by (simp add: ema_params_ok_def chain_params load_params_ok_def)

lemma unat_clamp:
  "unat (if (if x > m then m else x) < d then d else (if x > m then m else x)) =
     max (unat d) (min (unat m) (unat (x :: uint64)))"
  by (auto simp: word_less_nat_alt)

lemma ema_adjust_between:
  assumes "1000 \<le> nDagEmaMaxAdjust params" "nDagEmaMaxAdjust params \<le> 1000000"
    and "0 < sp" "sp < 2 ^ 32" and "0 < lo" "hi < 2 ^ 32"
    and "lo * 2 ^ 16 \<le> unat fast" "unat fast \<le> hi * 2 ^ 16"
    and "lo * 2 ^ 16 \<le> unat slow" "unat slow \<le> hi * 2 ^ 16"
  defines "a \<equiv> nat (nDagEmaMaxAdjust params)"
  obtains r where "ema_adjust_milli params sp fast slow = Inr r"
    and "clamp_milli a (lo * 1000 div nat sp) \<le> unat r" and "unat r \<le> clamp_milli a (hi * 1000 div nat sp)"
proof -
  let ?b = "(fast * 7 + slow * 3) div 10" and ?t = "word_of_int sp * FP_SCALE :: uint64"
  let ?n = "(unat fast * 7 + unat slow * 3) div 10"
  have h: "hi * 2 ^ 16 < 2 ^ 48" using assms(6) by simp
  have f: "unat fast < 2 ^ 48" "unat slow < 2 ^ 48" using assms(8,10) h by linarith+
  have "unat (fast * 7) = unat fast * 7" "unat (slow * 3) = unat slow * 3"
    using unat_mult_64 [of fast 7] unat_mult_64 [of slow 3] f by simp_all
  then have b: "unat ?b = ?n" using unat_add_64 [of "fast * 7" "slow * 3"] f by (simp add: unat_div_distrib)
  have "lo * 2 ^ 16 * 10 \<le> unat fast * 7 + unat slow * 3" "unat fast * 7 + unat slow * 3 \<le> hi * 2 ^ 16 * 10"
    using assms(7-10) by simp_all
  then have n: "lo * 2 ^ 16 \<le> ?n" "?n \<le> hi * 2 ^ 16" by (simp_all add: less_eq_div_iff_mult_less_eq div_le_mono)
  have "unat (word_of_int sp :: uint64) = nat sp" using assms(3,4) by (intro unat_word_of_int_small) simp_all
  then have t: "unat ?t = nat sp * 2 ^ 16" using unat_mult_64 [of "word_of_int sp" FP_SCALE] assms(3,4)
    by (simp add: unat_FP_SCALE nat_less_iff)
  have nz: "?b \<noteq> 0" "?t \<noteq> 0" using n(1) assms(3,5) b t by (auto simp flip: unat_eq_0)
  let ?x = "?b * 1000 div ?t"
  have "unat (?b * 1000) = ?n * 1000" using unat_mult_64 [of ?b 1000] b n(2) h by simp
  then have x: "unat ?x = ?n * 1000 div (nat sp * 2 ^ 16)" using t by (simp add: unat_div_distrib)
  have c: "c * 2 ^ 16 * 1000 div (nat sp * 2 ^ 16) = c * 1000 div nat sp" for c :: nat
  proof -
    have "c * 2 ^ 16 * 1000 = c * 1000 * 2 ^ 16" by simp
    then show ?thesis by (simp only: div_mult_mult2 [OF power_not_zero [OF zero_neq_numeral [symmetric]]])
  qed
  have "lo * 2 ^ 16 * 1000 div (nat sp * 2 ^ 16) \<le> unat ?x" "unat ?x \<le> hi * 2 ^ 16 * 1000 div (nat sp * 2 ^ 16)"
    unfolding x using n by (intro div_le_mono mult_le_mono1; simp)+
  then have xb: "lo * 1000 div nat sp \<le> unat ?x" "unat ?x \<le> hi * 1000 div nat sp" unfolding c by simp_all
  have mx: "unat (word_of_int (nDagEmaMaxAdjust params) :: uint64) = a"
    unfolding a_def using assms(1,2) by (intro unat_word_of_int_small) simp_all
  then have mnz: "(word_of_int (nDagEmaMaxAdjust params) :: uint64) \<noteq> 0" using assms(1) by (auto simp: a_def)
  let ?m = "word_of_int (nDagEmaMaxAdjust params) :: uint64"
  let ?u = "if ?x > ?m then ?m else ?x" and ?d = "1000000 div ?m"
  have r: "unat (if ?u < ?d then ?d else ?u) = clamp_milli a (unat ?x)"
    by (simp only: unat_clamp clamp_milli_def mx unat_div_distrib [of 1000000]) simp
  have "ema_adjust_milli params sp fast slow = Inr (if ?u < ?d then ?d else ?u)"
    using nz mnz by (simp add: ema_adjust_milli_def Let_def)
  then show ?thesis by (rule that) (simp_all only: r clamp_milli_mono xb)
qed

lemma capped_compact_target:
  fixes limit x :: arith_uint256
  defines "c \<equiv> SetCompact (capped_compact limit x)"
  shows "\<not> fNegative c" and "\<not> fOverflow c" and "unat (target c) \<le> unat limit" and "unat (target c) \<le> unat x"
    and "min (unat limit) (unat x) * 2 ^ 15 \<le> unat (target c) * (2 ^ 15 + 1)"
proof -
  let ?y = "if x > limit then limit else x"
  have y: "unat ?y = min (unat limit) (unat x)" by (auto simp: word_less_nat_alt)
  note aux = SetCompact_GetCompact_aux [of ?y]
  then show "\<not> fNegative c" "\<not> fOverflow c" unfolding c_def capped_compact_def by blast+
  have t: "unat (target c) = compact_floor ?y" using aux unfolding c_def capped_compact_def by blast
  then show "unat (target c) \<le> unat limit" "unat (target c) \<le> unat x" using compact_floor_le [of ?y] y by simp_all
  have "unat ?y * 2 ^ 15 \<le> compact_floor ?y * 2 ^ 15 + compact_floor ?y"
    using compact_floor_precision [of ?y] compact_floor_le [of ?y] by (simp add: diff_mult_distrib)
  then show "min (unat limit) (unat x) * 2 ^ 15 \<le> unat (target c) * (2 ^ 15 + 1)" by (simp add: t y)
qed

lemma ema_load_between:
  assumes "index_wf m" and "m p = Some i" and "ema_params_ok params" and "0 \<le> post" and "post \<le> int (nHeight i)"
    and "unat bn * 2 ^ 16 < 2 ^ 256"
  obtains b where "ema_load m params p i post bn = Inr b"
    and "unat bn div load_cap params \<le> unat b" and "unat b \<le> unat bn"
proof (cases "load_enabled params \<and> pprev i \<noteq> None")
  case False
  then show ?thesis by (intro that [of bn]) (auto simp: ema_load_def div_le_dividend)
next
  case True
  let ?w = "min (nDagEmaSlowHalfLife params * 2) post"
  have w: "0 \<le> ?w" "?w \<le> int (nHeight i)" "?w < 2 ^ 64" using assms(3-5) by (auto simp: ema_params_ok_def)
  then have h: "int (nHeight i) - ?w = int (nHeight i - nat ?w)" by simp
  obtain q j where q: "GetAncestor m p (int (nHeight i) - ?w) = Some q" and j: "m q = Some j"
    unfolding h by (rule GetAncestor_height [OF assms(1,2), of "nHeight i - nat ?w"]) auto
  have "(word_of_int ?w :: uint64) \<noteq> 0" if "m_chain_tx_count i > m_chain_tx_count j"
  proof -
    have "q = p" if "?w = 0" using q that by (simp add: GetAncestor_walk [OF assms(1,2)])
    then have "?w \<noteq> 0" using that j assms(2) by auto
    then have "unat (word_of_int ?w :: uint64) \<noteq> 0" using w by (subst unat_word_of_int_small) auto
    then show ?thesis by auto
  qed
  moreover have "load_params_ok params" using assms(3) by (simp add: ema_params_ok_def)
  ultimately obtain b where "load_adjusted params (m_chain_tx_count i) (m_chain_tx_count j) ?w bn = Inr b"
    and "unat bn div load_cap params \<le> unat b" and "unat b \<le> unat bn"
    using load_adjusted_between [OF _ _ assms(6)] True by metis
  then show ?thesis using True q j by (intro that) (simp_all add: ema_load_def Let_def)
qed

text \<open>The target the block times ask for, before the transaction load.\<close>

lemma ema_time_target:
  fixes m p i params lo hi
  defines "T \<equiv> target (SetCompact (nBits i))" and "L \<equiv> unat (UintToArith256 (powLimit params))"
    and "sp \<equiv> nDagTargetSpacingMs params div 1000" and "a \<equiv> nat (nDagEmaMaxAdjust params)"
    and "look \<equiv> min (nDagDiffWindowSize params) (int (nHeight i) - ema_activation params)"
  defines "ts \<equiv> block_times m (nat look) p"
  assumes wf: "index_wf m" and p: "m p = Some i" and params: "ema_params_ok params"
    and height: "ema_activation params < int (nHeight i)" and T: "unat T \<le> L"
    and samples: "\<And>t. t \<in> set ts \<Longrightarrow> int lo \<le> t \<and> t \<le> int hi" and lo: "0 < lo" and hi: "hi < 2 ^ 32"
  obtains f g r where "ComputeBlockTimeEMA m p (nDagEmaFastHalfLife params) look = Inr f"
    and "ComputeBlockTimeEMA m p (nDagEmaSlowHalfLife params) look = Inr g" and "ema_adjust_milli params sp f g = Inr r"
    and "clamp_milli a (lo * 1000 div nat sp) \<le> unat r" "unat r \<le> clamp_milli a (hi * 1000 div nat sp)"
    and "unat (T div 1000 * ucast r) = unat T div 1000 * unat r" and "unat (T div 1000 * ucast r) * 2 ^ 16 < 2 ^ 256"
proof -
  note ok = params [unfolded ema_params_ok_def]
  have act: "4 \<le> ema_activation params" by (simp add: ema_activation_def)
  have look: "0 < look" "min look (int (nHeight i)) = look" unfolding look_def using ok height act by auto
  have ne: "ts \<noteq> []" unfolding ts_def using look(1) height act by (intro block_times_nonempty [OF wf p]) auto
  have adj: "1000 \<le> nDagEmaMaxAdjust params" "nDagEmaMaxAdjust params \<le> 1000000" using ok by blast+
  have sp: "0 < sp" "sp < 2 ^ 32" unfolding sp_def using ok by auto
  have ema: "\<exists>e. ComputeBlockTimeEMA m p hl look = Inr e \<and> lo * 2 ^ 16 \<le> unat e \<and> unat e \<le> hi * 2 ^ 16" for hl
  proof (rule ComputeBlockTimeEMA_between [where m = m and p = p and i = i and lookback = look and ts = ts
          and lo = "int lo" and hi = "int hi" and halfLife = hl])
    show "ts = block_times m (nat (min look (int (nHeight i)))) p" by (simp only: look(2) ts_def)
    show "int hi < 2 ^ 32" using hi by simp
    fix e
    assume "ComputeBlockTimeEMA m p hl look = Inr e" "nat (int lo) * 2 ^ 16 \<le> unat e" "unat e \<le> nat (int hi) * 2 ^ 16"
    then show ?thesis by auto
  qed (use p look(1) ne samples in simp_all)
  from ema obtain f where f: "ComputeBlockTimeEMA m p (nDagEmaFastHalfLife params) look = Inr f"
    "lo * 2 ^ 16 \<le> unat f" "unat f \<le> hi * 2 ^ 16" by blast
  from ema obtain g where g: "ComputeBlockTimeEMA m p (nDagEmaSlowHalfLife params) look = Inr g"
    "lo * 2 ^ 16 \<le> unat g" "unat g \<le> hi * 2 ^ 16" by blast
  obtain r where r: "ema_adjust_milli params sp f g = Inr r"
    "clamp_milli a (lo * 1000 div nat sp) \<le> unat r" "unat r \<le> clamp_milli a (hi * 1000 div nat sp)"
    unfolding a_def by (rule ema_adjust_between [OF adj sp lo hi f(2,3) g(2,3)])
  have "1000 \<le> a" using adj(1) by (simp add: a_def)
  then have ra: "unat r \<le> a" using r(3) clamp_milli_bounds order_trans by blast
  have "unat T div 1000 * unat r * 2 ^ 16 \<le> L div 1000 * a * 2 ^ 16"
    using T ra by (intro mult_le_mono mult_le_mono1 div_le_mono) auto
  then have n16: "unat T div 1000 * unat r * 2 ^ 16 < 2 ^ 256"
    by (rule le_less_trans) (use ok in \<open>simp only: L_def a_def\<close>)
  have "unat (ucast r :: arith_uint256) = unat r"
    using unsigned_less [of r, where ?'a = nat] by (intro unat_ucast_small) simp
  moreover have "unat T div 1000 * unat r < 2 ^ 256" by (rule le_less_trans [OF _ n16]) simp
  ultimately have n: "unat (T div 1000 * ucast r) = unat T div 1000 * unat r"
    using unat_mult_256 [of "T div 1000" "ucast r"] by (simp add: unat_div_distrib del: power_numeral)
  show ?thesis by (rule that [OF f(1) g(1) r n]) (simp only: n n16)
qed

lemma GetNextWorkRequiredDAG_ema:
  assumes "m p = Some i" and "ema_params_ok params" and "ema_activation params < int (nHeight i)"
    and "look = min (nDagDiffWindowSize params) (int (nHeight i) - ema_activation params)"
    and "ComputeBlockTimeEMA m p (nDagEmaFastHalfLife params) look = Inr f"
    and "ComputeBlockTimeEMA m p (nDagEmaSlowHalfLife params) look = Inr g"
    and "ema_adjust_milli params (nDagTargetSpacingMs params div 1000) f g = Inr r"
    and "ema_load m params p i (int (nHeight i) - ema_activation params) (target (SetCompact (nBits i)) div 1000 * ucast r) = Inr b"
  shows "GetNextWorkRequiredDAG m (Some p) blk params = Inr (capped_compact (UintToArith256 (powLimit params)) b)"
proof -
  have "nDagTargetSpacingMs params sdiv 1000 = nDagTargetSpacingMs params div 1000" "0 < nDagTargetSpacingMs params div 1000"
    using assms(2) by (auto simp: ema_params_ok_def signed_divide_int_def)
  then show ?thesis using assms
    by (simp add: GetNextWorkRequiredDAG_def ema_retarget_def Let_def ema_params_ok_def)
qed

lemma ema_retarget_bounds:
  fixes m p i params lo hi
  defines "T \<equiv> target (SetCompact (nBits i))" and "L \<equiv> unat (UintToArith256 (powLimit params))"
    and "sp \<equiv> nDagTargetSpacingMs params div 1000" and "a \<equiv> nat (nDagEmaMaxAdjust params)"
    and "ts \<equiv> block_times m (nat (min (nDagDiffWindowSize params) (int (nHeight i) - ema_activation params))) p"
  assumes wf: "index_wf m" and p: "m p = Some i" and params: "ema_params_ok params"
    and height: "ema_activation params < int (nHeight i)" and T: "unat T \<le> L"
    and samples: "\<And>t. t \<in> set ts \<Longrightarrow> int lo \<le> t \<and> t \<le> int hi" and lo: "0 < lo" and hi: "hi < 2 ^ 32"
  obtains b where "GetNextWorkRequiredDAG m (Some p) blk params = Inr b"
    and "\<not> fNegative (SetCompact b)" "\<not> fOverflow (SetCompact b)"
    and "unat (target (SetCompact b)) \<le> min L (unat T div 1000 * clamp_milli a (hi * 1000 div nat sp))"
    and "min L (unat T div 1000 * clamp_milli a (lo * 1000 div nat sp) div load_cap params) * 2 ^ 15
         \<le> unat (target (SetCompact b)) * (2 ^ 15 + 1)"
proof -
  let ?post = "int (nHeight i) - ema_activation params"
  have act: "4 \<le> ema_activation params" by (simp add: ema_activation_def)
  obtain f g r where r: "ComputeBlockTimeEMA m p (nDagEmaFastHalfLife params) (min (nDagDiffWindowSize params) ?post) = Inr f"
    "ComputeBlockTimeEMA m p (nDagEmaSlowHalfLife params) (min (nDagDiffWindowSize params) ?post) = Inr g"
    "ema_adjust_milli params sp f g = Inr r"
    "clamp_milli a (lo * 1000 div nat sp) \<le> unat r" "unat r \<le> clamp_milli a (hi * 1000 div nat sp)"
    and n: "unat (T div 1000 * ucast r) = unat T div 1000 * unat r" and n16: "unat (T div 1000 * ucast r) * 2 ^ 16 < 2 ^ 256"
    unfolding T_def sp_def a_def
    by (rule ema_time_target [OF wf p params height T [unfolded T_def L_def] samples [unfolded ts_def] lo hi])
  let ?n = "T div 1000 * ucast r"
  obtain b where b: "ema_load m params p i ?post ?n = Inr b" "unat ?n div load_cap params \<le> unat b" "unat b \<le> unat ?n"
    by (rule ema_load_between [OF wf p params, of ?post ?n]) (use height act n16 in \<open>simp_all del: power_numeral\<close>)
  let ?r = "capped_compact (UintToArith256 (powLimit params)) b"
  note c = capped_compact_target [of "UintToArith256 (powLimit params)" b]
  have "unat T div 1000 * clamp_milli a (lo * 1000 div nat sp) div load_cap params \<le> unat ?n div load_cap params"
    unfolding n using r(4) by (intro div_le_mono mult_le_mono2)
  then have lower: "unat T div 1000 * clamp_milli a (lo * 1000 div nat sp) div load_cap params \<le> unat b"
    using b(2) by (rule order_trans)
  have "unat ?n \<le> unat T div 1000 * clamp_milli a (hi * 1000 div nat sp)" unfolding n using r(5) by (rule mult_le_mono2)
  then have upper: "unat b \<le> unat T div 1000 * clamp_milli a (hi * 1000 div nat sp)" using b(3) by (rule order_trans [rotated])
  show ?thesis
  proof (rule that)
    show "GetNextWorkRequiredDAG m (Some p) blk params = Inr ?r"
      by (rule GetNextWorkRequiredDAG_ema [OF p params height refl r(1,2) r(3) [unfolded sp_def] b(1) [unfolded T_def]])
    show "unat (target (SetCompact ?r)) \<le> min L (unat T div 1000 * clamp_milli a (hi * 1000 div nat sp))"
      using c(3) order_trans [OF c(4) upper] by (simp only: L_def min.bounded_iff)
    have "min L (unat T div 1000 * clamp_milli a (lo * 1000 div nat sp) div load_cap params) * 2 ^ 15 \<le> min L (unat b) * 2 ^ 15"
      using lower by (intro mult_le_mono1 min.mono order_refl)
    then show "min L (unat T div 1000 * clamp_milli a (lo * 1000 div nat sp) div load_cap params) * 2 ^ 15
        \<le> unat (target (SetCompact ?r)) * (2 ^ 15 + 1)"
      using c(5) unfolding L_def by (rule order_trans)
  qed (rule c(1,2))+
qed

section \<open>Rounding is monotone\<close>

lemma compact_floor_mono:
  assumes "unat a \<le> unat b"
  shows "compact_floor a \<le> compact_floor b"
proof -
  obtain c k where ck: "compact_parts a = (c, k)" by fastforce
  obtain d n where dn: "compact_parts b = (d, n)" by fastforce
  note va = compact_parts_value [OF ck] and vb = compact_parts_value [OF dn]
  have step: "2 ^ 23 * 2 ^ (8 * (x - 3)) \<le> 2 ^ 15 * (2::nat) ^ (8 * (y - 3))" if "3 \<le> x" "x < y" for x y
    unfolding power_add [symmetric] using that by (intro power_increasing) auto
  show ?thesis
  proof (cases "n \<le> 3")
    case True
    then have "compact_floor b = unat b" using dn by (simp add: compact_floor_def)
    then show ?thesis using compact_floor_le [of a] assms by simp
  next
    case False
    let ?p = "2 ^ (8 * (n - 3)) :: nat"
    have b: "compact_floor b = unat d * ?p" "unat d = unat b div ?p" "2 ^ 15 \<le> unat d"
      using False dn vb(1,5) by (simp_all add: compact_floor_def)
    have low: "2 ^ 15 * ?p \<le> compact_floor b" unfolding b(1) by (rule mult_le_mono1 [OF b(3)])
    consider "k = n" | "k < n" | "n < k" by linarith
    then show ?thesis
    proof cases
      case 1
      have "unat a div ?p * ?p \<le> unat b div ?p * ?p" by (intro mult_le_mono1 div_le_mono assms)
      then show ?thesis using 1 False ck b(1,2) by (simp add: compact_floor_def)
    next
      case 2
      have "unat a < 2 ^ 23 * 2 ^ (8 * (max 3 k - 3))"
      proof (cases "k \<le> 3")
        case True
        have "unat a \<le> unat c" using va(1) True by simp
        then show ?thesis using va(2) True by simp
      next
        case False
        then have "unat a div 2 ^ (8 * (k - 3)) < 2 ^ 23" using va(1,2) by simp
        then show ?thesis using False by (simp add: div_less_iff_less_mult max_def)
      qed
      also have "\<dots> \<le> 2 ^ 15 * ?p" using 2 False by (intro step) auto
      finally show ?thesis using low compact_floor_le [of a] by linarith
    next
      case 3
      have "unat b div ?p < 2 ^ 23" using b(2) vb(2) by simp
      then have "unat b < 2 ^ 23 * ?p" by (simp add: div_less_iff_less_mult)
      also have "\<dots> \<le> 2 ^ 15 * 2 ^ (8 * (k - 3))" using 3 False by (intro step) auto
      also have "\<dots> \<le> unat a div 2 ^ (8 * (k - 3)) * 2 ^ (8 * (k - 3))"
        using 3 False va(1,5) by (intro mult_le_mono1) simp
      also have "\<dots> \<le> unat a" by simp
      finally show ?thesis using assms by simp
    qed
  qed
qed

lemma capped_compact_mono:
  assumes "unat x \<le> unat y"
  shows "target (SetCompact (capped_compact limit x)) \<le> target (SetCompact (capped_compact limit y))"
proof -
  have "compact_floor (if x > limit then limit else x) \<le> compact_floor (if y > limit then limit else y)"
    using assms by (intro compact_floor_mono) (auto simp: word_less_nat_alt)
  then show ?thesis using SetCompact_GetCompact_aux by (simp add: capped_compact_def word_le_nat_alt)
qed

end
