(* ===== verification/Pow_Properties.thy ===== *)
theory Pow_Properties
  imports Pow_Bounds
begin

text \<open>
  What difficulty adjustment guarantees: averages within the samples, a bounded change of the
  target per block, a target within the limit, and which changes header synchronisation accepts.
  The examples are chains on the QBTC test network and on the legacy chain.
\<close>

section \<open>The limit\<close>

definition bits_in_range :: "Params \<Rightarrow> uint32 \<Rightarrow> bool" where
  "bits_in_range params b \<longleftrightarrow> \<not> fNegative (SetCompact b) \<and> \<not> fOverflow (SetCompact b) \<and>
     target (SetCompact b) \<le> UintToArith256 (powLimit params)"

lemma capped_compact_in_range: "bits_in_range params (capped_compact (UintToArith256 (powLimit params)) x)"
  using capped_compact_target(1-3) [of "UintToArith256 (powLimit params)" x]
  by (simp add: bits_in_range_def word_le_nat_alt)

lemma limit_in_range: "bits_in_range params (GetCompact (UintToArith256 (powLimit params)))"
  using capped_compact_in_range [of params "UintToArith256 (powLimit params)"] by (simp add: capped_compact_def)

lemma last_regular_bits_in_range:
  assumes "\<And>h j. m h = Some j \<Longrightarrow> bits_in_range params (nBits j)"
  shows "last_regular_bits m interval limit n p = Inr b \<Longrightarrow> bits_in_range params b"
proof (induction n arbitrary: p)
  case 0
  then show ?case using assms by (subst (asm) last_regular_bits.simps) (auto split: option.splits)
next
  case (Suc n)
  then show ?case using assms by (subst (asm) last_regular_bits.simps) (auto split: option.splits if_splits)
qed

lemma GetNextWorkRequiredDAG_in_range:
  assumes "GetNextWorkRequiredDAG m (Some p) blk params = Inr b" and "m p = Some i" and "bits_in_range params (nBits i)"
  shows "bits_in_range params b"
  using assms limit_in_range capped_compact_in_range
  by (auto simp: GetNextWorkRequiredDAG_def ema_retarget_def window_retarget_def Let_def split: if_splits option.splits sum.splits)

lemma CalculateNextWorkRequired_in_range:
  assumes "CalculateNextWorkRequired m p t params = Inr b" and "\<And>h j. m h = Some j \<Longrightarrow> bits_in_range params (nBits j)"
  shows "bits_in_range params b"
  using assms capped_compact_in_range
  by (auto simp: CalculateNextWorkRequired_def Let_def split: if_splits option.splits sum.splits)

section \<open>The inherited adjustment\<close>

lemma clamp_timespan_bounds:
  "0 \<le> ts \<Longrightarrow> ts div 4 \<le> clamp_timespan ts x \<and> clamp_timespan ts x \<le> ts * 4 \<and> 0 \<le> clamp_timespan ts x"
  by (auto simp: clamp_timespan_def Let_def signed_divide_int_def sgn_if)

lemma scale_target_value:
  assumes "0 \<le> ts" "ts < 2 ^ 32" and "0 < whole" "whole < 2 ^ 32"
    and "unat (target (SetCompact old)) * nat ts < 2 ^ 256"
  obtains t where "scale_target old ts whole = Inr t"
    and "unat t = unat (target (SetCompact old)) * nat ts div nat whole"
proof -
  have a: "unat (ucast (word_of_int ts :: uint32) :: arith_uint256) = nat ts"
    using assms(1,2) by (simp add: unat_ucast_small unat_word_of_int_small nat_less_iff)
  have b: "unat (ucast (word_of_int whole :: uint64) :: arith_uint256) = nat whole"
    using assms(3,4) by (simp add: unat_ucast_small unat_word_of_int_small nat_less_iff)
  then have nz: "(ucast (word_of_int whole :: uint64) :: arith_uint256) \<noteq> 0" using assms(3) by (auto simp flip: unat_eq_0)
  have "unat (target (SetCompact old) * ucast (word_of_int ts :: uint32)) = unat (target (SetCompact old)) * nat ts"
    using unat_mult_256 [of "target (SetCompact old)" "ucast (word_of_int ts :: uint32)"] assms(5) by (simp only: a)
  then have "unat (target (SetCompact old) * ucast (word_of_int ts :: uint32) div ucast (word_of_int whole :: uint64)) =
      unat (target (SetCompact old)) * nat ts div nat whole" by (simp only: unat_div_distrib b)
  moreover have "scale_target old ts whole =
      Inr (target (SetCompact old) * ucast (word_of_int ts :: uint32) div ucast (word_of_int whole :: uint64))"
    using nz by (simp only: scale_target_def Let_def if_False)
  ultimately show ?thesis using that by blast
qed

lemma transition_bound_value:
  assumes "0 \<le> ts" "ts < 2 ^ 32" and "0 < nPowTargetTimespan params" "nPowTargetTimespan params < 2 ^ 32"
    and "unat (target (SetCompact old)) * nat ts < 2 ^ 256"
  obtains t where "transition_bound params old ts = Inr (target (SetCompact (capped_compact (UintToArith256 (powLimit params)) t)))"
    and "unat t = unat (target (SetCompact old)) * nat ts div nat (nPowTargetTimespan params)"
  by (rule scale_target_value [OF assms], rule that) (simp_all add: transition_bound_def)

definition legacy_params_ok :: "Params \<Rightarrow> bool" where
  "legacy_params_ok params \<longleftrightarrow>
     \<not> fPowNoRetargeting params \<and> \<not> enforce_BIP94 params \<and> \<not> fPowAllowMinDifficultyBlocks params \<and>
     0 < nPowTargetSpacing params \<and> nPowTargetSpacing params \<le> nPowTargetTimespan params \<and>
     nPowTargetTimespan params * 4 < 2 ^ 32 \<and>
     unat (UintToArith256 (powLimit params)) * nat (nPowTargetTimespan params * 4) < 2 ^ 256"

lemma legacy_params_ok_main: "legacy_params_ok CMainParams"
  by (simp add: legacy_params_ok_def chain_params)

lemma smod_pos: "0 \<le> a \<Longrightarrow> 0 < b \<Longrightarrow> a smod b = a mod (b :: int)"
  by (cases "a = 0") (auto simp: signed_modulo_int_def sgn_if)

lemma CalculateNextWorkRequired_permitted:
  assumes ok: "legacy_params_ok params" and p: "m p = Some i" and r: "bits_in_range params (nBits i)"
    and h: "height smod DifficultyAdjustmentInterval params = 0" "DifficultyAdjustmentInterval params \<noteq> 0"
  obtains b where "CalculateNextWorkRequired m p first_time params = Inr b"
    and "PermittedDifficultyTransition params height (nBits i) b = Inr True"
proof -
  note o = ok [unfolded legacy_params_ok_def]
  let ?ts = "nPowTargetTimespan params" and ?T = "unat (target (SetCompact (nBits i)))"
  let ?L = "UintToArith256 (powLimit params)"
  let ?c = "clamp_timespan ?ts (GetBlockTime i - first_time)"
  have ts: "0 < ?ts" "?ts < 2 ^ 32" "?ts * 4 < 2 ^ 32" "?ts sdiv 4 = ?ts div 4" "0 \<le> ?ts div 4" "?ts div 4 < 2 ^ 32"
    using o by (auto simp: signed_divide_int_def)
  have c: "?ts div 4 \<le> ?c" "?c \<le> ?ts * 4" "0 \<le> ?c" "?c < 2 ^ 32" using clamp_timespan_bounds [of ?ts "GetBlockTime i - first_time"] ts by auto
  have small: "?T * nat x < 2 ^ 256" if "x \<le> ?ts * 4" for x
  proof -
    have "?T * nat x \<le> unat ?L * nat (?ts * 4)"
      using r that by (intro mult_le_mono) (auto simp: bits_in_range_def word_le_nat_alt)
    then show ?thesis using o le_less_trans by blast
  qed
  have q: "?ts div 4 \<le> ?ts * 4" "0 \<le> ?ts * 4" using ts(1) by simp_all
  obtain x where x: "scale_target (nBits i) ?c ?ts = Inr x" "unat x = ?T * nat ?c div nat ?ts"
    by (rule scale_target_value [OF c(3,4) ts(1,2) small [OF c(2)]])
  obtain u where u: "transition_bound params (nBits i) (?ts * 4) = Inr (target (SetCompact (capped_compact ?L u)))"
      "unat u = ?T * nat (?ts * 4) div nat ?ts"
    by (rule transition_bound_value [OF q(2) ts(3) ts(1,2) small [OF order_refl]])
  obtain l where l: "transition_bound params (nBits i) (?ts div 4) = Inr (target (SetCompact (capped_compact ?L l)))"
      "unat l = ?T * nat (?ts div 4) div nat ?ts"
    by (rule transition_bound_value [OF ts(5,6) ts(1,2) small [OF q(1)]])
  have "unat x \<le> unat u" unfolding x(2) u(2) by (intro div_le_mono mult_le_mono2 nat_mono c(2))
  moreover have "unat l \<le> unat x" unfolding x(2) l(2) by (intro div_le_mono mult_le_mono2 nat_mono c(1))
  ultimately have "target (SetCompact (capped_compact ?L x)) \<le> target (SetCompact (capped_compact ?L u))"
    "target (SetCompact (capped_compact ?L l)) \<le> target (SetCompact (capped_compact ?L x))"
    by (simp_all add: capped_compact_mono)
  then have "PermittedDifficultyTransition params height (nBits i) (capped_compact ?L x) = Inr True"
    using o h u(1) l(1) ts(4) by (simp add: PermittedDifficultyTransition_def Let_def not_less)
  moreover have "CalculateNextWorkRequired m p first_time params = Inr (capped_compact ?L x)"
    using o p x(1) by (simp add: CalculateNextWorkRequired_def Let_def)
  ultimately show ?thesis using that by blast
qed

lemma GetNextWorkRequired_permitted:
  assumes wf: "index_wf m" and p: "m p = Some i" and ok: "legacy_params_ok params"
    and r: "bits_in_range params (nBits i)" and dag: "\<not> GetBoolArg dag_arg (fDagMode params)"
  shows "\<exists>b. GetNextWorkRequired m dag_arg (Some p) blk params = Inr b \<and>
    PermittedDifficultyTransition params (int (nHeight i) + 1) (nBits i) b = Inr True"
proof -
  note o = ok [unfolded legacy_params_ok_def]
  let ?n = "DifficultyAdjustmentInterval params"
  have "0 < nPowTargetTimespan params" "0 < nPowTargetSpacing params" using o by linarith+
  moreover have "0 < nPowTargetTimespan params div nPowTargetSpacing params" using o by (simp add: pos_imp_zdiv_pos_iff)
  ultimately have n: "0 < ?n" by (simp add: DifficultyAdjustmentInterval_def signed_divide_int_def)
  show ?thesis
  proof (cases "(int (nHeight i) + 1) smod ?n = 0")
    case False
    then show ?thesis using o p n dag by (simp add: GetNextWorkRequired_def PermittedDifficultyTransition_def Let_def)
  next
    case True
    then have "?n dvd int (nHeight i) + 1" using n by (simp add: smod_pos dvd_eq_mod_eq_0)
    then have le: "?n \<le> int (nHeight i) + 1" by (rule zdvd_imp_le) simp
    then have h: "int (nHeight i) - (?n - 1) = int (nat (int (nHeight i) - (?n - 1)))" by simp
    have "nat (int (nHeight i) - (?n - 1)) \<le> nHeight i" using n by simp
    then obtain q j where "GetAncestor m p (int (nat (int (nHeight i) - (?n - 1)))) = Some q" and j: "m q = Some j"
      by (rule GetAncestor_height [OF wf p])
    then have q: "GetAncestor m p (int (nHeight i) - (?n - 1)) = Some q" by (subst h)
    obtain b where "CalculateNextWorkRequired m p (GetBlockTime j) params = Inr b"
        "PermittedDifficultyTransition params (int (nHeight i) + 1) (nBits i) b = Inr True"
      by (rule CalculateNextWorkRequired_permitted [where m = m and p = p and i = i and params = params
            and height = "int (nHeight i) + 1" and first_time = "GetBlockTime j"]) (use ok p r True n in auto)
    then show ?thesis using o p n dag True le q j by (auto simp: GetNextWorkRequired_def Let_def)
  qed
qed

section \<open>What the required target depends on\<close>

text \<open>What an index says of the headers, as far as adjustment reads it; everything a node learns from
  the blocks themselves (transaction counts, status, scores) is left out.\<close>

definition header_entry :: "CBlockIndex \<Rightarrow> CBlockIndex" where
  "header_entry i = (CBlockIndex_of SetNull)\<lparr>pprev := pprev i, pskip := pskip i, nHeight := nHeight i, nTime := nTime i, nBits := nBits i\<rparr>"

definition header_view :: "BlockMap \<Rightarrow> BlockMap" where
  "header_view m h = map_option header_entry (m h)"

lemma header_entry_fields [simp]:
  "pprev (header_entry i) = pprev i" "pskip (header_entry i) = pskip i" "nHeight (header_entry i) = nHeight i"
  "nBits (header_entry i) = nBits i" "nTime (header_entry i) = nTime i" "GetBlockTime (header_entry i) = GetBlockTime i"
  by (simp_all add: header_entry_def GetBlockTime_def)

lemma case_view:
  "(case header_view m h of None \<Rightarrow> a | Some i \<Rightarrow> g i) =
   (case m h of None \<Rightarrow> a | Some i \<Rightarrow> g (header_entry i))"
  by (simp add: header_view_def split: option.splits)

lemma bind_view:
  "Option.bind p (header_view m) =
   Option.bind p (\<lambda>q. map_option header_entry (m q))"
  by (cases p) (simp_all add: header_view_def)

lemma ancestor_loop_view: "ancestor_loop (header_view m) height p h = ancestor_loop m height p h"
proof (induction h arbitrary: p rule: less_induct)
  case (less h)
  show ?case
  proof (cases "height < h")
    case True
    then have "GetSkipHeight h < h" "h - 1 < h" using GetSkipHeight_less by auto
    then have "ancestor_loop (header_view m) height q (GetSkipHeight h) = ancestor_loop m height q (GetSkipHeight h)"
      "ancestor_loop (header_view m) height q (h - 1) = ancestor_loop m height q (h - 1)" for q
      using less by blast+
    then show ?thesis
      by (subst (1 2) ancestor_loop.simps) (simp add: True case_view Let_def cong: option.case_cong if_cong)
  qed (subst (1 2) ancestor_loop.simps, simp)
qed

lemma GetAncestor_view: "GetAncestor (header_view m) p h = GetAncestor m p h"
  by (simp add: GetAncestor_def ancestor_loop_view case_view cong: option.case_cong if_cong)

lemma block_times_view: "block_times (header_view m) n p = block_times m n p"
  by (induction n arbitrary: p) (simp_all add: case_view cong: option.case_cong)

lemma ComputeBlockTimeEMA_view: "ComputeBlockTimeEMA (header_view m) p hl lb = ComputeBlockTimeEMA m p hl lb"
  by (simp add: ComputeBlockTimeEMA_def block_times_view case_view Let_def cong: option.case_cong if_cong)

lemma last_regular_bits_view: "last_regular_bits (header_view m) interval limit n p = last_regular_bits m interval limit n p"
proof (induction n arbitrary: p)
  case 0
  then show ?case by (subst (1 2) last_regular_bits.simps) (simp add: case_view cong: option.case_cong if_cong)
next
  case (Suc n)
  then show ?case by (subst (1 2) last_regular_bits.simps) (simp add: case_view cong: option.case_cong if_cong)
qed

lemma CalculateNextWorkRequired_view:
  "CalculateNextWorkRequired (header_view m) p t params = CalculateNextWorkRequired m p t params"
proof -
  have "map_option nBits (Option.bind q (header_view m)) = map_option nBits (Option.bind q m)" for q
    by (cases q) (simp_all add: header_view_def option.map_comp comp_def)
  then show ?thesis by (simp add: CalculateNextWorkRequired_def GetAncestor_view case_view Let_def cong: option.case_cong if_cong)
qed

lemma retarget_view:
  assumes "\<not> load_enabled params"
  shows "ema_retarget (header_view m) params p (header_entry i) blk sp = ema_retarget m params p i blk sp"
    and "window_retarget (header_view m) params p (header_entry i) blk sp = window_retarget m params p i blk sp"
  using assms by (simp_all add: ema_retarget_def window_retarget_def ema_load_def ComputeBlockTimeEMA_view GetAncestor_view
      case_view Let_def cong: option.case_cong sum.case_cong if_cong)

lemma GetNextWorkRequired_view:
  assumes "\<not> load_enabled params"
  shows "GetNextWorkRequired (header_view m) dag_arg p blk params = GetNextWorkRequired m dag_arg p blk params"
proof -
  have "GetNextWorkRequiredDAG (header_view m) p blk params = GetNextWorkRequiredDAG m p blk params" for p
    by (simp add: GetNextWorkRequiredDAG_def case_view retarget_view [OF assms] Let_def cong: option.case_cong if_cong)
  moreover have "(case Option.bind q (header_view m) of
        None \<Rightarrow> Inl AssertionFailed | Some i \<Rightarrow> CalculateNextWorkRequired m h (GetBlockTime i) params) =
      (case Option.bind q m of
        None \<Rightarrow> Inl AssertionFailed | Some i \<Rightarrow> CalculateNextWorkRequired m h (GetBlockTime i) params)" for q h
    by (cases q) (simp_all add: case_view cong: option.case_cong)
  ultimately show ?thesis
    by (simp add: GetNextWorkRequired_def case_view GetAncestor_view CalculateNextWorkRequired_view last_regular_bits_view Let_def
        cong: option.case_cong if_cong)
qed

lemma header_view_entry:
  assumes "header_view m' = header_view m" and "m p = Some i"
  obtains j where "m' p = Some j" and "header_entry j = header_entry i"
  using fun_cong [OF assms(1), of p] assms(2) by (auto simp: header_view_def)

lemma header_view_fields:
  assumes "header_view m' = header_view m" and "m p = Some i" and "m' p = Some j"
  shows "pprev j = pprev i" "nHeight j = nHeight i" "nBits j = nBits i"
proof -
  have "header_entry j = header_entry i" using assms by (metis header_view_entry option.inject)
  then show "pprev j = pprev i" "nHeight j = nHeight i" "nBits j = nBits i" by (metis header_entry_fields)+
qed

lemma header_view_walks:
  assumes "header_view m' = header_view m"
  shows "GetAncestor m' p h = GetAncestor m p h" and "ComputeBlockTimeEMA m' p hl lb = ComputeBlockTimeEMA m p hl lb"
  using assms GetAncestor_view ComputeBlockTimeEMA_view by metis+

text \<open>A node without the transactions of the last block leaves the load out.\<close>

lemma ema_load_unknown:
  assumes "header_view m' = header_view m" and "m p = Some i" and "m' p = Some j" and "m_chain_tx_count j = 0"
    and "GetAncestor m p (int (nHeight i) - min (nDagEmaSlowHalfLife params * 2) post) = Some q" and "m q = Some e"
  shows "ema_load m' params p j post bn = Inr bn"
proof -
  obtain e' where "m' q = Some e'" by (rule header_view_entry [OF assms(1,6)])
  then show ?thesis using assms(4,5) header_view_walks(1) [OF assms(1)]
    by (simp add: ema_load_def load_adjusted_def header_view_fields(2) [OF assms(1-3)] Let_def)
qed

section \<open>Fast and busy chains\<close>

lemma clamp_milli_below: "x < 1000 \<Longrightarrow> 1000 < a \<Longrightarrow> clamp_milli a x < 1000"
proof -
  assume x: "x < 1000" "1000 < a"
  then have "1000000 div a * 1001 \<le> 1000000 div a * a" by (intro mult_le_mono2) simp
  then have "1000000 div a * 1001 \<le> 1000000" using div_times_less_eq_dividend [of 1000000 a] by linarith
  then show ?thesis using x by (simp add: clamp_milli_def)
qed

lemma clamp_milli_at_one: "1000 \<le> a \<Longrightarrow> clamp_milli a 1000 = 1000"
  using div_le_mono2 [of 1000 a 1000000] by (simp add: clamp_milli_def)

lemma bits_in_range_limit: "bits_in_range params b \<Longrightarrow> unat (target (SetCompact b)) \<le> unat (UintToArith256 (powLimit params))"
  by (simp add: bits_in_range_def word_le_nat_alt)

lemma faster_blocks_lower_target:
  assumes "index_wf m" and "m p = Some i" and "ema_params_ok params" and "ema_activation params < int (nHeight i)"
    and "bits_in_range params (nBits i)" and "0 < target (SetCompact (nBits i))" and "1000 < nDagEmaMaxAdjust params"
    and "\<forall>t\<in>set (block_times m (nat (min (nDagDiffWindowSize params) (int (nHeight i) - ema_activation params))) p).
      t < nDagTargetSpacingMs params div 1000"
  obtains b where "GetNextWorkRequiredDAG m (Some p) blk params = Inr b"
    and "target (SetCompact b) < target (SetCompact (nBits i))"
proof -
  let ?sp = "nDagTargetSpacingMs params div 1000" and ?T = "unat (target (SetCompact (nBits i)))"
  have sp: "0 < ?sp" "?sp < 2 ^ 32" using assms(3) by (auto simp: ema_params_ok_def)
  obtain b where b: "GetNextWorkRequiredDAG m (Some p) blk params = Inr b"
    and "unat (target (SetCompact b)) \<le> min (unat (UintToArith256 (powLimit params)))
      (?T div 1000 * clamp_milli (nat (nDagEmaMaxAdjust params)) (nat (?sp - 1) * 1000 div nat ?sp))"
  proof (rule ema_retarget_bounds [where m = m and p = p and i = i and params = params and blk = blk
        and lo = 1 and hi = "nat (?sp - 1)"])
    fix t
    assume "t \<in> set (block_times m (nat (min (nDagDiffWindowSize params) (int (nHeight i) - ema_activation params))) p)"
    then show "int 1 \<le> t \<and> t \<le> int (nat (?sp - 1))" using assms(8) block_times_range sp(1) by fastforce
  qed (use assms(1-5) bits_in_range_limit sp in auto)
  then have "unat (target (SetCompact b)) \<le>
      ?T div 1000 * clamp_milli (nat (nDagEmaMaxAdjust params)) (nat (?sp - 1) * 1000 div nat ?sp)" by linarith
  also have "\<dots> \<le> ?T div 1000 * 999"
  proof (rule mult_le_mono2)
    have "nat (?sp - 1) * 1000 div nat ?sp < 1000" using sp(1) by (intro less_mult_imp_div_less) auto
    then have "clamp_milli (nat (nDagEmaMaxAdjust params)) (nat (?sp - 1) * 1000 div nat ?sp) < 1000"
      using assms(7) by (intro clamp_milli_below) auto
    then show "clamp_milli (nat (nDagEmaMaxAdjust params)) (nat (?sp - 1) * 1000 div nat ?sp) \<le> 999" by linarith
  qed
  also have "\<dots> < ?T" using assms(6) by (simp add: word_less_nat_alt)
  finally show ?thesis using that [OF b] by (simp add: word_less_nat_alt)
qed

lemma on_schedule_target:
  fixes m p i params
  defines "sp \<equiv> nDagTargetSpacingMs params div 1000" and "T \<equiv> target (SetCompact (nBits i))"
    and "look \<equiv> min (nDagDiffWindowSize params) (int (nHeight i) - ema_activation params)"
  assumes wf: "index_wf m" and p: "m p = Some i" and params: "ema_params_ok params"
    and height: "ema_activation params < int (nHeight i)"
    and bits: "bits_in_range params (nBits i)" "1000 \<le> T"
    and times: "\<forall>t\<in>set (block_times m (nat look) p). t \<le> sp"
  obtains f g r where "ComputeBlockTimeEMA m p (nDagEmaFastHalfLife params) look = Inr f"
    and "ComputeBlockTimeEMA m p (nDagEmaSlowHalfLife params) look = Inr g" and "ema_adjust_milli params sp f g = Inr r"
    and "unat (T div 1000 * ucast r) * 2 ^ 16 < 2 ^ 256"
    and "1 \<le> unat (T div 1000 * ucast r)" and "unat (T div 1000 * ucast r) \<le> unat (UintToArith256 (powLimit params))"
proof -
  let ?a = "nat (nDagEmaMaxAdjust params)"
  have sp: "0 < sp" "sp < 2 ^ 32" and a: "1000 \<le> ?a" "?a \<le> 1000000"
    using params by (auto simp: ema_params_ok_def sp_def)
  have samples: "int 1 \<le> t \<and> t \<le> int (nat sp)" if "t \<in> set (block_times m (nat look) p)" for t
    using that times block_times_range sp(1) by fastforce
  have hi: "nat sp < 2 ^ 32" using sp by (simp add: nat_less_iff)
  note T = bits_in_range_limit [OF bits(1)]
  obtain f g r where r: "ComputeBlockTimeEMA m p (nDagEmaFastHalfLife params) look = Inr f"
      "ComputeBlockTimeEMA m p (nDagEmaSlowHalfLife params) look = Inr g" "ema_adjust_milli params sp f g = Inr r"
      "clamp_milli ?a (1 * 1000 div nat sp) \<le> unat r" "unat r \<le> clamp_milli ?a (nat sp * 1000 div nat sp)"
      "unat (T div 1000 * ucast r) = unat T div 1000 * unat r" "unat (T div 1000 * ucast r) * 2 ^ 16 < 2 ^ 256"
    unfolding sp_def T_def look_def
    by (rule ema_time_target [OF wf p params height T samples [unfolded look_def sp_def] zero_less_one hi [unfolded sp_def]])
  have "nat sp * 1000 div nat sp = 1000" using sp(1) by simp
  then have "unat r \<le> 1000" using r(5) by (simp only: clamp_milli_at_one [OF a(1)])
  then have "unat T div 1000 * unat r \<le> unat T div 1000 * 1000" by (rule mult_le_mono2)
  also have "\<dots> \<le> unat T" by (rule div_times_less_eq_dividend)
  finally have hi: "unat T div 1000 * unat r \<le> unat (UintToArith256 (powLimit params))" using T unfolding T_def by (rule order_trans)
  have "1000000 div 1000000 \<le> 1000000 div ?a" using a by (intro div_le_mono2) auto
  then have "1 \<le> unat r" using r(4) clamp_milli_bounds [OF a(1), of "1 * 1000 div nat sp"] by linarith
  moreover have "1000 div 1000 \<le> unat T div 1000" using bits(2) by (intro div_le_mono) (simp add: word_le_nat_alt)
  ultimately have "1 * 1 \<le> unat T div 1000 * unat r" by (intro mult_le_mono) simp_all
  then have lo: "1 \<le> unat T div 1000 * unat r" by (simp only: mult_1)
  show ?thesis by (rule that [OF r(1-3,7)]) (simp_all only: r(6) lo hi)
qed

lemma capped_compact_separates:
  assumes "unat b * 92681 \<le> unat n * 2 ^ 16" and "1 \<le> unat n" and "unat n \<le> unat limit"
  shows "target (SetCompact (capped_compact limit b)) < target (SetCompact (capped_compact limit n))"
proof -
  have "unat n * 32768 \<le> unat (target (SetCompact (capped_compact limit n))) * 32769"
    using capped_compact_target(5) [of limit n] assms(3) by (simp add: min_absorb2)
  then have "unat (target (SetCompact (capped_compact limit b))) < unat (target (SetCompact (capped_compact limit n)))"
    using capped_compact_target(4) [of limit b] assms(1,2) by simp
  then show ?thesis by (simp only: word_less_nat_alt)
qed

lemma busy_target_below_idle:
  assumes wf: "index_wf m" and p: "m p = Some i" and params: "ema_params_ok params"
    and height: "ema_activation params < int (nHeight i)"
    and bits: "bits_in_range params (nBits i)" "1000 \<le> target (SetCompact (nBits i))"
    and times: "\<forall>t\<in>set (block_times m (nat (min (nDagDiffWindowSize params) (int (nHeight i) - ema_activation params))) p).
      t \<le> nDagTargetSpacingMs params div 1000"
    and load: "load_enabled params" "0 < nDagEmaSlowHalfLife params"
    and window: "window = min (nDagEmaSlowHalfLife params * 2) (int (nHeight i) - ema_activation params)"
    and q: "GetAncestor m p (int (nHeight i) - window) = Some q" "m q = Some older"
    and txs: "unat (m_chain_tx_count i) < 2 ^ 63"
      "2 * nLoadDiffBaseline params * window \<le> int (unat (m_chain_tx_count i)) - int (unat (m_chain_tx_count older))"
    and view: "header_view m' = header_view m" and j: "m' p = Some j" "m_chain_tx_count j = 0"
  obtains b b' where "GetNextWorkRequiredDAG m (Some p) blk params = Inr b" and "GetNextWorkRequiredDAG m' (Some p) blk params = Inr b'"
    and "target (SetCompact b) < target (SetCompact b')"
proof -
  let ?sp = "nDagTargetSpacingMs params div 1000" and ?T = "target (SetCompact (nBits i))"
  let ?L = "UintToArith256 (powLimit params)" and ?post = "int (nHeight i) - ema_activation params"
  obtain f g r where r: "ComputeBlockTimeEMA m p (nDagEmaFastHalfLife params) (min (nDagDiffWindowSize params) ?post) = Inr f"
      "ComputeBlockTimeEMA m p (nDagEmaSlowHalfLife params) (min (nDagDiffWindowSize params) ?post) = Inr g"
      "ema_adjust_milli params ?sp f g = Inr r" "unat (?T div 1000 * ucast r) * 2 ^ 16 < 2 ^ 256"
      "1 \<le> unat (?T div 1000 * ucast r)" "unat (?T div 1000 * ucast r) \<le> unat ?L"
    by (rule on_schedule_target [OF wf p params height bits times])
  let ?n = "?T div 1000 * ucast r"
  have lp: "load_params_ok params" using params by (simp add: ema_params_ok_def)
  have w: "0 < window" "window < 2 ^ 63" unfolding window using params load(2) height by (auto simp: ema_params_ok_def)
  obtain b where b: "load_adjusted params (m_chain_tx_count i) (m_chain_tx_count older) window ?n = Inr b"
      "unat b * 92681 \<le> unat ?n * 2 ^ 16"
    by (rule load_adjusted_busy [OF load(1) lp r(4) w txs])
  have "nHeight i \<noteq> 0" using height by (auto simp: ema_activation_def)
  then have "pprev i \<noteq> None" using index_wf_pprev(1) [OF wf p] by fastforce
  then have bl: "ema_load m params p i ?post ?n = Inr b" using b(1) load(1) q by (simp add: ema_load_def window Let_def)
  note hj = header_view_fields [OF view p j(1)] and walks = header_view_walks(2) [OF view, symmetric]
  have il: "ema_load m' params p j ?post ?n = Inr ?n"
    by (rule ema_load_unknown [OF view p j q(1) [unfolded window] q(2)])
  have busy: "GetNextWorkRequiredDAG m (Some p) blk params = Inr (capped_compact ?L b)"
    by (rule GetNextWorkRequiredDAG_ema [OF p params height refl r(1-3) bl])
  have idle: "GetNextWorkRequiredDAG m' (Some p) blk params = Inr (capped_compact ?L ?n)"
    by (rule GetNextWorkRequiredDAG_ema [of m' p j params, unfolded hj, OF j(1) params height refl r(1,2) [unfolded walks] r(3) il])
  show ?thesis by (rule that [OF busy idle capped_compact_separates [OF b(2) r(5,6)]])
qed

section \<open>Example chains\<close>

text \<open>Blocks with hashes \<open>1\<close> to \<open>newest\<close>, ten seconds apart, with bits \<open>b\<close> and one transaction each; the last
  one comes \<open>gap\<close> seconds after its parent, has bits \<open>b'\<close> and \<open>txs\<close> transactions, or is known by its header
  only if \<open>txs\<close> is 0.\<close>

definition flat_entry :: "uint32 \<Rightarrow> uint32 \<Rightarrow> uint256 \<Rightarrow> uint32 \<Rightarrow> uint32 \<Rightarrow> uint256 \<Rightarrow> CBlockIndex" where
  "flat_entry b b' newest gap txs h = (CBlockIndex_of SetNull)\<lparr>pprev := (if h = 1 then None else Some (h - 1)),
     nHeight := unat h - 1, nChainWork := (h - 1) * GetBlockProof b + GetBlockProof (if h = newest then b' else b),
     nTime := (if h = newest then 10 * ucast (h - 2) + gap else 10 * ucast (h - 1)),
     nBits := (if h = newest then b' else b), nTx := (if h = newest then txs else 1),
     m_chain_tx_count := (if h \<noteq> newest then ucast h else if txs = 0 then 0 else ucast (h - 1) + ucast txs)\<rparr>"

definition flat_chain :: "uint32 \<Rightarrow> uint32 \<Rightarrow> uint256 \<Rightarrow> uint32 \<Rightarrow> uint32 \<Rightarrow> BlockMap" where
  "flat_chain b b' newest gap txs h = (if h = 0 \<or> h > newest then None else Some (flat_entry b b' newest gap txs h))"

lemma flat_chain_wf: "index_wf (flat_chain b b' newest gap txs)"
proof -
  have "entry_ok (flat_chain b b' newest gap txs) h (flat_entry b b' newest gap txs h)" if "h \<noteq> 0" "h \<le> newest" for h
  proof (cases "h = 1")
    case False
    have h: "unat h \<noteq> 0" "unat h \<noteq> 1"
      using that(1) False unsigned_word_eqI [of h 1, where ?'a = nat] by (auto simp: unat_eq_0)
    have u: "unat (h - 1) = unat h - 1" using that(1) by (simp add: unat_minus_one)
    have "h - 1 \<noteq> 0" "h - 1 \<le> newest" using False h u that(2) by (auto simp: word_le_nat_alt)
    then have "flat_chain b b' newest gap txs (h - 1) = Some (flat_entry b b' newest gap txs (h - 1))" by (simp add: flat_chain_def)
    moreover have "h - 1 \<noteq> newest" using u h(1) that(2) by (auto simp: word_le_nat_alt)
    then have "h \<noteq> 1 + newest" by auto
    ultimately show ?thesis using that(1) False h u
      by (simp add: entry_ok_def flat_entry_def CBlockIndex_of_def algebra_simps)
  qed (use that in \<open>simp add: entry_ok_def flat_entry_def CBlockIndex_of_def\<close>)
  then show ?thesis by (auto simp: index_wf_def flat_chain_def)
qed

text \<open>Above the activation height of the test network, and before a retarget of the legacy chain.\<close>

definition testnet_chain :: "uint32 \<Rightarrow> uint32 \<Rightarrow> BlockMap" where
  "testnet_chain = flat_chain 0x1e0fffff 0x1e0ffffe 258"

definition legacy_chain :: BlockMap where
  "legacy_chain = flat_chain 0x1d00ffff 0x1d00ffff 2016 1000000 1"

lemma testnet_chain_wf: "index_wf (testnet_chain gap txs)"
  by (simp add: testnet_chain_def flat_chain_wf)

lemma testnet_tip:
  "testnet_chain gap txs 258 = Some (flat_entry 0x1e0fffff 0x1e0ffffe 258 gap txs 258)"
  "nHeight (flat_entry 0x1e0fffff 0x1e0ffffe 258 gap txs 258) = 257" "nBits (flat_entry 0x1e0fffff 0x1e0ffffe 258 gap txs 258) = 0x1e0ffffe"
  by (simp_all add: testnet_chain_def flat_chain_def flat_entry_def)

lemma testnet_times:
  "block_times (testnet_chain 7 txs) (Suc 0) 258 = [7]" "block_times (testnet_chain 10 txs) (Suc 0) 258 = [10]"
  by (simp_all add: testnet_chain_def flat_chain_def flat_entry_def GetBlockTime_def CBlockIndex_of_def)

lemma testnet_ancestor: "GetAncestor (testnet_chain gap txs) 258 256 = Some 257"
  unfolding GetAncestor_walk [OF testnet_chain_wf testnet_tip(1)] testnet_tip
  by (simp add: testnet_tip) (simp add: flat_entry_def)

lemma testnet_tip_in_range: "bits_in_range CQbtcTestNetParams 0x1e0ffffe"
  by (simp add: bits_in_range_def SetCompact_def chain_params)

lemma flat_chain_header_view: "header_view (flat_chain b b' newest gap txs) = header_view (flat_chain b b' newest gap txs')"
  by (rule ext) (simp add: header_view_def flat_chain_def flat_entry_def header_entry_def)

section \<open>Properties\<close>

text \<open>The bitwise square root is exact on all 64-bit arguments: the result is the largest number
  whose square does not exceed the argument. Its two loops end without overflow.\<close>

theorem IntegerSquareRoot_exact:
  "(unat (IntegerSquareRoot n))\<^sup>2 \<le> unat n \<and> unat n < (unat (IntegerSquareRoot n) + 1)\<^sup>2"
  using IntegerSquareRoot_bounds by blast

text \<open>C40: The load multiplier is the square root of the ratio of the average number of transactions to
  the baseline in 16-bit fixed point, rounded down, with the ratio capped at the square of the
  maximal multiplier; it lies between one and that multiplier, and nothing wraps as long as the cap
  on transactions stays below \<open>2 ^ 32\<close>.\<close>

theorem load_multiplier_is_sqrt:
  assumes "unat baseline < unat avg" and "0 < unat baseline" and "0 < unat max_mult"
    and "unat baseline * unat max_mult * unat max_mult < 2 ^ 32"
  defines "ratio \<equiv> min (unat avg) (unat baseline * unat max_mult * unat max_mult) * 2 ^ 32 div unat baseline"
    and "r \<equiv> unat (load_multiplier avg baseline max_mult)"
  shows "r\<^sup>2 \<le> ratio \<and> ratio < (r + 1)\<^sup>2 \<and> 2 ^ 16 \<le> r \<and> r \<le> unat max_mult * 2 ^ 16"
  using load_multiplier_sqrt [OF assms(1-4)] unfolding ratio_def r_def by blast

theorem load_multiplier_is_sqrt_witness: "unat (load_multiplier 800 200 4) = 2 * 2 ^ 16"
proof -
  have "x = 131072" if "x\<^sup>2 \<le> 17179869184" "17179869184 < (x + 1)\<^sup>2" for x :: nat
    using that power2_le_imp_le [of x 131072] power2_less_imp_less [of 131072 "x + 1"] by simp
  then show ?thesis using load_multiplier_is_sqrt [of 200 800 4] by simp
qed

text \<open>A moving average of block times always exists once a block has a predecessor in the window, and
  lies between the shortest and the longest sampled block time; the 64-bit fixed-point arithmetic
  cannot wrap, whatever the timestamps.\<close>

theorem EMA_between_samples:
  assumes "m p = Some i" and "0 \<le> lookback" and "ts = block_times m (nat (min lookback (int (nHeight i)))) p"
    and "ts \<noteq> []"
  shows "\<exists>e. ComputeBlockTimeEMA m p halfLife lookback = Inr e \<and>
    nat (Min (set ts)) * 2 ^ 16 \<le> unat e \<and> unat e \<le> nat (Max (set ts)) * 2 ^ 16"
proof (rule ComputeBlockTimeEMA_between [where m = m and p = p and i = i and lookback = lookback and ts = ts
      and lo = "Min (set ts)" and hi = "Max (set ts)" and halfLife = halfLife])
  note x = block_times_extremes [OF assms(3,4)]
  show "0 \<le> Min (set ts)" "Max (set ts) < 2 ^ 32" using x(1,2) by linarith+
qed (use assms in auto)

theorem EMA_between_samples_witness:
  "\<exists>e. ComputeBlockTimeEMA (testnet_chain 7 0) 258 12 1 = Inr e \<and> 7 * 2 ^ 16 \<le> unat e \<and> unat e \<le> 7 * 2 ^ 16"
proof -
  have "[7] = block_times (testnet_chain 7 0) (nat (min 1 (int (nHeight (flat_entry 0x1e0fffff 0x1e0ffffe 258 7 0 258))))) 258"
    using testnet_times(1) [of 0] by (simp add: testnet_tip del: block_times.simps)
  from EMA_between_samples [OF testnet_tip(1) _ this, of 12] show ?thesis by simp
qed

text \<open>C34: Per-block adjustment. On a well-formed index, above the activation height and with sane
  parameters, a target is always computed. It encodes a valid target that is at most the limit and
  at most a thousandth of the old target times the clamped ratio (in thousandths) of the longest
  sampled block time to the target spacing; and, up to the rounding of the compact form, it is at
  least the same product for the shortest block time, divided by the maximal load multiplier. The ratio is
  clamped to \<open>nDagEmaMaxAdjust\<close> and its inverse.\<close>

theorem ema_target_bounded:
  assumes "index_wf m" and "m p = Some i" and "ema_params_ok params"
    and "ema_activation params < int (nHeight i)" and "bits_in_range params (nBits i)"
    and "ts = block_times m (nat (min (nDagDiffWindowSize params) (int (nHeight i) - ema_activation params))) p"
    and "old = unat (target (SetCompact (nBits i)))" and "limit = unat (UintToArith256 (powLimit params))"
    and "ratio = (\<lambda>t. clamp_milli (nat (nDagEmaMaxAdjust params)) (nat t * 1000 div nat (nDagTargetSpacingMs params div 1000)))"
  shows "\<exists>b. GetNextWorkRequiredDAG m (Some p) blk params = Inr b \<and>
    \<not> fNegative (SetCompact b) \<and> \<not> fOverflow (SetCompact b) \<and>
    unat (target (SetCompact b)) \<le> min limit (old div 1000 * ratio (Max (set ts))) \<and>
    min limit (old div 1000 * ratio (Min (set ts)) div load_cap params) * 2 ^ 15
      \<le> unat (target (SetCompact b)) * (2 ^ 15 + 1)"
proof -
  have ne: "ts \<noteq> []" unfolding assms(6) using assms(3,4)
    by (intro block_times_nonempty [OF assms(1,2)]) (auto simp: ema_params_ok_def ema_activation_def)
  note x = block_times_extremes [OF assms(6) ne]
  have lo: "0 < nat (Min (set ts))" using x(1) by linarith
  have "nat (Max (set ts)) < nat (2 ^ 32)" using x(2) by (rule nat_mono_iff [THEN iffD2, rotated]) simp
  then have hi: "nat (Max (set ts)) < 2 ^ 32" by simp
  have samples: "int (nat (Min (set ts))) \<le> t \<and> t \<le> int (nat (Max (set ts)))" if "t \<in> set ts" for t
    using x(1) x(3) [OF that] by linarith
  have old: "unat (target (SetCompact (nBits i))) \<le> unat (UintToArith256 (powLimit params))"
    using assms(5) by (simp add: bits_in_range_def word_le_nat_alt)
  show ?thesis
  proof (rule ema_retarget_bounds [where m = m and p = p and i = i and params = params and blk = blk
        and lo = "nat (Min (set ts))" and hi = "nat (Max (set ts))"])
    fix t
    assume "t \<in> set (block_times m (nat (min (nDagDiffWindowSize params) (int (nHeight i) - ema_activation params))) p)"
    then show "int (nat (Min (set ts))) \<le> t \<and> t \<le> int (nat (Max (set ts)))" unfolding assms(6) [symmetric] by (rule samples)
  next
    fix b
    assume "GetNextWorkRequiredDAG m (Some p) blk params = Inr b"
      and "\<not> fNegative (SetCompact b)" "\<not> fOverflow (SetCompact b)"
      and "unat (target (SetCompact b)) \<le> min (unat (UintToArith256 (powLimit params)))
        (unat (target (SetCompact (nBits i))) div 1000 * clamp_milli (nat (nDagEmaMaxAdjust params))
          (nat (Max (set ts)) * 1000 div nat (nDagTargetSpacingMs params div 1000)))"
      and "min (unat (UintToArith256 (powLimit params)))
        (unat (target (SetCompact (nBits i))) div 1000 * clamp_milli (nat (nDagEmaMaxAdjust params))
          (nat (Min (set ts)) * 1000 div nat (nDagTargetSpacingMs params div 1000)) div load_cap params) * 2 ^ 15
        \<le> unat (target (SetCompact b)) * (2 ^ 15 + 1)"
    then show ?thesis unfolding assms(7-9) by blast
  qed (rule assms(1-4) old lo hi)+
qed

theorem ema_target_bounded_witness:
  "\<exists>b. GetNextWorkRequiredDAG (testnet_chain 10 0) (Some 258) SetNull CQbtcTestNetParams = Inr b \<and>
     unat (target (SetCompact b)) \<le> unat (target (SetCompact 0x1e0ffffe)) div 1000 * 1000"
proof -
  have par: "nat (nDagEmaMaxAdjust CQbtcTestNetParams) = 3000" "nDagTargetSpacingMs CQbtcTestNetParams = 10000"
    "nDagDiffWindowSize CQbtcTestNetParams = 256" "ema_activation CQbtcTestNetParams = 256"
    by (simp_all add: chain_params ema_activation_def)
  have ok: "bits_in_range CQbtcTestNetParams (nBits (flat_entry 0x1e0fffff 0x1e0ffffe 258 10 0 258))"
    by (simp only: testnet_tip testnet_tip_in_range)
  have act: "ema_activation CQbtcTestNetParams < int (nHeight (flat_entry 0x1e0fffff 0x1e0ffffe 258 10 0 258))"
    by (simp add: testnet_tip par)
  have "[10] = block_times (testnet_chain 10 0) (nat (min (nDagDiffWindowSize CQbtcTestNetParams)
      (int (nHeight (flat_entry 0x1e0fffff 0x1e0ffffe 258 10 0 258)) - ema_activation CQbtcTestNetParams))) 258"
    using testnet_times(2) [of 0] by (simp add: testnet_tip par del: block_times.simps)
  from ema_target_bounded [OF testnet_chain_wf testnet_tip(1)
      ema_params_ok_testnet act ok this refl refl refl, where blk = SetNull]
  obtain b where b: "GetNextWorkRequiredDAG (testnet_chain 10 0) (Some 258) SetNull CQbtcTestNetParams = Inr b"
    "unat (target (SetCompact b)) \<le> min (unat (UintToArith256 (powLimit CQbtcTestNetParams)))
       (unat (target (SetCompact (nBits (flat_entry 0x1e0fffff 0x1e0ffffe 258 10 0 258)))) div 1000 *
        clamp_milli (nat (nDagEmaMaxAdjust CQbtcTestNetParams))
          (nat (Max (set [10])) * 1000 div nat (nDagTargetSpacingMs CQbtcTestNetParams div 1000)))"
    by (elim exE conjE) (rule that)
  have "clamp_milli (nat (nDagEmaMaxAdjust CQbtcTestNetParams))
      (nat (Max (set [10])) * 1000 div nat (nDagTargetSpacingMs CQbtcTestNetParams div 1000)) = 1000"
    by (simp add: par clamp_milli_def)
  with b(2) have "unat (target (SetCompact b)) \<le> unat (target (SetCompact 0x1e0ffffe)) div 1000 * 1000"
    by (simp only: testnet_tip min.bounded_iff)
  with b(1) show ?thesis by blast
qed

text \<open>C35: Whatever branch is taken, the required bits encode a target that is neither negative nor
  overflowing and not above the limit, provided the bits in the index do. Blocks are accepted only
  with the required bits, so this holds along the whole chain.\<close>

theorem required_bits_in_range:
  assumes "GetNextWorkRequired m dag_arg (Some p) blk params = Inr b"
    and "\<And>h j. m h = Some j \<Longrightarrow> bits_in_range params (nBits j)"
  shows "bits_in_range params b"
proof -
  obtain i where i: "m p = Some i" using assms(1) by (auto simp: GetNextWorkRequired_def split: option.splits)
  note r = assms(2) [OF i]
  show ?thesis
    using assms(1) i r limit_in_range GetNextWorkRequiredDAG_in_range [of m p blk params _ i]
      CalculateNextWorkRequired_in_range [of m _ _ params, OF _ assms(2)] last_regular_bits_in_range [of m params, OF assms(2)]
    by (auto simp: GetNextWorkRequired_def Let_def split: if_splits option.splits)
qed

theorem required_bits_in_range_witness:
  "GetNextWorkRequired legacy_chain None (Some 1) SetNull CMainParams = Inr 0x1d00ffff \<and> bits_in_range CMainParams 0x1d00ffff"
proof -
  have r: "bits_in_range CMainParams (nBits j)" if "legacy_chain h = Some j" for h j
    using that by (auto simp: legacy_chain_def flat_chain_def flat_entry_def bits_in_range_def SetCompact_def chain_params split: if_splits)
  have "GetNextWorkRequired legacy_chain None (Some 1) SetNull CMainParams = Inr 0x1d00ffff"
    by (simp add: GetNextWorkRequired_def legacy_chain_def flat_chain_def flat_entry_def chain_params GetBoolArg_def
        DifficultyAdjustmentInterval_def Let_def signed_divide_int_def signed_modulo_int_def)
  then show ?thesis using required_bits_in_range [of legacy_chain None 1 SetNull CMainParams] r by blast
qed

text \<open>C36: The inherited adjustment and the check of header synchronisation agree: on a well-formed
  index the adjustment computes bits, and the transition to them is permitted. So a chain that
  follows the inherited rule is never given up while its headers are downloaded.\<close>

theorem inherited_retarget_permitted:
  assumes "index_wf m" and "m p = Some i" and "legacy_params_ok params" and "bits_in_range params (nBits i)"
    and "\<not> GetBoolArg dag_arg (fDagMode params)"
  shows "\<exists>b. GetNextWorkRequired m dag_arg (Some p) blk params = Inr b \<and>
    PermittedDifficultyTransition params (int (nHeight i) + 1) (nBits i) b = Inr True"
  by (rule GetNextWorkRequired_permitted [OF assms])

theorem inherited_retarget_permitted_witness:
  "\<exists>b. GetNextWorkRequired legacy_chain None (Some 2016) SetNull CMainParams = Inr b \<and>
    PermittedDifficultyTransition CMainParams 2016 0x1d00ffff b = Inr True"
proof -
  let ?e = "flat_entry 0x1d00ffff 0x1d00ffff 2016 1000000 1 2016"
  have "legacy_chain 2016 = Some ?e" "index_wf legacy_chain" by (simp_all add: legacy_chain_def flat_chain_wf) (simp add: flat_chain_def)
  moreover have "bits_in_range CMainParams (nBits ?e)" by (simp add: flat_entry_def bits_in_range_def SetCompact_def chain_params)
  moreover have "\<not> GetBoolArg None (fDagMode CMainParams)" by (simp add: GetBoolArg_def chain_params)
  moreover have "int (nHeight ?e) + 1 = 2016" "nBits ?e = 0x1d00ffff" by (simp_all add: flat_entry_def)
  ultimately show ?thesis
    using inherited_retarget_permitted [of legacy_chain 2016 ?e CMainParams None SetNull] legacy_params_ok_main by simp
qed

text \<open>C37: The per-block adjustment of the DAG and the check of header synchronisation do not agree.
  Whenever all sampled blocks came faster than the target spacing, the adjustment requires a strictly
  smaller target of the next block, and unless the height of that block is a multiple of the inherited
  adjustment interval (128 on the QBTC test network) the transition to it is refused. So header
  synchronisation gives up on a chain whose hash rate grows.\<close>

theorem dag_retarget_not_permitted:
  assumes "index_wf m" and "m p = Some i" and "ema_params_ok params" and "GetBoolArg dag_arg (fDagMode params)"
    and "ema_activation params < int (nHeight i)" and "bits_in_range params (nBits i)" and "0 < target (SetCompact (nBits i))"
    and "1000 < nDagEmaMaxAdjust params"
    and "\<forall>t\<in>set (block_times m (nat (min (nDagDiffWindowSize params) (int (nHeight i) - ema_activation params))) p).
      t < nDagTargetSpacingMs params div 1000"
    and "0 < nPowTargetSpacing params" and "0 < DifficultyAdjustmentInterval params"
    and "\<not> DifficultyAdjustmentInterval params dvd int (nHeight i) + 1"
  shows "\<exists>b. GetNextWorkRequired m dag_arg (Some p) blk params = Inr b \<and>
    target (SetCompact b) < target (SetCompact (nBits i)) \<and>
    PermittedDifficultyTransition params (int (nHeight i) + 1) (nBits i) b = Inr False"
proof -
  obtain b where b: "GetNextWorkRequiredDAG m (Some p) blk params = Inr b"
      "target (SetCompact b) < target (SetCompact (nBits i))"
    by (rule faster_blocks_lower_target [OF assms(1-3,5-9)])
  have "(int (nHeight i) + 1) smod DifficultyAdjustmentInterval params \<noteq> 0"
    using assms(11,12) by (simp add: smod_pos dvd_eq_mod_eq_0)
  moreover have "\<not> fPowAllowMinDifficultyBlocks params" using assms(3) by (simp add: ema_params_ok_def)
  ultimately have "PermittedDifficultyTransition params (int (nHeight i) + 1) (nBits i) b = Inr False"
    using assms(10,11) b(2) by (auto simp: PermittedDifficultyTransition_def)
  then show ?thesis using b assms(2,4) by (auto simp: GetNextWorkRequired_def Let_def)
qed

theorem dag_retarget_not_permitted_witness:
  "\<exists>b. GetNextWorkRequired (testnet_chain 7 1) None (Some 258) SetNull CQbtcTestNetParams = Inr b \<and>
    PermittedDifficultyTransition CQbtcTestNetParams 258 0x1e0ffffe b = Inr False"
proof -
  let ?e = "flat_entry 0x1e0fffff 0x1e0ffffe 258 7 1 258"
  have par: "nDagTargetSpacingMs CQbtcTestNetParams = 10000" "nDagDiffWindowSize CQbtcTestNetParams = 256"
    "ema_activation CQbtcTestNetParams = 256" "1000 < nDagEmaMaxAdjust CQbtcTestNetParams"
    "0 < nPowTargetSpacing CQbtcTestNetParams" "GetBoolArg None (fDagMode CQbtcTestNetParams)"
    "DifficultyAdjustmentInterval CQbtcTestNetParams = 128"
    by (simp_all add: chain_params ema_activation_def GetBoolArg_def DifficultyAdjustmentInterval_def signed_divide_int_def)
  have "\<forall>t\<in>set (block_times (testnet_chain 7 1) (nat (min (nDagDiffWindowSize CQbtcTestNetParams)
      (int (nHeight ?e) - ema_activation CQbtcTestNetParams))) 258). t < nDagTargetSpacingMs CQbtcTestNetParams div 1000"
    using testnet_times(1) [of 1] by (simp add: testnet_tip par del: block_times.simps)
  moreover have "0 < target (SetCompact (nBits ?e))" by (simp add: testnet_tip SetCompact_def)
  moreover have "bits_in_range CQbtcTestNetParams (nBits ?e)" by (simp only: testnet_tip testnet_tip_in_range)
  ultimately show ?thesis
    using dag_retarget_not_permitted [OF testnet_chain_wf testnet_tip(1) ema_params_ok_testnet par(6), of 7 1 SetNull]
    by (auto simp: testnet_tip par)
qed

text \<open>C38: The transaction load splits nodes that have a block from nodes that have only its header.
  Take two indexes with the same headers, one whose last blocks carry on average at least twice the
  baseline of transactions and one that does not have the transactions of the last block yet
  (count 0). If the block times call for no easing of the target, both nodes compute required bits
  for the next block, and the node with the transactions requires a strictly smaller target. So a
  node that synchronises headers first refuses the headers of a busy chain.\<close>

theorem load_splits_nodes:
  assumes "index_wf m" and "m p = Some i" and "ema_params_ok params" and "GetBoolArg dag_arg (fDagMode params)"
    and "ema_activation params < int (nHeight i)" and "bits_in_range params (nBits i)" and "1000 \<le> target (SetCompact (nBits i))"
    and "\<forall>t\<in>set (block_times m (nat (min (nDagDiffWindowSize params) (int (nHeight i) - ema_activation params))) p).
      t \<le> nDagTargetSpacingMs params div 1000"
    and "load_enabled params" and "0 < nDagEmaSlowHalfLife params"
    and "window = min (nDagEmaSlowHalfLife params * 2) (int (nHeight i) - ema_activation params)"
    and "GetAncestor m p (int (nHeight i) - window) = Some q" and "m q = Some older"
    and "unat (m_chain_tx_count i) < 2 ^ 63"
    and "2 * nLoadDiffBaseline params * window \<le> int (unat (m_chain_tx_count i)) - int (unat (m_chain_tx_count older))"
    and "header_view m' = header_view m" and "m' p = Some j" and "m_chain_tx_count j = 0"
  shows "\<exists>b b'. GetNextWorkRequired m dag_arg (Some p) blk params = Inr b \<and>
    GetNextWorkRequired m' dag_arg (Some p) blk params = Inr b' \<and>
    target (SetCompact b) < target (SetCompact b')"
proof -
  obtain b b' where "GetNextWorkRequiredDAG m (Some p) blk params = Inr b" "GetNextWorkRequiredDAG m' (Some p) blk params = Inr b'"
      "target (SetCompact b) < target (SetCompact b')"
    by (rule busy_target_below_idle [OF assms(1-3,5-18)])
  then show ?thesis using assms(2,4,17) by (auto simp: GetNextWorkRequired_def Let_def)
qed

theorem load_splits_nodes_witness:
  "\<exists>b b'. GetNextWorkRequired (testnet_chain 10 1000) None (Some 258) SetNull CQbtcTestNetParams = Inr b \<and>
    GetNextWorkRequired (testnet_chain 10 0) None (Some 258) SetNull CQbtcTestNetParams = Inr b' \<and>
    target (SetCompact b) < target (SetCompact b')"
proof -
  let ?e = "\<lambda>txs. flat_entry 0x1e0fffff 0x1e0ffffe 258 10 txs"
  have par: "nDagTargetSpacingMs CQbtcTestNetParams = 10000" "nDagDiffWindowSize CQbtcTestNetParams = 256"
    "ema_activation CQbtcTestNetParams = 256" "nLoadDiffBaseline CQbtcTestNetParams = 200"
    "nDagEmaSlowHalfLife CQbtcTestNetParams = 72" "GetBoolArg None (fDagMode CQbtcTestNetParams)" "load_enabled CQbtcTestNetParams"
    by (simp_all add: chain_params ema_activation_def GetBoolArg_def load_enabled_def)
  have "\<forall>t\<in>set (block_times (testnet_chain 10 1000) (nat (min (nDagDiffWindowSize CQbtcTestNetParams)
      (int (nHeight (?e 1000 258)) - ema_activation CQbtcTestNetParams))) 258). t \<le> nDagTargetSpacingMs CQbtcTestNetParams div 1000"
    using testnet_times(2) [of 1000] by (simp add: testnet_tip par del: block_times.simps)
  moreover have "1000 \<le> target (SetCompact (nBits (?e 1000 258)))" by (simp add: testnet_tip SetCompact_def)
  moreover have "bits_in_range CQbtcTestNetParams (nBits (?e 1000 258))" by (simp only: testnet_tip testnet_tip_in_range)
  moreover have "testnet_chain 10 1000 257 = Some (?e 1000 257)" by (simp add: testnet_chain_def flat_chain_def)
  moreover have "header_view (testnet_chain 10 0) = header_view (testnet_chain 10 1000)"
    unfolding testnet_chain_def by (rule flat_chain_header_view)
  moreover have "m_chain_tx_count (?e 1000 258) = 1257" "m_chain_tx_count (?e 1000 257) = 257" "m_chain_tx_count (?e 0 258) = 0"
    by (simp_all add: flat_entry_def)
  ultimately show ?thesis
    by (intro load_splits_nodes [OF testnet_chain_wf testnet_tip(1) ema_params_ok_testnet par(6),
          where window = 1 and q = 257 and older = "?e 1000 257" and j = "?e 0 258"])
      (simp_all add: testnet_tip testnet_ancestor par)
qed

text \<open>C39: Without the load multiplier the required bits are a function of the headers: two indexes that
  agree on predecessors, heights, times and bits require the same, whatever each knows of the
  blocks' transactions, validity and scores.\<close>

theorem required_bits_from_headers:
  assumes "\<not> load_enabled params" and "header_view m = header_view m'"
  shows "GetNextWorkRequired m dag_arg p blk params = GetNextWorkRequired m' dag_arg p blk params"
  using GetNextWorkRequired_view [OF assms(1)] assms(2) by metis

theorem required_bits_from_headers_witness:
  "GetNextWorkRequired (flat_chain 0x1d00ffff 0x1d00ffff 2016 1000000 1000) None (Some 2016) SetNull CMainParams =
   GetNextWorkRequired (flat_chain 0x1d00ffff 0x1d00ffff 2016 1000000 0) None (Some 2016) SetNull CMainParams"
  by (rule required_bits_from_headers [OF _ flat_chain_header_view]) (simp add: load_enabled_def chain_params)

end
