(* ===== verification/Script.thy ===== *)
theory Script
  imports Serialize "HOL-Library.Sublist"
begin

unbundle bit_operations_syntax

text \<open>
  Scripts as byte strings (\<^verbatim>\<open>src/src/script/script.h\<close>, \<^verbatim>\<open>src/src/script/script.cpp\<close>): the
  opcodes, the numbers of the stack machine (\<open>CScriptNum\<close>), reading and writing instructions, and the
  script templates the node recognises.

  An iterator into a script is the suffix that starts at it, so \<open>pc\<close> and \<open>end\<close> together are one list.
  A \<open>CScriptNum\<close> is the \<open>int\<close> it holds; its bytes go through the 64-bit word the source computes
  with. A thrown \<open>scriptnum_error\<close> and a failed assertion are \<open>None\<close>.

  The lemmas show that encoding and decoding of numbers and of pushes are inverse to each other and
  that the minimal encoding of a number is unique.
\<close>

type_synonym valtype = "uint8 list"
type_synonym CScript = "uint8 list"
type_synonym opcodetype = uint8

section \<open>Opcodes\<close>

abbreviation (input) OP_0 :: opcodetype where "OP_0 \<equiv> 0"
abbreviation (input) OP_FALSE :: opcodetype where "OP_FALSE \<equiv> OP_0"
abbreviation (input) OP_PUSHDATA1 :: opcodetype where "OP_PUSHDATA1 \<equiv> 0x4c"
abbreviation (input) OP_PUSHDATA2 :: opcodetype where "OP_PUSHDATA2 \<equiv> 0x4d"
abbreviation (input) OP_PUSHDATA4 :: opcodetype where "OP_PUSHDATA4 \<equiv> 0x4e"
abbreviation (input) OP_1NEGATE :: opcodetype where "OP_1NEGATE \<equiv> 0x4f"
abbreviation (input) OP_RESERVED :: opcodetype where "OP_RESERVED \<equiv> 0x50"
abbreviation (input) OP_1 :: opcodetype where "OP_1 \<equiv> 0x51"
abbreviation (input) OP_TRUE :: opcodetype where "OP_TRUE \<equiv> OP_1"
abbreviation (input) OP_2 :: opcodetype where "OP_2 \<equiv> 0x52"
abbreviation (input) OP_3 :: opcodetype where "OP_3 \<equiv> 0x53"
abbreviation (input) OP_4 :: opcodetype where "OP_4 \<equiv> 0x54"
abbreviation (input) OP_5 :: opcodetype where "OP_5 \<equiv> 0x55"
abbreviation (input) OP_6 :: opcodetype where "OP_6 \<equiv> 0x56"
abbreviation (input) OP_7 :: opcodetype where "OP_7 \<equiv> 0x57"
abbreviation (input) OP_8 :: opcodetype where "OP_8 \<equiv> 0x58"
abbreviation (input) OP_9 :: opcodetype where "OP_9 \<equiv> 0x59"
abbreviation (input) OP_10 :: opcodetype where "OP_10 \<equiv> 0x5a"
abbreviation (input) OP_11 :: opcodetype where "OP_11 \<equiv> 0x5b"
abbreviation (input) OP_12 :: opcodetype where "OP_12 \<equiv> 0x5c"
abbreviation (input) OP_13 :: opcodetype where "OP_13 \<equiv> 0x5d"
abbreviation (input) OP_14 :: opcodetype where "OP_14 \<equiv> 0x5e"
abbreviation (input) OP_15 :: opcodetype where "OP_15 \<equiv> 0x5f"
abbreviation (input) OP_16 :: opcodetype where "OP_16 \<equiv> 0x60"
abbreviation (input) OP_NOP :: opcodetype where "OP_NOP \<equiv> 0x61"
abbreviation (input) OP_VER :: opcodetype where "OP_VER \<equiv> 0x62"
abbreviation (input) OP_IF :: opcodetype where "OP_IF \<equiv> 0x63"
abbreviation (input) OP_NOTIF :: opcodetype where "OP_NOTIF \<equiv> 0x64"
abbreviation (input) OP_VERIF :: opcodetype where "OP_VERIF \<equiv> 0x65"
abbreviation (input) OP_VERNOTIF :: opcodetype where "OP_VERNOTIF \<equiv> 0x66"
abbreviation (input) OP_ELSE :: opcodetype where "OP_ELSE \<equiv> 0x67"
abbreviation (input) OP_ENDIF :: opcodetype where "OP_ENDIF \<equiv> 0x68"
abbreviation (input) OP_VERIFY :: opcodetype where "OP_VERIFY \<equiv> 0x69"
abbreviation (input) OP_RETURN :: opcodetype where "OP_RETURN \<equiv> 0x6a"
abbreviation (input) OP_TOALTSTACK :: opcodetype where "OP_TOALTSTACK \<equiv> 0x6b"
abbreviation (input) OP_FROMALTSTACK :: opcodetype where "OP_FROMALTSTACK \<equiv> 0x6c"
abbreviation (input) OP_2DROP :: opcodetype where "OP_2DROP \<equiv> 0x6d"
abbreviation (input) OP_2DUP :: opcodetype where "OP_2DUP \<equiv> 0x6e"
abbreviation (input) OP_3DUP :: opcodetype where "OP_3DUP \<equiv> 0x6f"
abbreviation (input) OP_2OVER :: opcodetype where "OP_2OVER \<equiv> 0x70"
abbreviation (input) OP_2ROT :: opcodetype where "OP_2ROT \<equiv> 0x71"
abbreviation (input) OP_2SWAP :: opcodetype where "OP_2SWAP \<equiv> 0x72"
abbreviation (input) OP_IFDUP :: opcodetype where "OP_IFDUP \<equiv> 0x73"
abbreviation (input) OP_DEPTH :: opcodetype where "OP_DEPTH \<equiv> 0x74"
abbreviation (input) OP_DROP :: opcodetype where "OP_DROP \<equiv> 0x75"
abbreviation (input) OP_DUP :: opcodetype where "OP_DUP \<equiv> 0x76"
abbreviation (input) OP_NIP :: opcodetype where "OP_NIP \<equiv> 0x77"
abbreviation (input) OP_OVER :: opcodetype where "OP_OVER \<equiv> 0x78"
abbreviation (input) OP_PICK :: opcodetype where "OP_PICK \<equiv> 0x79"
abbreviation (input) OP_ROLL :: opcodetype where "OP_ROLL \<equiv> 0x7a"
abbreviation (input) OP_ROT :: opcodetype where "OP_ROT \<equiv> 0x7b"
abbreviation (input) OP_SWAP :: opcodetype where "OP_SWAP \<equiv> 0x7c"
abbreviation (input) OP_TUCK :: opcodetype where "OP_TUCK \<equiv> 0x7d"
abbreviation (input) OP_CAT :: opcodetype where "OP_CAT \<equiv> 0x7e"
abbreviation (input) OP_SUBSTR :: opcodetype where "OP_SUBSTR \<equiv> 0x7f"
abbreviation (input) OP_LEFT :: opcodetype where "OP_LEFT \<equiv> 0x80"
abbreviation (input) OP_RIGHT :: opcodetype where "OP_RIGHT \<equiv> 0x81"
abbreviation (input) OP_SIZE :: opcodetype where "OP_SIZE \<equiv> 0x82"
abbreviation (input) OP_INVERT :: opcodetype where "OP_INVERT \<equiv> 0x83"
abbreviation (input) OP_AND :: opcodetype where "OP_AND \<equiv> 0x84"
abbreviation (input) OP_OR :: opcodetype where "OP_OR \<equiv> 0x85"
abbreviation (input) OP_XOR :: opcodetype where "OP_XOR \<equiv> 0x86"
abbreviation (input) OP_EQUAL :: opcodetype where "OP_EQUAL \<equiv> 0x87"
abbreviation (input) OP_EQUALVERIFY :: opcodetype where "OP_EQUALVERIFY \<equiv> 0x88"
abbreviation (input) OP_RESERVED1 :: opcodetype where "OP_RESERVED1 \<equiv> 0x89"
abbreviation (input) OP_RESERVED2 :: opcodetype where "OP_RESERVED2 \<equiv> 0x8a"
abbreviation (input) OP_1ADD :: opcodetype where "OP_1ADD \<equiv> 0x8b"
abbreviation (input) OP_1SUB :: opcodetype where "OP_1SUB \<equiv> 0x8c"
abbreviation (input) OP_2MUL :: opcodetype where "OP_2MUL \<equiv> 0x8d"
abbreviation (input) OP_2DIV :: opcodetype where "OP_2DIV \<equiv> 0x8e"
abbreviation (input) OP_NEGATE :: opcodetype where "OP_NEGATE \<equiv> 0x8f"
abbreviation (input) OP_ABS :: opcodetype where "OP_ABS \<equiv> 0x90"
abbreviation (input) OP_NOT :: opcodetype where "OP_NOT \<equiv> 0x91"
abbreviation (input) OP_0NOTEQUAL :: opcodetype where "OP_0NOTEQUAL \<equiv> 0x92"
abbreviation (input) OP_ADD :: opcodetype where "OP_ADD \<equiv> 0x93"
abbreviation (input) OP_SUB :: opcodetype where "OP_SUB \<equiv> 0x94"
abbreviation (input) OP_MUL :: opcodetype where "OP_MUL \<equiv> 0x95"
abbreviation (input) OP_DIV :: opcodetype where "OP_DIV \<equiv> 0x96"
abbreviation (input) OP_MOD :: opcodetype where "OP_MOD \<equiv> 0x97"
abbreviation (input) OP_LSHIFT :: opcodetype where "OP_LSHIFT \<equiv> 0x98"
abbreviation (input) OP_RSHIFT :: opcodetype where "OP_RSHIFT \<equiv> 0x99"
abbreviation (input) OP_BOOLAND :: opcodetype where "OP_BOOLAND \<equiv> 0x9a"
abbreviation (input) OP_BOOLOR :: opcodetype where "OP_BOOLOR \<equiv> 0x9b"
abbreviation (input) OP_NUMEQUAL :: opcodetype where "OP_NUMEQUAL \<equiv> 0x9c"
abbreviation (input) OP_NUMEQUALVERIFY :: opcodetype where "OP_NUMEQUALVERIFY \<equiv> 0x9d"
abbreviation (input) OP_NUMNOTEQUAL :: opcodetype where "OP_NUMNOTEQUAL \<equiv> 0x9e"
abbreviation (input) OP_LESSTHAN :: opcodetype where "OP_LESSTHAN \<equiv> 0x9f"
abbreviation (input) OP_GREATERTHAN :: opcodetype where "OP_GREATERTHAN \<equiv> 0xa0"
abbreviation (input) OP_LESSTHANOREQUAL :: opcodetype where "OP_LESSTHANOREQUAL \<equiv> 0xa1"
abbreviation (input) OP_GREATERTHANOREQUAL :: opcodetype where "OP_GREATERTHANOREQUAL \<equiv> 0xa2"
abbreviation (input) OP_MIN :: opcodetype where "OP_MIN \<equiv> 0xa3"
abbreviation (input) OP_MAX :: opcodetype where "OP_MAX \<equiv> 0xa4"
abbreviation (input) OP_WITHIN :: opcodetype where "OP_WITHIN \<equiv> 0xa5"
abbreviation (input) OP_RIPEMD160 :: opcodetype where "OP_RIPEMD160 \<equiv> 0xa6"
abbreviation (input) OP_SHA1 :: opcodetype where "OP_SHA1 \<equiv> 0xa7"
abbreviation (input) OP_SHA256 :: opcodetype where "OP_SHA256 \<equiv> 0xa8"
abbreviation (input) OP_HASH160 :: opcodetype where "OP_HASH160 \<equiv> 0xa9"
abbreviation (input) OP_HASH256 :: opcodetype where "OP_HASH256 \<equiv> 0xaa"
abbreviation (input) OP_CODESEPARATOR :: opcodetype where "OP_CODESEPARATOR \<equiv> 0xab"
abbreviation (input) OP_CHECKSIG :: opcodetype where "OP_CHECKSIG \<equiv> 0xac"
abbreviation (input) OP_CHECKSIGVERIFY :: opcodetype where "OP_CHECKSIGVERIFY \<equiv> 0xad"
abbreviation (input) OP_CHECKMULTISIG :: opcodetype where "OP_CHECKMULTISIG \<equiv> 0xae"
abbreviation (input) OP_CHECKMULTISIGVERIFY :: opcodetype where "OP_CHECKMULTISIGVERIFY \<equiv> 0xaf"
abbreviation (input) OP_NOP1 :: opcodetype where "OP_NOP1 \<equiv> 0xb0"
abbreviation (input) OP_CHECKLOCKTIMEVERIFY :: opcodetype where "OP_CHECKLOCKTIMEVERIFY \<equiv> 0xb1"
abbreviation (input) OP_NOP2 :: opcodetype where "OP_NOP2 \<equiv> OP_CHECKLOCKTIMEVERIFY"
abbreviation (input) OP_CHECKSEQUENCEVERIFY :: opcodetype where "OP_CHECKSEQUENCEVERIFY \<equiv> 0xb2"
abbreviation (input) OP_NOP3 :: opcodetype where "OP_NOP3 \<equiv> OP_CHECKSEQUENCEVERIFY"
abbreviation (input) OP_NOP4 :: opcodetype where "OP_NOP4 \<equiv> 0xb3"
abbreviation (input) OP_NOP5 :: opcodetype where "OP_NOP5 \<equiv> 0xb4"
abbreviation (input) OP_NOP6 :: opcodetype where "OP_NOP6 \<equiv> 0xb5"
abbreviation (input) OP_NOP7 :: opcodetype where "OP_NOP7 \<equiv> 0xb6"
abbreviation (input) OP_NOP8 :: opcodetype where "OP_NOP8 \<equiv> 0xb7"
abbreviation (input) OP_NOP9 :: opcodetype where "OP_NOP9 \<equiv> 0xb8"
abbreviation (input) OP_NOP10 :: opcodetype where "OP_NOP10 \<equiv> 0xb9"
abbreviation (input) OP_CHECKSIGADD :: opcodetype where "OP_CHECKSIGADD \<equiv> 0xba"
abbreviation (input) OP_INVALIDOPCODE :: opcodetype where "OP_INVALIDOPCODE \<equiv> 0xff"

abbreviation (input) MAX_OPCODE :: opcodetype where "MAX_OPCODE \<equiv> OP_NOP10"

definition MAX_SCRIPT_ELEMENT_SIZE :: nat where
  "MAX_SCRIPT_ELEMENT_SIZE = 520"

definition MAX_OPS_PER_SCRIPT :: int where
  "MAX_OPS_PER_SCRIPT = 201"

definition MAX_PUBKEYS_PER_MULTISIG :: int where
  "MAX_PUBKEYS_PER_MULTISIG = 20"

definition MAX_SCRIPT_SIZE :: nat where
  "MAX_SCRIPT_SIZE = 10000"

definition MAX_STACK_SIZE :: nat where
  "MAX_STACK_SIZE = 1000"

definition LOCKTIME_THRESHOLD :: int where
  "LOCKTIME_THRESHOLD = 500000000"

definition ANNEX_TAG :: uint8 where
  "ANNEX_TAG = 0x50"

definition VALIDATION_WEIGHT_PER_SIGOP_PASSED :: int where
  "VALIDATION_WEIGHT_PER_SIGOP_PASSED = 50"

definition VALIDATION_WEIGHT_OFFSET :: int where
  "VALIDATION_WEIGHT_OFFSET = 50"

section \<open>Numbers of the stack machine\<close>

text \<open>\<open>CScriptNum::serialize\<close>: the bytes of the absolute value, least significant first, with the sign
  in the top bit of the last byte.\<close>

function abs_bytes :: "uint64 \<Rightarrow> uint8 list" where
  "abs_bytes absvalue = (if absvalue = 0 then [] else ucast (absvalue AND 0xff) # abs_bytes (drop_bit 8 absvalue))"
  by auto
termination
proof (relation "measure unat")
  fix a :: uint64
  assume "a \<noteq> 0"
  then have "unat a > 0" by (simp add: unat_gt_0)
  then show "(drop_bit 8 a, a) \<in> measure unat" by (simp add: drop_bit_eq_div unat_div_distrib)
qed simp

declare abs_bytes.simps [simp del]

definition num_serialize :: "int \<Rightarrow> valtype" where
  "num_serialize v =
     (if v = 0 then []
      else let neg = v < 0;
               absvalue = (if neg then NOT (word_of_int v) + 1 else word_of_int v);
               result = abs_bytes absvalue
           in if last result AND 0x80 \<noteq> 0 then result @ [if neg then 0x80 else 0]
              else if neg then butlast result @ [last result OR 0x80]
              else result)"

fun set_vch_loop :: "nat \<Rightarrow> valtype \<Rightarrow> uint64 \<Rightarrow> uint64" where
  "set_vch_loop i [] result = result"
| "set_vch_loop i (b # vch) result = set_vch_loop (Suc i) vch (result OR push_bit (8 * i) (ucast b))"

definition set_vch :: "valtype \<Rightarrow> int" where
  "set_vch vch =
     (if vch = [] then 0
      else let result = set_vch_loop 0 vch 0
           in if last vch AND 0x80 \<noteq> 0 then - sint (result AND NOT (push_bit (8 * (length vch - 1)) 0x80))
              else sint result)"

text \<open>The constructor from bytes; \<open>None\<close> is the exception it throws.\<close>

definition CScriptNum :: "valtype \<Rightarrow> bool \<Rightarrow> nat \<Rightarrow> int option" where
  "CScriptNum vch fRequireMinimal nMaxNumSize =
     (if length vch > nMaxNumSize then None
      else if fRequireMinimal \<and> vch \<noteq> [] \<and> last vch AND 0x7f = 0 \<and>
              (length vch \<le> 1 \<or> vch ! (length vch - 2) AND 0x80 = 0) then None
      else Some (set_vch vch))"

abbreviation (input) nDefaultMaxNumSize :: nat where "nDefaultMaxNumSize \<equiv> 4"

definition int64_min :: int where "int64_min = - (2 ^ 63)"
definition int64_max :: int where "int64_max = 2 ^ 63 - 1"

text \<open>The asserting operators of the class.\<close>

definition num_add_assign :: "int \<Rightarrow> int \<Rightarrow> int option" where
  "num_add_assign m rhs =
     (if rhs = 0 \<or> (rhs > 0 \<and> m \<le> int64_max - rhs) \<or> (rhs < 0 \<and> m \<ge> int64_min - rhs) then Some (m + rhs) else None)"

definition num_sub_assign :: "int \<Rightarrow> int \<Rightarrow> int option" where
  "num_sub_assign m rhs =
     (if rhs = 0 \<or> (rhs > 0 \<and> m \<ge> int64_min + rhs) \<or> (rhs < 0 \<and> m \<le> int64_max + rhs) then Some (m - rhs) else None)"

definition num_neg :: "int \<Rightarrow> int option" where
  "num_neg m = (if m \<noteq> int64_min then Some (- m) else None)"

definition getint :: "int \<Rightarrow> int" where
  "getint m = (if m > 2 ^ 31 - 1 then 2 ^ 31 - 1 else if m < - (2 ^ 31) then - (2 ^ 31) else m)"

section \<open>Reading and writing instructions\<close>

text \<open>\<open>CScript::operator<<\<close> for bytes.\<close>

definition push_data :: "valtype \<Rightarrow> CScript" where
  "push_data b =
     (if length b < 0x4c then [of_nat (length b)]
      else if length b \<le> 0xff then [OP_PUSHDATA1, of_nat (length b)]
      else if length b \<le> 0xffff then OP_PUSHDATA2 # le_bytes 2 (length b)
      else OP_PUSHDATA4 # le_bytes 4 (length b)) @ b"

definition push_int64 :: "int \<Rightarrow> CScript" where
  "push_int64 n =
     (if n = -1 \<or> (n \<ge> 1 \<and> n \<le> 16) then [word_of_int (n + 0x50)]
      else if n = 0 then [OP_0]
      else push_data (num_serialize n))"

text \<open>The immediate operand: \<open>w\<close> length bytes and then that many bytes. A read that fails has already
  moved the iterator over the bytes it consumed.\<close>

definition read_operand :: "opcodetype \<Rightarrow> nat \<Rightarrow> uint8 list \<Rightarrow> bool \<times> uint8 list \<times> opcodetype \<times> valtype" where
  "read_operand opcode nSize pc =
     (if length pc < nSize then (False, pc, OP_INVALIDOPCODE, [])
      else (True, drop nSize pc, opcode, take nSize pc))"

definition read_sized_operand :: "opcodetype \<Rightarrow> nat \<Rightarrow> uint8 list \<Rightarrow> bool \<times> uint8 list \<times> opcodetype \<times> valtype" where
  "read_sized_operand opcode w pc =
     (if length pc < w then (False, pc, OP_INVALIDOPCODE, [])
      else read_operand opcode (le_val (take w pc)) (drop w pc))"

fun GetScriptOp :: "uint8 list \<Rightarrow> bool \<times> uint8 list \<times> opcodetype \<times> valtype" where
  "GetScriptOp [] = (False, [], OP_INVALIDOPCODE, [])"
| "GetScriptOp (opcode # pc) =
     (if opcode \<le> OP_PUSHDATA4
      then if opcode < OP_PUSHDATA1 then read_operand opcode (unat opcode) pc
           else if opcode = OP_PUSHDATA1 then read_sized_operand opcode 1 pc
           else if opcode = OP_PUSHDATA2 then read_sized_operand opcode 2 pc
           else read_sized_operand opcode 4 pc
      else (True, pc, opcode, []))"

lemma GetScriptOp_suffix: "GetScriptOp pc = (ok, pc', opcode, vch) \<Longrightarrow> suffix pc' pc"
  by (cases pc) (auto simp: read_operand_def read_sized_operand_def suffix_drop intro: suffix_ConsI
      split: if_splits)

lemma GetScriptOp_shorter: "GetScriptOp pc = (True, pc', opcode, vch) \<Longrightarrow> length pc' < length pc"
  by (cases pc) (auto simp: read_operand_def read_sized_operand_def split: if_splits)

section \<open>Script templates\<close>

definition DecodeOP_N :: "opcodetype \<Rightarrow> nat option" where
  "DecodeOP_N opcode =
     (if opcode = OP_0 then Some 0
      else if opcode \<ge> OP_1 \<and> opcode \<le> OP_16 then Some (unat opcode - 0x50) else None)"

definition EncodeOP_N :: "nat \<Rightarrow> opcodetype option" where
  "EncodeOP_N n = (if n \<le> 16 then Some (if n = 0 then OP_0 else of_nat (0x50 + n)) else None)"

definition IsPayToAnchor :: "nat \<Rightarrow> valtype \<Rightarrow> bool" where
  "IsPayToAnchor version program \<longleftrightarrow> version = 1 \<and> length program = 2 \<and> program ! 0 = 0x4e \<and> program ! 1 = 0x73"

definition IsPayToScriptHash :: "CScript \<Rightarrow> bool" where
  "IsPayToScriptHash sc \<longleftrightarrow> length sc = 23 \<and> sc ! 0 = OP_HASH160 \<and> sc ! 1 = 0x14 \<and> sc ! 22 = OP_EQUAL"

definition IsPayToWitnessScriptHash :: "CScript \<Rightarrow> bool" where
  "IsPayToWitnessScriptHash sc \<longleftrightarrow> length sc = 34 \<and> sc ! 0 = OP_0 \<and> sc ! 1 = 0x20"

text \<open>The version and the program, when the script is a witness program.\<close>

definition IsWitnessProgram :: "CScript \<Rightarrow> (nat \<times> valtype) option" where
  "IsWitnessProgram sc =
     (if length sc < 4 \<or> length sc > 42 then None
      else if sc ! 0 \<noteq> OP_0 \<and> (sc ! 0 < OP_1 \<or> sc ! 0 > OP_16) then None
      else if unat (sc ! 1) + 2 = length sc
      then map_option (\<lambda>version. (version, drop 2 sc)) (DecodeOP_N (sc ! 0))
      else None)"

function IsPushOnly :: "CScript \<Rightarrow> bool" where
  "IsPushOnly pc =
     (if pc = [] then True
      else case GetScriptOp pc of (ok, pc', opcode, vch) \<Rightarrow> ok \<and> \<not> opcode > OP_16 \<and> (if ok then IsPushOnly pc' else False))"
  by auto
termination by (relation "measure length") (auto dest: GetScriptOp_shorter [OF sym])

declare IsPushOnly.simps [simp del]

function HasValidOps :: "CScript \<Rightarrow> bool" where
  "HasValidOps it =
     (if it = [] then True
      else case GetScriptOp it of (ok, it', opcode, item) \<Rightarrow>
        if \<not> ok \<or> opcode > MAX_OPCODE \<or> length item > MAX_SCRIPT_ELEMENT_SIZE then False else HasValidOps it')"
  by auto
termination by (relation "measure length") (auto dest: GetScriptOp_shorter [OF sym])

declare HasValidOps.simps [simp del]

definition IsUnspendable :: "CScript \<Rightarrow> bool" where
  "IsUnspendable sc \<longleftrightarrow> (sc \<noteq> [] \<and> hd sc = OP_RETURN) \<or> length sc > MAX_SCRIPT_SIZE"

definition IsOpSuccess :: "opcodetype \<Rightarrow> bool" where
  "IsOpSuccess opcode \<longleftrightarrow>
     opcode = 80 \<or> opcode = 98 \<or> (opcode \<ge> 126 \<and> opcode \<le> 129) \<or> (opcode \<ge> 131 \<and> opcode \<le> 134) \<or>
     (opcode \<ge> 137 \<and> opcode \<le> 138) \<or> (opcode \<ge> 141 \<and> opcode \<le> 142) \<or> (opcode \<ge> 149 \<and> opcode \<le> 153) \<or>
     (opcode \<ge> 187 \<and> opcode \<le> 254)"

text \<open>Asserts that the opcode is a push.\<close>

definition CheckMinimalPush :: "valtype \<Rightarrow> opcodetype \<Rightarrow> bool option" where
  "CheckMinimalPush data opcode =
     (if \<not> opcode \<le> OP_PUSHDATA4 then None
      else Some
       (if data = [] then opcode = OP_0
        else if length data = 1 \<and> data ! 0 \<ge> 1 \<and> data ! 0 \<le> 16 then False
        else if length data = 1 \<and> data ! 0 = 0x81 then False
        else if length data \<le> 75 then unat opcode = length data
        else if length data \<le> 255 then opcode = OP_PUSHDATA1
        else if length data \<le> 65535 then opcode = OP_PUSHDATA2
        else True))"

section \<open>Counting signature operations\<close>

function sigops_loop :: "bool \<Rightarrow> opcodetype \<Rightarrow> CScript \<Rightarrow> nat" where
  "sigops_loop fAccurate lastOpcode pc =
     (if pc = [] then 0
      else case GetScriptOp pc of (ok, pc', opcode, vch) \<Rightarrow>
        if \<not> ok then 0
        else (if opcode = OP_CHECKSIG \<or> opcode = OP_CHECKSIGVERIFY then 1
              else if opcode = OP_CHECKMULTISIG \<or> opcode = OP_CHECKMULTISIGVERIFY
              then if fAccurate \<and> lastOpcode \<ge> OP_1 \<and> lastOpcode \<le> OP_16 then unat lastOpcode - 0x50
                   else nat MAX_PUBKEYS_PER_MULTISIG
              else 0) + sigops_loop fAccurate opcode pc')"
  by auto
termination by (relation "measure (\<lambda>(f, l, pc). length pc)") (auto dest: GetScriptOp_shorter [OF sym])

declare sigops_loop.simps [simp del]

definition GetSigOpCount :: "bool \<Rightarrow> CScript \<Rightarrow> nat" where
  "GetSigOpCount fAccurate sc = sigops_loop fAccurate OP_INVALIDOPCODE sc"

text \<open>The last element a push-only script leaves, for a \<open>scriptSig\<close>; \<open>None\<close> where the count is 0.\<close>

function last_push :: "valtype \<Rightarrow> CScript \<Rightarrow> valtype option" where
  "last_push vData pc =
     (if pc = [] then Some vData
      else case GetScriptOp pc of (ok, pc', opcode, vch) \<Rightarrow>
        if \<not> ok then None else if opcode > OP_16 then None else last_push vch pc')"
  by auto
termination by (relation "measure (\<lambda>(v, pc). length pc)") (auto dest: GetScriptOp_shorter [OF sym])

declare last_push.simps [simp del]

definition GetSigOpCount_p2sh :: "CScript \<Rightarrow> CScript \<Rightarrow> nat" where
  "GetSigOpCount_p2sh scriptPubKey scriptSig =
     (if \<not> IsPayToScriptHash scriptPubKey then GetSigOpCount True scriptPubKey
      else case last_push [] scriptSig of None \<Rightarrow> 0 | Some vData \<Rightarrow> GetSigOpCount True vData)"

section \<open>Facts about numbers\<close>

lemma le_val_append: "le_val (xs @ ys) = le_val xs + 256 ^ length xs * le_val ys"
  by (induction xs) (simp_all add: algebra_simps)

lemma le_val_abs_bytes: "le_val (abs_bytes a) = unat a"
proof (induction a rule: abs_bytes.induct)
  case (1 a)
  have "unat (ucast (a AND 0xff) :: uint8) = unat a mod 256"
  proof -
    have m: "a AND 0xff = take_bit 8 a" by (simp add: take_bit_eq_mask mask_eq_exp_minus_1)
    show ?thesis unfolding m by (simp add: unsigned_ucast_eq take_bit_eq_mod unat_mod_distrib)
  qed
  moreover have "unat (drop_bit 8 a) = unat a div 256" by (simp add: drop_bit_eq_div unat_div_distrib)
  ultimately show ?case using 1 by (subst abs_bytes.simps) auto
qed

lemma last_abs_bytes: "a \<noteq> 0 \<Longrightarrow> abs_bytes a \<noteq> [] \<and> last (abs_bytes a) \<noteq> 0"
proof (induction a rule: abs_bytes.induct)
  case (1 a)
  have eq: "abs_bytes a = ucast (a AND 0xff) # abs_bytes (drop_bit 8 a)" using 1(2) by (subst abs_bytes.simps) simp
  show ?case
  proof (cases "drop_bit 8 a = 0")
    case True
    then have e: "abs_bytes a = [ucast (a AND 0xff)]" unfolding eq by (subst abs_bytes.simps) simp
    then have "unat (ucast (a AND 0xff) :: uint8) = unat a" using le_val_abs_bytes [of a] by simp
    then show ?thesis using e 1(2) by (metis last.simps list.distinct(1) unsigned_0 unsigned_word_eqI)
  next
    case False
    then show ?thesis using 1 eq by simp
  qed
qed

lemma digit_eq: "a + 256 * x = b + 256 * y \<Longrightarrow> a < 256 \<Longrightarrow> b < 256 \<Longrightarrow> a = b \<and> x = (y :: nat)"
proof -
  assume e: "a + 256 * x = b + 256 * y" and l: "a < 256" "b < 256"
  have "a = (a + 256 * x) mod 256" using l by simp
  also have "\<dots> = b" unfolding e using l by simp
  finally show ?thesis using e by simp
qed

text \<open>Little-endian digits without a leading zero are determined by their value.\<close>

lemma le_val_inj:
  "le_val xs = le_val ys \<Longrightarrow> xs = [] \<or> last xs \<noteq> 0 \<Longrightarrow> ys = [] \<or> last ys \<noteq> 0 \<Longrightarrow> xs = ys"
proof (induction xs arbitrary: ys)
  case Nil
  have "ys = []"
  proof (rule ccontr)
    assume "ys \<noteq> []"
    moreover from this have "le_val ys = le_val (butlast ys) + 256 ^ length (butlast ys) * unat (last ys)"
      using le_val_append [of "butlast ys" "[last ys]"] by simp
    ultimately show False using Nil by (auto simp: unat_eq_0)
  qed
  then show ?case by simp
next
  case (Cons x xs)
  have pos: "0 < le_val zs" if "zs \<noteq> []" "last zs \<noteq> 0" for zs
    using that le_val_append [of "butlast zs" "[last zs]"] by (simp add: unat_gt_0)
  obtain y ys' where ys: "ys = y # ys'" using Cons(2,3) pos [of "x # xs"] by (cases ys) auto
  have "unat x < 256" "unat y < 256"
    using unsigned_less [of x, where ?'a = nat] unsigned_less [of y, where ?'a = nat] by simp_all
  then have "unat x = unat y" "le_val xs = le_val ys'"
    using digit_eq [of "unat x" "le_val xs" "unat y" "le_val ys'"] Cons(2) ys by simp_all
  moreover have "xs = [] \<or> last xs \<noteq> 0" "ys' = [] \<or> last ys' \<noteq> 0" using Cons(3,4) ys by (auto split: if_splits)
  ultimately show ?case using Cons(1) [of ys'] ys by (simp add: word_unat_eq_iff)
qed

text \<open>The decoder's word is the little-endian value, and a number is a sign and a magnitude.\<close>

lemma bit_word_of_nat:
  assumes "bit (of_nat n :: uint64) i" shows "\<not> n < 2 ^ i"
proof -
  have "bit (unat (of_nat n :: uint64)) i" using assms by (simp add: bit_unsigned_iff)
  then have "bit n i" by (simp add: unsigned_of_nat bit_take_bit_iff)
  then show ?thesis by (auto simp: bit_iff_odd)
qed

lemma bit_le_val: "bit (of_nat (le_val xs) :: uint64) i \<Longrightarrow> i < 8 * length xs"
proof (rule ccontr)
  assume b: "bit (of_nat (le_val xs) :: uint64) i" and "\<not> i < 8 * length xs"
  then have "(2::nat) ^ (8 * length xs) \<le> 2 ^ i" by simp
  then have "le_val xs < 2 ^ i" using le_val_bound [of xs] by (simp add: power_mult)
  then show False using bit_word_of_nat [OF b] by simp
qed

lemma or_push_bit: "(of_nat n :: uint64) OR push_bit k x = of_nat n + push_bit k x" if "n < 2 ^ k"
proof (rule disjunctive_add [symmetric])
  fix i
  show "\<not> bit (of_nat n :: uint64) i \<or> \<not> bit (push_bit k x) i"
  proof (cases "i < k")
    case False
    then have "(2::nat) ^ k \<le> 2 ^ i" by simp
    then have "n < 2 ^ i" using that by linarith
    then show ?thesis using bit_word_of_nat [of n i] by blast
  qed (simp add: bit_push_bit_iff)
qed

lemma set_vch_loop_append: "set_vch_loop i (xs @ ys) r = set_vch_loop (i + length xs) ys (set_vch_loop i xs r)"
  by (induction xs arbitrary: i r) simp_all

lemma set_vch_loop_le_val: "set_vch_loop 0 xs 0 = of_nat (le_val xs)"
proof (induction xs rule: rev_induct)
  case (snoc b xs)
  have "le_val xs < 2 ^ (8 * length xs)" using le_val_bound [of xs] by (simp add: power_mult)
  moreover have "(ucast b :: uint64) = of_nat (unat b)" by simp
  moreover have "(256 :: uint64) ^ length xs = 2 ^ (8 * length xs)" by (simp add: power_mult)
  ultimately show ?case
    using snoc or_push_bit [of "le_val xs" "8 * length xs" "ucast b"]
    by (simp add: set_vch_loop_append le_val_append) (simp add: push_bit_eq_mult mult.commute)
qed simp

definition magnitude :: "valtype \<Rightarrow> nat" where
  "magnitude vch = le_val (butlast vch @ [last vch AND 0x7f])"

lemma and_7f: "b AND 0x7f = take_bit 7 (b :: uint8)"
  by (simp add: take_bit_eq_mask mask_eq_exp_minus_1)

lemma unat_and_7f: "unat (b AND 0x7f :: uint8) = unat b mod 128"
  by (simp add: and_7f take_bit_eq_mod unat_mod_distrib)

lemma and_80: "b AND 0x80 \<noteq> 0 \<longleftrightarrow> 128 \<le> unat (b :: uint8)"
proof -
  have "(0x80 :: uint8) = 2 ^ 7" by simp
  then have "b AND 0x80 \<noteq> 0 \<longleftrightarrow> bit b 7" by (simp only: and_exp_eq_0_iff_not_bit) simp
  also have "\<dots> \<longleftrightarrow> odd (unat b div 128)" using odd_unat_div [of b 7] by simp
  also have "\<dots> \<longleftrightarrow> 128 \<le> unat b"
  proof -
    have "unat b < 256" using unsigned_less [of b, where ?'a = nat] by simp
    then have "unat b div 128 = (if 128 \<le> unat b then 1 else 0)" by (auto intro: div_nat_eqI)
    then show ?thesis by simp
  qed
  finally show ?thesis .
qed

lemma magnitude_less: "vch \<noteq> [] \<Longrightarrow> magnitude vch < 2 ^ (8 * length vch - 1)"
proof -
  assume "vch \<noteq> []"
  then obtain ys b where v: "vch = ys @ [b]" by (meson rev_exhaust)
  have e: "(2::nat) ^ (8 * length vch - 1) = 256 ^ length ys * 128" using v by (simp add: power_add power_mult)
  have "magnitude vch < 256 ^ length ys + 256 ^ length ys * (unat b mod 128)"
    using le_val_bound [of ys] by (simp add: magnitude_def v le_val_append unat_and_7f)
  also have "\<dots> = 256 ^ length ys * (unat b mod 128 + 1)" by simp
  also have "\<dots> \<le> 256 ^ length ys * 128" using mod_less_divisor [of 128 "unat b"] by (intro mult_le_mono) auto
  finally show ?thesis unfolding e .
qed

lemma sint_of_nat_small: "n < 2 ^ 63 \<Longrightarrow> sint (of_nat n :: uint64) = int n"
  by (simp add: signed_of_nat signed_take_bit_int_eq_self)

lemma bit_80: "bit (0x80 :: uint64) i \<longleftrightarrow> i = 7"
proof -
  have "(0x80 :: uint64) = 2 ^ 7" by simp
  then show ?thesis by (simp only: bit_exp_iff) auto
qed

lemma clear_sign:
  assumes "length ys < 8"
  shows "set_vch_loop 0 (ys @ [b]) 0 AND NOT (push_bit (8 * length ys) 0x80) = set_vch_loop 0 (ys @ [b AND 0x7f]) 0"
proof (rule bit_eqI)
  fix i
  have l: "bit (set_vch_loop 0 ys 0) i \<longrightarrow> i < 8 * length ys"
    using bit_le_val [of ys i] by (simp add: set_vch_loop_le_val)
  show "bit (set_vch_loop 0 (ys @ [b]) 0 AND NOT (push_bit (8 * length ys) 0x80)) i =
      bit (set_vch_loop 0 (ys @ [b AND 0x7f]) 0) i"
    using l bit_80 [of "i - 8 * length ys"]
    by (auto simp: set_vch_loop_append and_7f bit_simps dest: bit_imp_le_length)
qed

lemma set_vch_sign_magnitude:
  assumes "length vch \<le> 8" and "vch \<noteq> []"
  shows "set_vch vch = (if last vch AND 0x80 \<noteq> 0 then - int (magnitude vch) else int (magnitude vch))"
proof -
  obtain ys b where v: "vch = ys @ [b]" using assms(2) by (meson rev_exhaust)
  have "8 * length vch - 1 \<le> 63" using assms(1) by simp
  then have "(2::nat) ^ (8 * length vch - 1) \<le> 2 ^ 63" by (rule power_increasing) simp
  then have m: "magnitude vch < 2 ^ 63" using magnitude_less [OF assms(2)] by linarith
  have mag: "magnitude vch = le_val (ys @ [b AND 0x7f])" by (simp add: magnitude_def v)
  show ?thesis
  proof (cases "b AND 0x80 \<noteq> 0")
    case True
    then have "set_vch vch = - sint (set_vch_loop 0 (ys @ [b AND 0x7f]) 0)"
      using clear_sign [of ys b] assms(1) by (simp add: set_vch_def v)
    then show ?thesis using True m mag by (simp add: set_vch_loop_le_val sint_of_nat_small v)
  next
    case False
    then have "b AND 0x7f = b" using and_80 [of b] by (simp add: word_unat_eq_iff unat_and_7f)
    then show ?thesis using False m mag by (simp add: set_vch_def v set_vch_loop_le_val sint_of_nat_small)
  qed
qed

text \<open>The encoder writes the magnitude without leading zeros and puts the sign beside it.\<close>

lemma abs_word:
  assumes "\<bar>v\<bar> < 2 ^ 63"
  shows "unat (if v < 0 then NOT (word_of_int v) + 1 else word_of_int v :: uint64) = nat \<bar>v\<bar>"
proof -
  have "(if v < 0 then NOT (word_of_int v) + 1 else word_of_int v :: uint64) = word_of_int \<bar>v\<bar>"
    by (simp add: not_eq_complement)
  also have "\<dots> = of_nat (nat \<bar>v\<bar>)" by (metis abs_ge_zero of_int_of_nat_eq of_nat_nat)
  finally have e: "(if v < 0 then NOT (word_of_int v) + 1 else word_of_int v :: uint64) = of_nat (nat \<bar>v\<bar>)" .
  have "nat \<bar>v\<bar> < 2 ^ LENGTH(64)" using assms by simp
  then show ?thesis unfolding e by (rule unat_of_nat_small)
qed

lemma or_80: "b AND 0x80 = 0 \<Longrightarrow> unat (b OR 0x80 :: uint8) = unat b + 128"
proof -
  assume "b AND 0x80 = 0"
  then have "b OR 0x80 = b + 0x80" "unat b < 128" using and_80 [of b] by (simp_all add: disjunctive_add_eq_or)
  then show ?thesis by (simp add: unat_add_small)
qed

lemma num_serialize_bytes:
  assumes "v \<noteq> 0" and "\<bar>v\<bar> < 2 ^ 63"
  obtains ys b where "num_serialize v = ys @ [b]" and "(b AND 0x80 \<noteq> 0) = (v < 0)"
    and "le_val (ys @ [b AND 0x7f]) = nat \<bar>v\<bar>" and "b AND 0x7f = 0 \<longrightarrow> ys \<noteq> [] \<and> last ys AND 0x80 \<noteq> 0"
proof -
  define a :: uint64 where "a = (if v < 0 then NOT (word_of_int v) + 1 else word_of_int v)"
  have u: "unat a = nat \<bar>v\<bar>" unfolding a_def by (rule abs_word [OF assms(2)])
  then have "a \<noteq> 0" using assms(1) by auto
  then obtain zs c where z: "abs_bytes a = zs @ [c]" "c \<noteq> 0"
    using last_abs_bytes [of a] by (metis append_butlast_last_id)
  have val: "le_val (zs @ [c]) = nat \<bar>v\<bar>" using le_val_abs_bytes [of a] u z by simp
  have e: "num_serialize v = (if c AND 0x80 \<noteq> 0 then zs @ [c] @ [if v < 0 then 0x80 else 0]
      else if v < 0 then zs @ [c OR 0x80] else zs @ [c])"
    using assms(1) z unfolding num_serialize_def a_def [symmetric] Let_def by simp
  have "(0x80 :: uint8) AND 0x80 \<noteq> 0" "(0x80 :: uint8) AND 0x7f = 0" by simp_all
  consider "c AND 0x80 \<noteq> 0" | "c AND 0x80 = 0" "v < 0" | "c AND 0x80 = 0" "\<not> v < 0" by blast
  then show ?thesis
  proof cases
    case 1
    then show ?thesis using e val that [of "zs @ [c]" "if v < 0 then 0x80 else 0"] by (auto simp: le_val_append)
  next
    case 2
    have lt: "unat c < 128" using 2 and_80 [of c] by simp
    then have "unat (c OR 0x80) = unat c + 128" using or_80 2 by simp
    then have "(c OR 0x80) AND 0x7f = c" "(c OR 0x80) AND 0x80 \<noteq> 0"
      using lt and_80 [of "c OR 0x80"] by (simp_all add: word_unat_eq_iff unat_and_7f)
    then show ?thesis using 2 e val z that [of zs "c OR 0x80"] by simp
  next
    case 3
    then have "c AND 0x7f = c" using and_80 [of c] by (simp add: word_unat_eq_iff unat_and_7f)
    then show ?thesis using 3 e val z that [of zs c] by simp
  qed
qed

lemma mod_128: "n < 256 \<Longrightarrow> n mod 128 = (if 128 \<le> n then n - 128 else n :: nat)"
  using le_mod_geq [of 128 n] by (cases "128 \<le> n") simp_all

lemma byte_split: "(b AND 0x80 \<noteq> 0) = (c AND 0x80 \<noteq> 0) \<Longrightarrow> b AND 0x7f = c AND 0x7f \<Longrightarrow> b = (c :: uint8)"
proof -
  assume 1: "(b AND 0x80 \<noteq> 0) = (c AND 0x80 \<noteq> 0)" and 2: "b AND 0x7f = c AND 0x7f"
  have "(128 \<le> unat b) = (128 \<le> unat c)" using 1 by (simp only: and_80)
  moreover have "unat b mod 128 = unat c mod 128" using 2 unat_and_7f [of b] unat_and_7f [of c] by simp
  moreover have "unat b < 256" "unat c < 256"
    using unsigned_less [of b, where ?'a = nat] unsigned_less [of c, where ?'a = nat] by simp_all
  ultimately have "unat b = unat c" using mod_128 [of "unat b"] mod_128 [of "unat c"] by (cases "128 \<le> unat b") simp_all
  then show ?thesis by (simp add: word_unat_eq_iff)
qed

definition minimal :: "uint8 list \<Rightarrow> uint8 \<Rightarrow> bool" where
  "minimal ys b \<longleftrightarrow> (b AND 0x7f = 0 \<longrightarrow> ys \<noteq> [] \<and> last ys AND 0x80 \<noteq> 0)"

lemma minimal_unique:
  assumes "minimal ys b" and "minimal zs c" and "(b AND 0x80 \<noteq> 0) = (c AND 0x80 \<noteq> 0)"
    and eq: "le_val (ys @ [b AND 0x7f]) = le_val (zs @ [c AND 0x7f])"
  shows "ys @ [b] = zs @ [c]"
proof -
  have top: "x AND 0x7f = 0 \<Longrightarrow> minimal xs x \<Longrightarrow> xs \<noteq> [] \<and> last xs \<noteq> 0 \<and> le_val (xs @ [x AND 0x7f]) = le_val xs"
    for xs x by (auto simp: minimal_def le_val_append)
  have no_sign: "(x AND 0x7f) AND 0x80 = 0" for x :: uint8
    using and_80 [of "x AND 0x7f"] by (auto simp: unat_and_7f)
  consider "b AND 0x7f \<noteq> 0" "c AND 0x7f \<noteq> 0" | "b AND 0x7f = 0" "c AND 0x7f = 0"
    | "b AND 0x7f = 0" "c AND 0x7f \<noteq> 0" | "b AND 0x7f \<noteq> 0" "c AND 0x7f = 0" by blast
  then show ?thesis
  proof cases
    case 1
    then have "ys @ [b AND 0x7f] = zs @ [c AND 0x7f]" by (intro le_val_inj [OF eq]) simp_all
    then show ?thesis using byte_split assms(3) by simp
  next
    case 2
    then have "ys = zs" using eq top assms(1,2) by (intro le_val_inj) simp_all
    then show ?thesis using 2 byte_split assms(3) by simp
  next
    case 3
    then have "ys = zs @ [c AND 0x7f]" using eq top [OF _ assms(1)] by (intro le_val_inj) simp_all
    then show ?thesis using 3 assms(1) no_sign by (simp add: minimal_def)
  next
    case 4
    then have "zs = ys @ [b AND 0x7f]" using eq top [OF _ assms(2)] by (intro le_val_inj) simp_all
    then show ?thesis using 4 assms(2) no_sign by (simp add: minimal_def)
  qed
qed

lemma minimal_magnitude: "minimal ys b \<Longrightarrow> 2 ^ (8 * length ys) \<le> 2 * le_val (ys @ [b AND 0x7f])"
proof (cases "b AND 0x7f = 0")
  case False
  then have "(256::nat) ^ length ys * 1 \<le> 256 ^ length ys * unat (b AND 0x7f)"
    by (intro mult_le_mono) (auto simp: Suc_le_eq unat_gt_0)
  then have "256 ^ length ys \<le> le_val (ys @ [b AND 0x7f])" 
    by (simp only: le_val_append le_val.simps mult_0_right mult_1_right add_0_right trans_le_add2)
  then show ?thesis by (simp add: power_mult)
next
  case True
  moreover assume "minimal ys b"
  ultimately obtain zs c where y: "ys = zs @ [c]" "128 \<le> unat c" using and_80 by (metis append_butlast_last_id minimal_def)
  then have "(256::nat) ^ length zs * 128 \<le> 256 ^ length zs * unat c" by (intro mult_le_mono) simp_all
  moreover have "(2::nat) ^ (8 * length ys) = 2 * (256 ^ length zs * 128)" using y by (simp add: power_add power_mult)
  moreover have "le_val (ys @ [b AND 0x7f]) = le_val zs + 256 ^ length zs * unat c"
    using True y by (simp add: le_val_append)
  ultimately show ?thesis by linarith
qed

lemma num_serialize_length:
  assumes "\<bar>v\<bar> < 2 ^ (8 * n - 1)" and "n \<le> 8"
  shows "length (num_serialize v) \<le> n"
proof (cases "v = 0")
  case False
  have "(2::int) ^ (8 * n - 1) \<le> 2 ^ 63" using assms(2) by (intro power_increasing) simp_all
  then have small: "\<bar>v\<bar> < 2 ^ 63" using assms(1) by linarith
  obtain ys b where n: "num_serialize v = ys @ [b]" and l: "le_val (ys @ [b AND 0x7f]) = nat \<bar>v\<bar>"
    and m: "minimal ys b"
    using num_serialize_bytes [OF False small] unfolding minimal_def by metis
  have "n \<noteq> 0" using assms(1) False by (cases n) auto
  have "2 ^ (8 * length ys) \<le> 2 * nat \<bar>v\<bar>" using minimal_magnitude [OF m] unfolding l .
  then have "int (2 ^ (8 * length ys)) \<le> int (2 * nat \<bar>v\<bar>)" by (simp only: of_nat_le_iff)
  then have "(2::int) ^ (8 * length ys) \<le> 2 * \<bar>v\<bar>" by simp
  also have "\<dots> < 2 * 2 ^ (8 * n - 1)" using assms(1) by simp
  also have "\<dots> = 2 ^ (8 * n)" using \<open>n \<noteq> 0\<close> by (metis One_nat_def Suc_pred mult_pos_pos not_gr_zero power_Suc zero_less_numeral)
  finally have "8 * length ys < 8 * n" by (simp add: power_less_imp_less_exp)
  then show ?thesis by (simp add: n)
qed (simp add: num_serialize_def)

lemma CScriptNum_minimal:
  "CScriptNum (ys @ [b]) True n = Some v \<longleftrightarrow> length ys < n \<and> minimal ys b \<and> v = set_vch (ys @ [b])"
proof -
  have "minimal ys b \<longleftrightarrow> \<not> (b AND 0x7f = 0 \<and> (ys = [] \<or> (ys @ [b]) ! (length ys - 1) AND 0x80 = 0))"
    by (cases ys rule: rev_cases) (simp_all add: minimal_def nth_append)
  moreover have "length (ys @ [b]) - 2 = length ys - 1" "length (ys @ [b]) \<le> 1 \<longleftrightarrow> ys = []" by simp_all
  ultimately show ?thesis unfolding CScriptNum_def by (simp only: last_snoc) auto
qed

lemma below_int64: "n \<le> 8 \<Longrightarrow> \<bar>v\<bar> < 2 ^ (8 * n - 1) \<Longrightarrow> \<bar>v :: int\<bar> < 2 ^ 63"
proof -
  assume "n \<le> 8" and v: "\<bar>v\<bar> < 2 ^ (8 * n - 1)"
  then have "(2 :: int) ^ (8 * n - 1) \<le> 2 ^ 63" by (intro power_increasing) simp_all
  then show ?thesis using v by linarith
qed

lemma set_vch_num_serialize:
  assumes "v \<noteq> 0" and "\<bar>v\<bar> < 2 ^ (8 * n - 1)" and "n \<le> 8"
  obtains ys b where "num_serialize v = ys @ [b]" and "minimal ys b" and "length ys < n" and "set_vch (ys @ [b]) = v"
proof -
  obtain ys b where s: "num_serialize v = ys @ [b]" "(b AND 0x80 \<noteq> 0) = (v < 0)" "le_val (ys @ [b AND 0x7f]) = nat \<bar>v\<bar>"
    and m: "minimal ys b"
    using num_serialize_bytes [OF assms(1) below_int64 [OF assms(3,2)]] unfolding minimal_def by metis
  have len: "length ys < n" using num_serialize_length [OF assms(2,3)] by (simp add: s(1))
  have "set_vch (ys @ [b]) = v"
    using set_vch_sign_magnitude [of "ys @ [b]"] len assms(3) s(2,3) by (simp add: magnitude_def)
  then show ?thesis using that s(1) m len by blast
qed

lemma num_serialize_set_vch:
  assumes "minimal ys b" and "length ys < n" and "n \<le> 8"
  shows "\<bar>set_vch (ys @ [b])\<bar> < 2 ^ (8 * n - 1) \<and> num_serialize (set_vch (ys @ [b])) = ys @ [b]"
proof -
  define v where "v = set_vch (ys @ [b])"
  define l where "l = le_val (ys @ [b AND 0x7f])"
  have val: "v = (if b AND 0x80 \<noteq> 0 then - int l else int l)"
    using set_vch_sign_magnitude [of "ys @ [b]"] assms(2,3) by (simp add: v_def l_def magnitude_def)
  have "0 < l" using minimal_magnitude [OF assms(1)] unfolding l_def [symmetric]
    by (metis gr0I mult_0_right not_le power_eq_0_iff zero_neq_numeral le_zero_eq)
  have "l < 2 ^ (8 * length (ys @ [b]) - 1)" using magnitude_less [of "ys @ [b]"] by (simp add: l_def magnitude_def)
  also have "\<dots> \<le> 2 ^ (8 * n - 1)" using assms(2) by (intro power_increasing) simp_all
  finally have "int l < int (2 ^ (8 * n - 1))" by (simp only: of_nat_less_iff)
  then have small: "\<bar>v\<bar> < 2 ^ (8 * n - 1)" unfolding val by simp
  have "v \<noteq> 0" using val \<open>0 < l\<close> by simp
  obtain zs c where s: "num_serialize v = zs @ [c]" "(c AND 0x80 \<noteq> 0) = (v < 0)" "le_val (zs @ [c AND 0x7f]) = nat \<bar>v\<bar>"
    and mc: "minimal zs c"
    using num_serialize_bytes [OF \<open>v \<noteq> 0\<close> below_int64 [OF assms(3) small]] unfolding minimal_def by metis
  have "nat \<bar>v\<bar> = l" "(v < 0) = (b AND 0x80 \<noteq> 0)" using val \<open>0 < l\<close> by simp_all
  then have "zs @ [c] = ys @ [b]" by (intro minimal_unique [OF mc assms(1)]) (use s in \<open>simp_all add: l_def\<close>)
  then show ?thesis using small s(1) by (simp add: v_def)
qed

section \<open>Properties\<close>

text \<open>C15: With minimal encoding required, the number reader accepts exactly the canonical bytes of the numbers
  that fit its size limit: \<open>CScriptNum(vch, true, n)\<close> returns \<open>v\<close> if and only if \<open>vch\<close> is
  \<open>serialize(v)\<close> and the absolute value of \<open>v\<close> is below \<open>2 ^ (8 n - 1)\<close>. So no number has two
  encodings, and encoding then decoding is the identity.\<close>

theorem CScriptNum_canonical:
  assumes n: "n \<le> 8"
  shows "CScriptNum vch True n = Some v \<longleftrightarrow> \<bar>v\<bar> < 2 ^ (8 * n - 1) \<and> vch = num_serialize v"
proof (cases vch rule: rev_cases)
  case Nil
  have "v = 0" if "\<bar>v\<bar> < 2 ^ (8 * n - 1)" "num_serialize v = []"
    using set_vch_num_serialize [OF _ that(1) n] that(2) by force
  then show ?thesis using Nil by (auto simp: CScriptNum_def set_vch_def num_serialize_def)
next
  case (snoc ys b)
  have "v \<noteq> 0" if "num_serialize v = ys @ [b]" using that by (auto simp: num_serialize_def)
  then show ?thesis
    unfolding snoc CScriptNum_minimal using num_serialize_set_vch [of ys b n] set_vch_num_serialize [of v n] n
    by (metis append1_eq_conv)
qed

theorem CScriptNum_canonical_witness:
  "CScriptNum [0xff, 0x80] True 4 = Some (- 255) \<and> CScriptNum [0x80] True 4 = None"
proof
  have "num_serialize (- 255) = [0xff, 0x80]" by code_simp
  then show "CScriptNum [0xff, 0x80] True 4 = Some (- 255)" using CScriptNum_canonical [of 4 "[0xff, 0x80]" "- 255"] by simp
qed (simp add: CScriptNum_def)

end
