(* ===== verification/Hash_Stream.thy ===== *)
theory Hash_Stream
  imports Sha256 Serialize
begin

unbundle bit_operations_syntax

text \<open>
  The streaming hash classes \<open>CRIPEMD160\<close> (\<^verbatim>\<open>src/src/crypto/ripemd160.cpp\<close>) and \<open>CSHA1\<close>
  (\<^verbatim>\<open>src/src/crypto/sha1.cpp\<close>), and the two-stage hashers \<open>CHash160\<close> and \<open>CHash256\<close>
  (\<^verbatim>\<open>src/src/hash.h\<close>). The two classes have the same \<open>Write\<close> and \<open>Finalize\<close> and differ in the
  compression function and the byte order, so both are instances of one class with these as
  arguments. The unrolled rounds rename their five registers instead of moving them; the model moves
  them.

  The locale \<open>block_hash\<close> proves once, for every compression function, that the buffer of partial
  blocks never loses, repeats or reorders a byte.
\<close>

section \<open>The streaming class\<close>

record 'r hash_ctx =
  hs_state :: 'r
  hs_buf :: "uint8 list"
  hs_bytes :: uint64

definition stream_new :: "'r \<Rightarrow> 'r hash_ctx" where
  "stream_new init = \<lparr>hs_state = init, hs_buf = replicate 64 0, hs_bytes = 0\<rparr>"

definition stream_fill :: "('r \<Rightarrow> uint8 list \<Rightarrow> 'r) \<Rightarrow> nat \<Rightarrow> 'r hash_ctx \<Rightarrow> uint8 list \<Rightarrow> 'r hash_ctx \<times> uint8 list" where
  "stream_fill tf bufsize ctx data =
     (let b = memcpy_at (hs_buf ctx) bufsize (take (64 - bufsize) data)
      in (ctx\<lparr>hs_buf := b, hs_bytes := hs_bytes ctx + of_nat (64 - bufsize), hs_state := tf (hs_state ctx) b\<rparr>,
          drop (64 - bufsize) data))"

function stream_blocks :: "('r \<Rightarrow> uint8 list \<Rightarrow> 'r) \<Rightarrow> 'r hash_ctx \<Rightarrow> uint8 list \<Rightarrow> 'r hash_ctx \<times> uint8 list" where
  "stream_blocks tf ctx data =
     (if length data \<ge> 64
      then stream_blocks tf (ctx\<lparr>hs_state := tf (hs_state ctx) (take 64 data), hs_bytes := hs_bytes ctx + 64\<rparr>) (drop 64 data)
      else (ctx, data))"
  by auto
termination by (relation "measure (\<lambda>(tf, ctx, data). length data)") auto

declare stream_blocks.simps [simp del]

definition stream_rest :: "nat \<Rightarrow> 'r hash_ctx \<Rightarrow> uint8 list \<Rightarrow> 'r hash_ctx" where
  "stream_rest bufsize ctx data =
     (if data \<noteq> []
      then ctx\<lparr>hs_buf := memcpy_at (hs_buf ctx) bufsize data, hs_bytes := hs_bytes ctx + of_nat (length data)\<rparr>
      else ctx)"

definition stream_Write :: "('r \<Rightarrow> uint8 list \<Rightarrow> 'r) \<Rightarrow> 'r hash_ctx \<Rightarrow> uint8 list \<Rightarrow> 'r hash_ctx" where
  "stream_Write tf ctx data =
     (let bufsize = unat (hs_bytes ctx mod 64);
          full = (bufsize \<noteq> 0 \<and> bufsize + length data \<ge> 64);
          (ctx1, data1) = (if full then stream_fill tf bufsize ctx data else (ctx, data));
          (ctx2, data2) = stream_blocks tf ctx1 data1
      in stream_rest (if full then 0 else bufsize) ctx2 data2)"

definition stream_Finalize ::
  "('r \<Rightarrow> uint8 list \<Rightarrow> 'r) \<Rightarrow> (uint64 \<Rightarrow> uint8 list) \<Rightarrow> ('r \<Rightarrow> uint8 list) \<Rightarrow> 'r hash_ctx \<Rightarrow> uint8 list" where
  "stream_Finalize tf write64 out ctx =
     (let sizedesc = write64 (push_bit 3 (hs_bytes ctx));
          ctx1 = stream_Write tf ctx (take (1 + (119 - unat (hs_bytes ctx mod 64)) mod 64) sha_pad);
          ctx2 = stream_Write tf ctx1 sizedesc
      in out (hs_state ctx2))"

section \<open>RIPEMD-160\<close>

type_synonym registers5 = "uint32 \<times> uint32 \<times> uint32 \<times> uint32 \<times> uint32"

definition initialize5 :: registers5 where
  "initialize5 = (0x67452301, 0xEFCDAB89, 0x98BADCFE, 0x10325476, 0xC3D2E1F0)"

definition ReadLE32 :: "uint8 list \<Rightarrow> uint32" where
  "ReadLE32 b = of_nat (le_val (take 4 b))"

definition WriteLE32 :: "uint32 \<Rightarrow> uint8 list" where
  "WriteLE32 x = le_bytes 4 (unat x)"

definition WriteLE64 :: "uint64 \<Rightarrow> uint8 list" where
  "WriteLE64 x = le_bytes 8 (unat x)"

definition rmd_f1 :: "uint32 \<Rightarrow> uint32 \<Rightarrow> uint32 \<Rightarrow> uint32" where "rmd_f1 x y z = x XOR y XOR z"
definition rmd_f2 :: "uint32 \<Rightarrow> uint32 \<Rightarrow> uint32 \<Rightarrow> uint32" where "rmd_f2 x y z = (x AND y) OR (NOT x AND z)"
definition rmd_f3 :: "uint32 \<Rightarrow> uint32 \<Rightarrow> uint32 \<Rightarrow> uint32" where "rmd_f3 x y z = (x OR NOT y) XOR z"
definition rmd_f4 :: "uint32 \<Rightarrow> uint32 \<Rightarrow> uint32 \<Rightarrow> uint32" where "rmd_f4 x y z = (x AND z) OR (y AND NOT z)"
definition rmd_f5 :: "uint32 \<Rightarrow> uint32 \<Rightarrow> uint32 \<Rightarrow> uint32" where "rmd_f5 x y z = x XOR (y OR NOT z)"

definition rol :: "uint32 \<Rightarrow> nat \<Rightarrow> uint32" where
  "rol x i = push_bit i x OR drop_bit (32 - i) x"

text \<open>One round; the next one sees the registers moved by one place.\<close>

definition rmd_Round ::
  "(uint32 \<Rightarrow> uint32 \<Rightarrow> uint32 \<Rightarrow> uint32) \<Rightarrow> uint32 \<Rightarrow> uint32 list \<Rightarrow> nat \<times> nat \<Rightarrow> registers5 \<Rightarrow> registers5" where
  "rmd_Round f k w i regs = (case (i, regs) of ((x, r), (a, b, c, d, e)) \<Rightarrow>
     (e, rol (a + f b c d + w ! x + k) r + e, b, rol c 10, d))"

definition rmd_phase ::
  "(uint32 \<Rightarrow> uint32 \<Rightarrow> uint32 \<Rightarrow> uint32) \<Rightarrow> uint32 \<Rightarrow> (nat \<times> nat) list \<Rightarrow> uint32 list \<Rightarrow> registers5 \<Rightarrow> registers5" where
  "rmd_phase f k schedule w regs = fold (rmd_Round f k w) schedule regs"

text \<open>The five phases of the two lines: the message word and the rotation of each of the sixteen rounds.\<close>

definition R11 :: "uint32 list \<Rightarrow> registers5 \<Rightarrow> registers5" where
  "R11 = rmd_phase rmd_f1 0
    [(0, 11), (1, 14), (2, 15), (3, 12), (4, 5), (5, 8), (6, 7), (7, 9),
     (8, 11), (9, 13), (10, 14), (11, 15), (12, 6), (13, 7), (14, 9), (15, 8)]"

definition R21 :: "uint32 list \<Rightarrow> registers5 \<Rightarrow> registers5" where
  "R21 = rmd_phase rmd_f2 0x5A827999
    [(7, 7), (4, 6), (13, 8), (1, 13), (10, 11), (6, 9), (15, 7), (3, 15),
     (12, 7), (0, 12), (9, 15), (5, 9), (2, 11), (14, 7), (11, 13), (8, 12)]"

definition R31 :: "uint32 list \<Rightarrow> registers5 \<Rightarrow> registers5" where
  "R31 = rmd_phase rmd_f3 0x6ED9EBA1
    [(3, 11), (10, 13), (14, 6), (4, 7), (9, 14), (15, 9), (8, 13), (1, 15),
     (2, 14), (7, 8), (0, 13), (6, 6), (13, 5), (11, 12), (5, 7), (12, 5)]"

definition R41 :: "uint32 list \<Rightarrow> registers5 \<Rightarrow> registers5" where
  "R41 = rmd_phase rmd_f4 0x8F1BBCDC
    [(1, 11), (9, 12), (11, 14), (10, 15), (0, 14), (8, 15), (12, 9), (4, 8),
     (13, 9), (3, 14), (7, 5), (15, 6), (14, 8), (5, 6), (6, 5), (2, 12)]"

definition R51 :: "uint32 list \<Rightarrow> registers5 \<Rightarrow> registers5" where
  "R51 = rmd_phase rmd_f5 0xA953FD4E
    [(4, 9), (0, 15), (5, 5), (9, 11), (7, 6), (12, 8), (2, 13), (10, 12),
     (14, 5), (1, 12), (3, 13), (8, 14), (11, 11), (6, 8), (15, 5), (13, 6)]"

definition R12 :: "uint32 list \<Rightarrow> registers5 \<Rightarrow> registers5" where
  "R12 = rmd_phase rmd_f5 0x50A28BE6
    [(5, 8), (14, 9), (7, 9), (0, 11), (9, 13), (2, 15), (11, 15), (4, 5),
     (13, 7), (6, 7), (15, 8), (8, 11), (1, 14), (10, 14), (3, 12), (12, 6)]"

definition R22 :: "uint32 list \<Rightarrow> registers5 \<Rightarrow> registers5" where
  "R22 = rmd_phase rmd_f4 0x5C4DD124
    [(6, 9), (11, 13), (3, 15), (7, 7), (0, 12), (13, 8), (5, 9), (10, 11),
     (14, 7), (15, 7), (8, 12), (12, 7), (4, 6), (9, 15), (1, 13), (2, 11)]"

definition R32 :: "uint32 list \<Rightarrow> registers5 \<Rightarrow> registers5" where
  "R32 = rmd_phase rmd_f3 0x6D703EF3
    [(15, 9), (5, 7), (1, 15), (3, 11), (7, 8), (14, 6), (6, 6), (9, 14),
     (11, 12), (8, 13), (12, 5), (2, 14), (10, 13), (0, 13), (4, 7), (13, 5)]"

definition R42 :: "uint32 list \<Rightarrow> registers5 \<Rightarrow> registers5" where
  "R42 = rmd_phase rmd_f2 0x7A6D76E9
    [(8, 15), (6, 5), (4, 8), (1, 11), (3, 14), (11, 14), (15, 6), (0, 14),
     (5, 6), (12, 9), (2, 12), (13, 9), (9, 12), (7, 5), (10, 15), (14, 8)]"

definition R52 :: "uint32 list \<Rightarrow> registers5 \<Rightarrow> registers5" where
  "R52 = rmd_phase rmd_f1 0
    [(12, 8), (15, 5), (10, 12), (4, 9), (1, 12), (5, 5), (8, 14), (7, 6),
     (6, 8), (2, 13), (13, 6), (14, 5), (0, 15), (3, 13), (9, 11), (11, 11)]"

definition ripemd160_Transform :: "registers5 \<Rightarrow> uint8 list \<Rightarrow> registers5" where
  "ripemd160_Transform st chunk =
     (let w = map (\<lambda>i. ReadLE32 (drop (4 * i) chunk)) [0..<16] in
      case (st, R51 w (R41 w (R31 w (R21 w (R11 w st)))), R52 w (R42 w (R32 w (R22 w (R12 w st))))) of
        ((s0, s1, s2, s3, s4), (a1, b1, c1, d1, e1), (a2, b2, c2, d2, e2)) \<Rightarrow>
          (s1 + c1 + d2, s2 + d1 + e2, s3 + e1 + a2, s4 + a1 + b2, s0 + b1 + c2))"

definition ripemd160_output :: "registers5 \<Rightarrow> uint8 list" where
  "ripemd160_output regs = (case regs of (a, b, c, d, e) \<Rightarrow>
     WriteLE32 a @ WriteLE32 b @ WriteLE32 c @ WriteLE32 d @ WriteLE32 e)"

definition CRIPEMD160 :: "registers5 hash_ctx" where
  "CRIPEMD160 = stream_new initialize5"

definition CRIPEMD160_Write :: "registers5 hash_ctx \<Rightarrow> uint8 list \<Rightarrow> registers5 hash_ctx" where
  "CRIPEMD160_Write = stream_Write ripemd160_Transform"

definition CRIPEMD160_Finalize :: "registers5 hash_ctx \<Rightarrow> uint8 list" where
  "CRIPEMD160_Finalize = stream_Finalize ripemd160_Transform WriteLE64 ripemd160_output"

section \<open>SHA-1\<close>

definition sha1_f1 :: "uint32 \<Rightarrow> uint32 \<Rightarrow> uint32 \<Rightarrow> uint32" where "sha1_f1 b c d = d XOR (b AND (c XOR d))"
definition sha1_f2 :: "uint32 \<Rightarrow> uint32 \<Rightarrow> uint32 \<Rightarrow> uint32" where "sha1_f2 b c d = b XOR c XOR d"
definition sha1_f3 :: "uint32 \<Rightarrow> uint32 \<Rightarrow> uint32 \<Rightarrow> uint32" where "sha1_f3 b c d = (b AND c) OR (d AND (b OR c))"

definition sha1_left :: "uint32 \<Rightarrow> uint32" where
  "sha1_left x = push_bit 1 x OR drop_bit 31 x"

definition sha1_Round :: "(uint32 \<Rightarrow> uint32 \<Rightarrow> uint32 \<Rightarrow> uint32) \<Rightarrow> uint32 \<Rightarrow> uint32 \<Rightarrow> registers5 \<Rightarrow> registers5" where
  "sha1_Round f k w regs = (case regs of (a, b, c, d, e) \<Rightarrow>
     (e + ((push_bit 5 a OR drop_bit 27 a) + f b c d + k + w), a, push_bit 30 b OR drop_bit 2 b, c, d))"

text \<open>The message words form a window of sixteen whose head is the word of the current round.\<close>

definition sha1_next_word :: "uint32 list \<Rightarrow> uint32" where
  "sha1_next_word w = sha1_left (w ! 0 XOR w ! 13 XOR w ! 8 XOR w ! 2)"

definition sha1_step ::
  "(uint32 \<Rightarrow> uint32 \<Rightarrow> uint32 \<Rightarrow> uint32) \<Rightarrow> uint32 \<Rightarrow> uint32 list \<times> registers5 \<Rightarrow> uint32 list \<times> registers5" where
  "sha1_step f k st = (case st of (w, regs) \<Rightarrow> (tl w @ [sha1_next_word w], sha1_Round f k (hd w) regs))"

definition sha1_rounds ::
  "(uint32 \<Rightarrow> uint32 \<Rightarrow> uint32 \<Rightarrow> uint32) \<Rightarrow> uint32 \<Rightarrow> uint32 list \<times> registers5 \<Rightarrow> uint32 list \<times> registers5" where
  "sha1_rounds f k st = (sha1_step f k ^^ 20) st"

definition sha1_Transform :: "registers5 \<Rightarrow> uint8 list \<Rightarrow> registers5" where
  "sha1_Transform st chunk =
     (let st1 = sha1_rounds sha1_f1 0x5A827999 (message_words chunk, st);
          st2 = sha1_rounds sha1_f2 0x6ED9EBA1 st1;
          st3 = sha1_rounds sha1_f3 0x8F1BBCDC st2;
          (w, regs) = sha1_rounds sha1_f2 0xCA62C1D6 st3
      in case (st, regs) of ((s0, s1, s2, s3, s4), (a, b, c, d, e)) \<Rightarrow> (s0 + a, s1 + b, s2 + c, s3 + d, s4 + e))"

definition sha1_output :: "registers5 \<Rightarrow> uint8 list" where
  "sha1_output regs = (case regs of (a, b, c, d, e) \<Rightarrow>
     WriteBE32 a @ WriteBE32 b @ WriteBE32 c @ WriteBE32 d @ WriteBE32 e)"

definition CSHA1 :: "registers5 hash_ctx" where
  "CSHA1 = stream_new initialize5"

definition CSHA1_Write :: "registers5 hash_ctx \<Rightarrow> uint8 list \<Rightarrow> registers5 hash_ctx" where
  "CSHA1_Write = stream_Write sha1_Transform"

definition CSHA1_Finalize :: "registers5 hash_ctx \<Rightarrow> uint8 list" where
  "CSHA1_Finalize = stream_Finalize sha1_Transform WriteBE64 sha1_output"

section \<open>The two-stage hashers\<close>

text \<open>Both hold one \<open>CSHA256\<close> and write into it.\<close>

definition CHash160_Finalize :: "CSHA256 \<Rightarrow> uint8 list" where
  "CHash160_Finalize sha = CRIPEMD160_Finalize (CRIPEMD160_Write CRIPEMD160 (snd (Finalize sha)))"

definition CHash256_Finalize :: "CSHA256 \<Rightarrow> uint8 list" where
  "CHash256_Finalize sha =
     (let (sha1, buf1) = Finalize sha in snd (Finalize (Write (Reset sha1) buf1)))"

section \<open>The class hashes what was written\<close>

function absorb :: "('r \<Rightarrow> uint8 list \<Rightarrow> 'r) \<Rightarrow> 'r \<Rightarrow> uint8 list \<Rightarrow> 'r" where
  "absorb tf st m = (if length m \<ge> 64 then absorb tf (tf st (take 64 m)) (drop 64 m) else st)"
  by auto
termination by (relation "measure (\<lambda>(tf, st, m). length m)") auto

declare absorb.simps [simp del]

lemma absorb_append: "64 dvd length x \<Longrightarrow> absorb tf st (x @ y) = absorb tf (absorb tf st x) y"
proof (induction tf st x rule: absorb.induct)
  case (1 tf st x)
  show ?case
  proof (cases "length x \<ge> 64")
    case True
    then have "absorb tf st (x @ y) = absorb tf (tf st (take 64 x)) (drop 64 x @ y)" by (subst absorb.simps) simp
    also have "\<dots> = absorb tf (absorb tf (tf st (take 64 x)) (drop 64 x)) y"
      using 1 True by (simp add: dvd_diff_nat)
    also have "absorb tf (tf st (take 64 x)) (drop 64 x) = absorb tf st x"
      using True by (simp add: absorb.simps [of tf st x])
    finally show ?thesis .
  next
    case False
    then have "x = []" using 1(2) by (auto dest: dvd_imp_le)
    then show ?thesis by (simp add: absorb.simps [of tf st "[]"])
  qed
qed

text \<open>The message as both classes pad it.\<close>

definition stream_padded :: "(uint64 \<Rightarrow> uint8 list) \<Rightarrow> uint8 list \<Rightarrow> uint8 list" where
  "stream_padded write64 m =
     m @ 0x80 # replicate ((119 - length m mod 64) mod 64) 0 @ write64 (of_nat (8 * length m))"

locale block_hash =
  fixes tf :: "'r \<Rightarrow> uint8 list \<Rightarrow> 'r" and init :: 'r and write64 :: "uint64 \<Rightarrow> uint8 list"
    and out :: "'r \<Rightarrow> uint8 list" and size :: nat
  assumes length_write64: "length (write64 x) = 8"
    and length_output: "length (out st) = size"
begin

definition received :: "'r hash_ctx \<Rightarrow> uint8 list \<Rightarrow> uint8 list \<Rightarrow> bool" where
  "received ctx x r \<longleftrightarrow> 64 dvd length x \<and> length r < 64 \<and> length (hs_buf ctx) = 64 \<and>
     hs_bytes ctx = of_nat (length x + length r) \<and> hs_state ctx = absorb tf init x \<and> take (length r) (hs_buf ctx) = r"

lemma received_new: "received (stream_new init) [] []"
  by (simp add: received_def stream_new_def absorb.simps)

lemma received_bufsize: "received ctx x r \<Longrightarrow> unat (hs_bytes ctx mod 64) = length r"
  by (auto simp: received_def unat_of_nat_mod_64 simp del: of_nat_add)

lemma received_block:
  "received ctx x r \<Longrightarrow> length (r @ y) = 64 \<Longrightarrow> absorb tf init (x @ r @ y) = tf (hs_state ctx) (r @ y)"
proof -
  assume "received ctx x r" and l: "length (r @ y) = 64"
  then have "absorb tf init (x @ r @ y) = absorb tf (hs_state ctx) (r @ y)" by (simp add: received_def absorb_append)
  also have "\<dots> = tf (hs_state ctx) (r @ y)" using l by (subst absorb.simps) (simp add: absorb.simps)
  finally show ?thesis .
qed

lemma received_fill:
  assumes "received ctx x r" and "length r + length data \<ge> 64"
  shows "\<exists>ctx1. stream_fill tf (length r) ctx data = (ctx1, drop (64 - length r) data) \<and>
    received ctx1 (x @ r @ take (64 - length r) data) []"
proof -
  let ?y = "take (64 - length r) data"
  have l: "length (r @ ?y) = 64" using assms by (simp add: received_def)
  have b: "memcpy_at (hs_buf ctx) (length r) ?y = r @ ?y" using assms l by (simp add: memcpy_at_def received_def)
  have "length (x @ r @ ?y) = length x + 64" using l by simp
  then have "64 dvd length (x @ r @ ?y)" using assms(1) by (simp only: received_def dvd_add_triv_right_iff)
  moreover have "hs_bytes ctx + of_nat (64 - length r) = of_nat (length (x @ r @ ?y))"
    using assms l by (simp add: received_def of_nat_diff)
  ultimately show ?thesis
    using received_block [OF assms(1) l] assms(1) l b by (simp add: stream_fill_def Let_def received_def)
qed

lemma received_blocks:
  "received ctx x [] \<Longrightarrow> \<exists>ctx2 y d. stream_blocks tf ctx data = (ctx2, d) \<and> data = y @ d \<and> length d < 64 \<and> received ctx2 (x @ y) []"
proof (induction "length data" arbitrary: ctx x data rule: less_induct)
  case less
  show ?case
  proof (cases "length data \<ge> 64")
    case True
    let ?c = "ctx\<lparr>hs_state := tf (hs_state ctx) (take 64 data), hs_bytes := hs_bytes ctx + 64\<rparr>"
    have rc: "received ?c (x @ take 64 data) []"
      using received_block [OF less(2), of "take 64 data"] less(2) True by (simp add: received_def)
    have "length (drop 64 data) < length data" using True by simp
    then obtain ctx2 y d where i: "stream_blocks tf ?c (drop 64 data) = (ctx2, d)" "drop 64 data = y @ d" "length d < 64"
      "received ctx2 ((x @ take 64 data) @ y) []" using less(1) [OF _ rc] by blast
    have s: "stream_blocks tf ctx data = (ctx2, d)" using i(1) True by (simp add: stream_blocks.simps [of tf ctx data])
    have "data = (take 64 data @ y) @ d" using i(2) append_take_drop_id [of 64 data] by simp
    then show ?thesis using s i(3,4) by (metis append_assoc)
  next
    case False
    then have "stream_blocks tf ctx data = (ctx, data)" by (simp add: stream_blocks.simps [of tf ctx data])
    then show ?thesis using less(2) False by (metis append_Nil append_Nil2 not_le)
  qed
qed

lemma received_rest:
  "received ctx x r \<Longrightarrow> length r + length d < 64 \<Longrightarrow> received (stream_rest (length r) ctx d) x (r @ d)"
  by (auto simp: received_def stream_rest_def memcpy_at_def add.assoc)

lemma received_Write:
  assumes w: "received ctx x r"
  obtains x' r' where "x' @ r' = x @ r @ data" and "received (stream_Write tf ctx data) x' r'"
proof (cases "r \<noteq> [] \<and> length r + length data \<ge> 64")
  case True
  obtain ctx1 where 1: "stream_fill tf (length r) ctx data = (ctx1, drop (64 - length r) data)"
    "received ctx1 (x @ r @ take (64 - length r) data) []" using received_fill [OF w] True by blast
  obtain ctx2 y d where 2: "stream_blocks tf ctx1 (drop (64 - length r) data) = (ctx2, d)"
    "drop (64 - length r) data = y @ d" "length d < 64"
    "received ctx2 ((x @ r @ take (64 - length r) data) @ y) []" using received_blocks [OF 1(2)] by blast
  have "((x @ r @ take (64 - length r) data) @ y) @ d = x @ r @ data"
    using 2(2) append_take_drop_id [of "64 - length r" data] by simp
  moreover have "stream_Write tf ctx data = stream_rest 0 ctx2 d"
    using True 1(1) 2(1) by (simp add: stream_Write_def received_bufsize [OF w] Let_def)
  ultimately show ?thesis
    using that [of "(x @ r @ take (64 - length r) data) @ y" d] received_rest [OF 2(4), of d] 2(3) by simp
next
  case False
  show ?thesis
  proof (cases "r = []")
    case True
    obtain ctx2 y d where 2: "stream_blocks tf ctx data = (ctx2, d)" "data = y @ d" "length d < 64"
      "received ctx2 (x @ y) []" using received_blocks [of ctx x data] w True by blast
    then show ?thesis using that [of "x @ y" d] received_rest [OF 2(4), of d] True received_bufsize [OF w]
      by (simp add: stream_Write_def Let_def)
  next
    case r: False
    then have "stream_blocks tf ctx data = (ctx, data)" using False by (subst stream_blocks.simps) simp
    then show ?thesis using that [of x "r @ data"] received_rest [OF w, of data] r False received_bufsize [OF w]
      by (simp add: stream_Write_def Let_def)
  qed
qed

lemma received_foldl:
  "received ctx x r \<Longrightarrow> \<exists>x' r'. x' @ r' = x @ r @ concat chunks \<and> received (foldl (stream_Write tf) ctx chunks) x' r'"
proof (induction chunks arbitrary: ctx x r)
  case (Cons c cs)
  obtain x' r' where 1: "x' @ r' = x @ r @ c" "received (stream_Write tf ctx c) x' r'" by (rule received_Write [OF Cons(2)])
  obtain x'' r'' where 2: "x'' @ r'' = x' @ r' @ concat cs" "received (foldl (stream_Write tf) (stream_Write tf ctx c) cs) x'' r''"
    using Cons(1) [OF 1(2)] by blast
  have "x'' @ r'' = x @ r @ concat (c # cs)" unfolding 2(1) append_assoc [symmetric] 1(1) by simp
  then show ?case using 2(2) by auto
qed auto

lemma length_stream_padded: "length (stream_padded write64 m) mod 64 = 0"
  using length_padded [of m] by (simp add: stream_padded_def padded_def length_write64 length_WriteBE64)

lemma Finalize_absorb:
  assumes w: "received ctx x r"
  shows "stream_Finalize tf write64 out ctx = out (absorb tf init (stream_padded write64 (x @ r)))"
proof -
  let ?m = "x @ r"
  let ?z = "(119 - length ?m mod 64) mod 64"
  have b: "unat (hs_bytes ctx mod 64) = length ?m mod 64" using w received_bufsize [OF w] by (auto simp: received_def)
  have "?z < 64" by simp
  then have pad: "take (1 + ?z) sha_pad = 0x80 # replicate ?z 0" by (simp add: sha_pad_def)
  have size: "push_bit 3 (hs_bytes ctx) = of_nat (8 * length ?m)"
    using w push_bit_3_of_nat [of "length ?m"] by (simp add: received_def)
  obtain x1 r1 where 1: "x1 @ r1 = x @ r @ (0x80 # replicate ?z 0)" "received (stream_Write tf ctx (0x80 # replicate ?z 0)) x1 r1"
    by (rule received_Write [OF w])
  let ?ctx2 = "stream_Write tf (stream_Write tf ctx (0x80 # replicate ?z 0)) (write64 (of_nat (8 * length ?m)))"
  obtain x2 r2 where 2: "x2 @ r2 = x1 @ r1 @ write64 (of_nat (8 * length ?m))" "received ?ctx2 x2 r2"
    by (rule received_Write [OF 1(2)])
  have m: "x2 @ r2 = stream_padded write64 ?m" using 1(1) 2(1) by (simp add: stream_padded_def flip: append_assoc)
  have "(length x2 + length r2) mod 64 = 0" using length_stream_padded [of ?m] m by (metis length_append)
  then have "64 dvd length r2" using 2(2) dvd_add_right_iff [of 64 "length x2" "length r2"] by (simp add: received_def mod_eq_0_iff_dvd)
  then have "r2 = []" using 2(2) unfolding received_def by (metis dvd_imp_le length_0_conv not_gr_zero not_le)
  then show ?thesis
    using 2(2) m unfolding stream_Finalize_def Let_def b pad size by (simp add: received_def)
qed

theorem stream_hash:
  "stream_Finalize tf write64 out (foldl (stream_Write tf) (stream_new init) chunks) =
     out (absorb tf init (stream_padded write64 (concat chunks)))"
proof -
  obtain x r where "x @ r = concat chunks" "received (foldl (stream_Write tf) (stream_new init) chunks) x r"
    using received_foldl [OF received_new, of chunks] by auto
  then show ?thesis using Finalize_absorb by simp
qed

end

lemma length_WriteLE [simp]: "length (WriteLE32 x) = 4" "length (WriteLE64 y) = 8"
  by (simp_all add: WriteLE32_def WriteLE64_def)

interpretation rmd: block_hash ripemd160_Transform initialize5 WriteLE64 ripemd160_output 20
  by unfold_locales (simp_all add: ripemd160_output_def split: prod.splits)

interpretation sha1: block_hash sha1_Transform initialize5 WriteBE64 sha1_output 20
  by unfold_locales (simp_all add: sha1_output_def length_WriteBE64 WriteBE32_def split: prod.splits)

definition ripemd160_digest :: "uint8 list \<Rightarrow> uint8 list" where
  "ripemd160_digest m = ripemd160_output (absorb ripemd160_Transform initialize5 (stream_padded WriteLE64 m))"

definition sha1_digest :: "uint8 list \<Rightarrow> uint8 list" where
  "sha1_digest m = sha1_output (absorb sha1_Transform initialize5 (stream_padded WriteBE64 m))"

lemma length_digests [simp]: "length (ripemd160_digest m) = 20" "length (sha1_digest m) = 20"
  by (simp_all add: ripemd160_digest_def sha1_digest_def rmd.length_output sha1.length_output)

lemma CRIPEMD160_digest: "CRIPEMD160_Finalize (foldl CRIPEMD160_Write CRIPEMD160 chunks) = ripemd160_digest (concat chunks)"
  unfolding CRIPEMD160_Finalize_def CRIPEMD160_Write_def CRIPEMD160_def ripemd160_digest_def by (rule rmd.stream_hash)

lemma CSHA1_digest: "CSHA1_Finalize (foldl CSHA1_Write CSHA1 chunks) = sha1_digest (concat chunks)"
  unfolding CSHA1_Finalize_def CSHA1_Write_def CSHA1_def sha1_digest_def by (rule sha1.stream_hash)

definition hash160 :: "uint8 list \<Rightarrow> uint8 list" where
  "hash160 m = ripemd160_digest (sha256_digest m)"

lemma length_hash160 [simp]: "length (hash160 m) = 20"
  by (simp add: hash160_def)

lemma CHash160_digest: "CHash160_Finalize (foldl Write CSHA256_new chunks) = hash160 (concat chunks)"
proof -
  have "snd (Finalize (foldl Write CSHA256_new chunks)) = sha256_digest (concat chunks)"
    using Finalize_digest(1) [OF written_foldl [OF written_new]] by simp
  then show ?thesis using CRIPEMD160_digest [of "[sha256_digest (concat chunks)]"] by (simp add: CHash160_Finalize_def hash160_def)
qed

lemma CHash256_digest: "CHash256_Finalize (foldl Write CSHA256_new chunks) = sha256_digest (sha256_digest (concat chunks))"
  using HashWriter_digest [OF written_foldl [OF written_new]]
  by (simp add: HashWriter_GetHash_def CHash256_Finalize_def)

end
