(* ===== verification/Script_Interpreter.thy ===== *)
theory Script_Interpreter
  imports Script Hash_Stream
begin

unbundle bit_operations_syntax

text \<open>
  The stack machine (\<^verbatim>\<open>src/src/script/interpreter.cpp\<close>, \<open>EvalScript\<close> and what it calls).

  The stacks are lists with the top first, so \<open>stacktop(-i)\<close> is element \<open>i - 1\<close>. A script fails with
  a \<open>ScriptError\<close>; an exception that the interpreter catches is \<open>SCRIPT_ERR_UNKNOWN_ERROR\<close>, and an
  assertion that does not hold is \<open>Aborts\<close>. The signature checker is the record of its virtual
  methods (\<open>BaseSignatureChecker\<close>), every script being run with an arbitrary one; the two functions
  that end in libsecp256k1, \<open>CPubKey::CheckLowS\<close> and \<open>XOnlyPubKey::CheckTapTweak\<close>, are the record
  \<open>secp\<close>.
\<close>

section \<open>Errors and flags\<close>

datatype ScriptError =
  SCRIPT_ERR_OK | SCRIPT_ERR_UNKNOWN_ERROR | SCRIPT_ERR_EVAL_FALSE | SCRIPT_ERR_OP_RETURN
  | SCRIPT_ERR_SCRIPT_SIZE | SCRIPT_ERR_PUSH_SIZE | SCRIPT_ERR_OP_COUNT | SCRIPT_ERR_STACK_SIZE
  | SCRIPT_ERR_SIG_COUNT | SCRIPT_ERR_PUBKEY_COUNT | SCRIPT_ERR_VERIFY | SCRIPT_ERR_EQUALVERIFY
  | SCRIPT_ERR_CHECKMULTISIGVERIFY | SCRIPT_ERR_CHECKSIGVERIFY | SCRIPT_ERR_NUMEQUALVERIFY
  | SCRIPT_ERR_BAD_OPCODE | SCRIPT_ERR_DISABLED_OPCODE | SCRIPT_ERR_INVALID_STACK_OPERATION
  | SCRIPT_ERR_INVALID_ALTSTACK_OPERATION | SCRIPT_ERR_UNBALANCED_CONDITIONAL | SCRIPT_ERR_NEGATIVE_LOCKTIME
  | SCRIPT_ERR_UNSATISFIED_LOCKTIME | SCRIPT_ERR_SIG_HASHTYPE | SCRIPT_ERR_SIG_DER | SCRIPT_ERR_MINIMALDATA
  | SCRIPT_ERR_SIG_PUSHONLY | SCRIPT_ERR_SIG_HIGH_S | SCRIPT_ERR_SIG_NULLDUMMY | SCRIPT_ERR_PUBKEYTYPE
  | SCRIPT_ERR_CLEANSTACK | SCRIPT_ERR_MINIMALIF | SCRIPT_ERR_SIG_NULLFAIL
  | SCRIPT_ERR_DISCOURAGE_UPGRADABLE_NOPS | SCRIPT_ERR_DISCOURAGE_UPGRADABLE_WITNESS_PROGRAM
  | SCRIPT_ERR_DISCOURAGE_UPGRADABLE_TAPROOT_VERSION | SCRIPT_ERR_DISCOURAGE_OP_SUCCESS
  | SCRIPT_ERR_DISCOURAGE_UPGRADABLE_PUBKEYTYPE | SCRIPT_ERR_WITNESS_PROGRAM_WRONG_LENGTH
  | SCRIPT_ERR_WITNESS_PROGRAM_WITNESS_EMPTY | SCRIPT_ERR_WITNESS_PROGRAM_MISMATCH
  | SCRIPT_ERR_WITNESS_MALLEATED | SCRIPT_ERR_WITNESS_MALLEATED_P2SH | SCRIPT_ERR_WITNESS_UNEXPECTED
  | SCRIPT_ERR_WITNESS_PUBKEYTYPE | SCRIPT_ERR_SCHNORR_SIG_SIZE | SCRIPT_ERR_SCHNORR_SIG_HASHTYPE
  | SCRIPT_ERR_SCHNORR_SIG | SCRIPT_ERR_TAPROOT_WRONG_CONTROL_SIZE | SCRIPT_ERR_TAPSCRIPT_VALIDATION_WEIGHT
  | SCRIPT_ERR_TAPSCRIPT_CHECKMULTISIG | SCRIPT_ERR_TAPSCRIPT_MINIMALIF | SCRIPT_ERR_PQC_SIG_SIZE
  | SCRIPT_ERR_PQC_SIG | SCRIPT_ERR_OP_CODESEPARATOR | SCRIPT_ERR_SIG_FINDANDDELETE
  | SCRIPT_ERR_PQC_VERIFY_FAILED | SCRIPT_ERR_PQC_WITNESS_MALFORMED | SCRIPT_ERR_PQC_ALGO_UNSUPPORTED
  | SCRIPT_ERR_PQC_KEY_SIZE_MISMATCH

datatype script_failure = Fails ScriptError | Aborts

type_synonym 'a script_result = "script_failure + 'a"

definition bind_script :: "'a script_result \<Rightarrow> ('a \<Rightarrow> 'b script_result) \<Rightarrow> 'b script_result" where
  "bind_script r f = (case r of Inl e \<Rightarrow> Inl e | Inr x \<Rightarrow> f x)"

abbreviation (input) fails :: "ScriptError \<Rightarrow> 'a script_result" where
  "fails e \<equiv> Inl (Fails e)"

definition asserted :: "'a option \<Rightarrow> 'a script_result" where
  "asserted x = (case x of None \<Rightarrow> Inl Aborts | Some y \<Rightarrow> Inr y)"

abbreviation (input) SCRIPT_VERIFY_P2SH :: uint32 where "SCRIPT_VERIFY_P2SH \<equiv> 0x1"
abbreviation (input) SCRIPT_VERIFY_STRICTENC :: uint32 where "SCRIPT_VERIFY_STRICTENC \<equiv> 0x2"
abbreviation (input) SCRIPT_VERIFY_DERSIG :: uint32 where "SCRIPT_VERIFY_DERSIG \<equiv> 0x4"
abbreviation (input) SCRIPT_VERIFY_LOW_S :: uint32 where "SCRIPT_VERIFY_LOW_S \<equiv> 0x8"
abbreviation (input) SCRIPT_VERIFY_NULLDUMMY :: uint32 where "SCRIPT_VERIFY_NULLDUMMY \<equiv> 0x10"
abbreviation (input) SCRIPT_VERIFY_SIGPUSHONLY :: uint32 where "SCRIPT_VERIFY_SIGPUSHONLY \<equiv> 0x20"
abbreviation (input) SCRIPT_VERIFY_MINIMALDATA :: uint32 where "SCRIPT_VERIFY_MINIMALDATA \<equiv> 0x40"
abbreviation (input) SCRIPT_VERIFY_DISCOURAGE_UPGRADABLE_NOPS :: uint32 where "SCRIPT_VERIFY_DISCOURAGE_UPGRADABLE_NOPS \<equiv> 0x80"
abbreviation (input) SCRIPT_VERIFY_CLEANSTACK :: uint32 where "SCRIPT_VERIFY_CLEANSTACK \<equiv> 0x100"
abbreviation (input) SCRIPT_VERIFY_CHECKLOCKTIMEVERIFY :: uint32 where "SCRIPT_VERIFY_CHECKLOCKTIMEVERIFY \<equiv> 0x200"
abbreviation (input) SCRIPT_VERIFY_CHECKSEQUENCEVERIFY :: uint32 where "SCRIPT_VERIFY_CHECKSEQUENCEVERIFY \<equiv> 0x400"
abbreviation (input) SCRIPT_VERIFY_WITNESS :: uint32 where "SCRIPT_VERIFY_WITNESS \<equiv> 0x800"
abbreviation (input) SCRIPT_VERIFY_DISCOURAGE_UPGRADABLE_WITNESS_PROGRAM :: uint32 where "SCRIPT_VERIFY_DISCOURAGE_UPGRADABLE_WITNESS_PROGRAM \<equiv> 0x1000"
abbreviation (input) SCRIPT_VERIFY_MINIMALIF :: uint32 where "SCRIPT_VERIFY_MINIMALIF \<equiv> 0x2000"
abbreviation (input) SCRIPT_VERIFY_NULLFAIL :: uint32 where "SCRIPT_VERIFY_NULLFAIL \<equiv> 0x4000"
abbreviation (input) SCRIPT_VERIFY_WITNESS_PUBKEYTYPE :: uint32 where "SCRIPT_VERIFY_WITNESS_PUBKEYTYPE \<equiv> 0x8000"
abbreviation (input) SCRIPT_VERIFY_CONST_SCRIPTCODE :: uint32 where "SCRIPT_VERIFY_CONST_SCRIPTCODE \<equiv> 0x10000"
abbreviation (input) SCRIPT_VERIFY_TAPROOT :: uint32 where "SCRIPT_VERIFY_TAPROOT \<equiv> 0x20000"
abbreviation (input) SCRIPT_VERIFY_DISCOURAGE_UPGRADABLE_TAPROOT_VERSION :: uint32 where "SCRIPT_VERIFY_DISCOURAGE_UPGRADABLE_TAPROOT_VERSION \<equiv> 0x40000"
abbreviation (input) SCRIPT_VERIFY_DISCOURAGE_OP_SUCCESS :: uint32 where "SCRIPT_VERIFY_DISCOURAGE_OP_SUCCESS \<equiv> 0x80000"
abbreviation (input) SCRIPT_VERIFY_DISCOURAGE_UPGRADABLE_PUBKEYTYPE :: uint32 where "SCRIPT_VERIFY_DISCOURAGE_UPGRADABLE_PUBKEYTYPE \<equiv> 0x100000"
abbreviation (input) SCRIPT_VERIFY_PQC :: uint32 where "SCRIPT_VERIFY_PQC \<equiv> 0x200000"
abbreviation (input) SCRIPT_VERIFY_HYBRID_SIG :: uint32 where "SCRIPT_VERIFY_HYBRID_SIG \<equiv> 0x2000000"

definition has_flag :: "uint32 \<Rightarrow> uint32 \<Rightarrow> bool" where
  "has_flag flags f \<longleftrightarrow> flags AND f \<noteq> 0"

section \<open>Signature checkers\<close>

datatype SigVersion = BASE | WITNESS_V0 | TAPROOT | TAPSCRIPT

text \<open>Hashes are their 32 bytes. The fields that the source leaves uninitialised until their
  \<open>_init\<close> flag is set start as zero or empty.\<close>

record ScriptExecutionData =
  m_tapleaf_hash_init :: bool
  m_tapleaf_hash :: valtype
  m_codeseparator_pos_init :: bool
  m_codeseparator_pos :: uint32
  m_annex_init :: bool
  m_annex_present :: bool
  m_annex_hash :: valtype
  m_validation_weight_left_init :: bool
  m_validation_weight_left :: int
  m_output_hash :: "valtype option"

definition ScriptExecutionData_new :: ScriptExecutionData where
  "ScriptExecutionData_new = \<lparr>m_tapleaf_hash_init = False, m_tapleaf_hash = [], m_codeseparator_pos_init = False,
     m_codeseparator_pos = 0, m_annex_init = False, m_annex_present = False, m_annex_hash = [],
     m_validation_weight_left_init = False, m_validation_weight_left = 0, m_output_hash = None\<rparr>"

text \<open>\<open>CheckSchnorrSignature\<close> receives the error recorded so far, which a failure that sets none
  reports, and returns the execution data it may have extended.\<close>

record checker =
  CheckECDSASignature :: "valtype \<Rightarrow> valtype \<Rightarrow> CScript \<Rightarrow> SigVersion \<Rightarrow> bool script_result"
  CheckSchnorrSignature ::
    "ScriptError \<Rightarrow> valtype \<Rightarrow> valtype \<Rightarrow> SigVersion \<Rightarrow> ScriptExecutionData \<Rightarrow> ScriptExecutionData script_result"
  CheckSPHINCSSignature :: "valtype \<Rightarrow> valtype \<Rightarrow> valtype \<Rightarrow> CScript \<Rightarrow> SigVersion \<Rightarrow> bool script_result"
  CheckPQCSignature :: "valtype \<Rightarrow> valtype \<Rightarrow> CScript \<Rightarrow> SigVersion \<Rightarrow> uint8 \<Rightarrow> bool script_result"
  CheckLockTime :: "int \<Rightarrow> bool script_result"
  CheckSequence :: "int \<Rightarrow> bool script_result"

record secp =
  CheckLowS :: "valtype \<Rightarrow> bool"
  CheckTapTweak :: "valtype \<Rightarrow> valtype \<Rightarrow> valtype \<Rightarrow> bool \<Rightarrow> bool"

text \<open>What one evaluation of a script is given besides its stack.\<close>

record eval_ctx =
  ctx_secp :: secp
  ctx_flags :: uint32
  ctx_checker :: checker
  ctx_sigversion :: SigVersion

abbreviation flag :: "eval_ctx \<Rightarrow> uint32 \<Rightarrow> bool" where
  "flag X f \<equiv> has_flag (ctx_flags X) f"

abbreviation pre_tapscript :: "SigVersion \<Rightarrow> bool" where
  "pre_tapscript v \<equiv> v = BASE \<or> v = WITNESS_V0"

section \<open>Values and encodings\<close>

fun CastToBool :: "valtype \<Rightarrow> bool" where
  "CastToBool [] = False"
| "CastToBool (b # vch) = (if b \<noteq> 0 then \<not> (vch = [] \<and> b = 0x80) else CastToBool vch)"

definition vchFalse :: valtype where "vchFalse = []"
definition vchTrue :: valtype where "vchTrue = [1]"

definition vch_bool :: "bool \<Rightarrow> valtype" where
  "vch_bool b = (if b then vchTrue else vchFalse)"

definition IsCompressedOrUncompressedPubKey :: "valtype \<Rightarrow> bool" where
  "IsCompressedOrUncompressedPubKey vchPubKey \<longleftrightarrow>
     (if length vchPubKey < 33 then False
      else if vchPubKey ! 0 = 0x04 then length vchPubKey = 65
      else if vchPubKey ! 0 = 0x02 \<or> vchPubKey ! 0 = 0x03 then length vchPubKey = 33
      else False)"

definition IsCompressedPubKey :: "valtype \<Rightarrow> bool" where
  "IsCompressedPubKey vchPubKey \<longleftrightarrow> length vchPubKey = 33 \<and> (vchPubKey ! 0 = 0x02 \<or> vchPubKey ! 0 = 0x03)"

definition IsValidSignatureEncoding :: "valtype \<Rightarrow> bool" where
  "IsValidSignatureEncoding sig \<longleftrightarrow>
     (if length sig < 9 then False
      else if length sig > 73 then False
      else if sig ! 0 \<noteq> 0x30 then False
      else if unat (sig ! 1) \<noteq> length sig - 3 then False
      else let lenR = unat (sig ! 3) in
      if 5 + lenR \<ge> length sig then False
      else let lenS = unat (sig ! (5 + lenR)) in
      if lenR + lenS + 7 \<noteq> length sig then False
      else if sig ! 2 \<noteq> 0x02 then False
      else if lenR = 0 then False
      else if sig ! 4 AND 0x80 \<noteq> 0 then False
      else if lenR > 1 \<and> sig ! 4 = 0 \<and> sig ! 5 AND 0x80 = 0 then False
      else if sig ! (lenR + 4) \<noteq> 0x02 then False
      else if lenS = 0 then False
      else if sig ! (lenR + 6) AND 0x80 \<noteq> 0 then False
      else if lenS > 1 \<and> sig ! (lenR + 6) = 0 \<and> sig ! (lenR + 7) AND 0x80 = 0 then False
      else True)"

definition IsLowDERSignature :: "secp \<Rightarrow> valtype \<Rightarrow> unit script_result" where
  "IsLowDERSignature P vchSig =
     (if \<not> IsValidSignatureEncoding vchSig then fails SCRIPT_ERR_SIG_DER
      else if \<not> CheckLowS P (butlast vchSig) then fails SCRIPT_ERR_SIG_HIGH_S
      else Inr ())"

definition IsDefinedHashtypeSignature :: "valtype \<Rightarrow> bool" where
  "IsDefinedHashtypeSignature vchSig \<longleftrightarrow>
     vchSig \<noteq> [] \<and> (let nHashType = last vchSig AND NOT 0x80 in \<not> (nHashType < 1 \<or> nHashType > 3))"

definition CheckSignatureEncoding :: "secp \<Rightarrow> uint32 \<Rightarrow> valtype \<Rightarrow> unit script_result" where
  "CheckSignatureEncoding P flags vchSig =
     (if vchSig = [] then Inr ()
      else if has_flag flags (SCRIPT_VERIFY_DERSIG OR SCRIPT_VERIFY_LOW_S OR SCRIPT_VERIFY_STRICTENC) \<and>
              \<not> IsValidSignatureEncoding vchSig then fails SCRIPT_ERR_SIG_DER
      else if has_flag flags SCRIPT_VERIFY_LOW_S \<and> IsLowDERSignature P vchSig \<noteq> Inr () then IsLowDERSignature P vchSig
      else if has_flag flags SCRIPT_VERIFY_STRICTENC \<and> \<not> IsDefinedHashtypeSignature vchSig then fails SCRIPT_ERR_SIG_HASHTYPE
      else Inr ())"

definition CheckPubKeyEncoding :: "uint32 \<Rightarrow> SigVersion \<Rightarrow> valtype \<Rightarrow> unit script_result" where
  "CheckPubKeyEncoding flags sigversion vchPubKey =
     (if has_flag flags SCRIPT_VERIFY_STRICTENC \<and> \<not> IsCompressedOrUncompressedPubKey vchPubKey
      then fails SCRIPT_ERR_PUBKEYTYPE
      else if has_flag flags SCRIPT_VERIFY_WITNESS_PUBKEYTYPE \<and> sigversion = WITNESS_V0 \<and> \<not> IsCompressedPubKey vchPubKey
      then fails SCRIPT_ERR_WITNESS_PUBKEYTYPE
      else Inr ())"

section \<open>Removing a signature from the script code\<close>

function skip_matches :: "CScript \<Rightarrow> CScript \<Rightarrow> nat \<Rightarrow> CScript \<times> nat" where
  "skip_matches b pc nFound =
     (if b \<noteq> [] \<and> length pc \<ge> length b \<and> take (length b) pc = b
      then skip_matches b (drop (length b) pc) (Suc nFound)
      else (pc, nFound))"
  by auto
termination
  by (relation "measure (\<lambda>(b, pc, n). length pc)") (auto simp flip: length_greater_0_conv)

declare skip_matches.simps [simp del]

lemma skip_matches_length: "skip_matches b pc n = (pc2, n2) \<Longrightarrow> length pc2 \<le> length pc"
proof (induction b pc n rule: skip_matches.induct)
  case (1 b pc n)
  then show ?case by (subst (asm) (2) skip_matches.simps) (fastforce split: if_splits)
qed

function find_delete_loop :: "CScript \<Rightarrow> CScript \<Rightarrow> CScript \<Rightarrow> nat \<Rightarrow> CScript \<times> nat" where
  "find_delete_loop b pc result nFound =
     (case skip_matches b pc nFound of (pc2, nFound2) \<Rightarrow>
        case GetScriptOp pc2 of (ok, pc', opcode, vch) \<Rightarrow>
          if ok then find_delete_loop b pc' (result @ take (length pc2 - length pc') pc2) nFound2
          else (result @ pc2, nFound2))"
  by auto
termination
  by (relation "measure (\<lambda>(b, pc, r, n). length pc)")
    (auto intro: less_le_trans [OF GetScriptOp_shorter [OF sym] skip_matches_length [OF sym]])

declare find_delete_loop.simps [simp del]

definition FindAndDelete :: "CScript \<Rightarrow> CScript \<Rightarrow> CScript \<times> nat" where
  "FindAndDelete sc b =
     (if b = [] then (sc, 0)
      else case find_delete_loop b sc [] 0 of (result, nFound) \<Rightarrow> (if nFound > 0 then result else sc, nFound))"

section \<open>The condition stack\<close>

record ConditionStack =
  m_stack_size :: uint32
  m_first_false_pos :: uint32

definition NO_FALSE :: uint32 where "NO_FALSE = 0xFFFFFFFF"

definition ConditionStack_new :: ConditionStack where
  "ConditionStack_new = \<lparr>m_stack_size = 0, m_first_false_pos = NO_FALSE\<rparr>"

definition cs_empty :: "ConditionStack \<Rightarrow> bool" where
  "cs_empty cs \<longleftrightarrow> m_stack_size cs = 0"

definition cs_all_true :: "ConditionStack \<Rightarrow> bool" where
  "cs_all_true cs \<longleftrightarrow> m_first_false_pos cs = NO_FALSE"

definition cs_push_back :: "bool \<Rightarrow> ConditionStack \<Rightarrow> ConditionStack" where
  "cs_push_back f cs =
     \<lparr>m_stack_size = m_stack_size cs + 1,
      m_first_false_pos = (if m_first_false_pos cs = NO_FALSE \<and> \<not> f then m_stack_size cs else m_first_false_pos cs)\<rparr>"

definition cs_pop_back :: "ConditionStack \<Rightarrow> ConditionStack option" where
  "cs_pop_back cs =
     (if m_stack_size cs > 0
      then let n = m_stack_size cs - 1
           in Some \<lparr>m_stack_size = n, m_first_false_pos = (if m_first_false_pos cs = n then NO_FALSE else m_first_false_pos cs)\<rparr>
      else None)"

definition cs_toggle_top :: "ConditionStack \<Rightarrow> ConditionStack option" where
  "cs_toggle_top cs =
     (if m_stack_size cs > 0
      then Some (if m_first_false_pos cs = NO_FALSE then cs\<lparr>m_first_false_pos := m_stack_size cs - 1\<rparr>
                 else if m_first_false_pos cs = m_stack_size cs - 1 then cs\<lparr>m_first_false_pos := NO_FALSE\<rparr>
                 else cs)
      else None)"

section \<open>Checking one signature\<close>

definition EvalChecksigPreTapscript ::
  "eval_ctx \<Rightarrow> valtype \<Rightarrow> valtype \<Rightarrow> CScript \<Rightarrow> bool script_result" where
  "EvalChecksigPreTapscript X vchSig vchPubKey pbegincodehash =
     (if \<not> pre_tapscript (ctx_sigversion X) then Inl Aborts
      else case (if ctx_sigversion X = BASE then FindAndDelete pbegincodehash (push_data vchSig) else (pbegincodehash, 0)) of
        (scriptCode, found) \<Rightarrow>
          if found > 0 \<and> flag X SCRIPT_VERIFY_CONST_SCRIPTCODE then fails SCRIPT_ERR_SIG_FINDANDDELETE
          else bind_script (CheckSignatureEncoding (ctx_secp X) (ctx_flags X) vchSig) (\<lambda>_.
               bind_script (CheckPubKeyEncoding (ctx_flags X) (ctx_sigversion X) vchPubKey) (\<lambda>_.
               bind_script (CheckECDSASignature (ctx_checker X) vchSig vchPubKey scriptCode (ctx_sigversion X)) (\<lambda>fSuccess.
                 if \<not> fSuccess \<and> flag X SCRIPT_VERIFY_NULLFAIL \<and> vchSig \<noteq> [] then fails SCRIPT_ERR_SIG_NULLFAIL
                 else Inr fSuccess))))"

text \<open>The weight that a non-empty signature uses up.\<close>

definition spend_weight :: "valtype \<Rightarrow> ScriptExecutionData \<Rightarrow> ScriptExecutionData script_result" where
  "spend_weight sig execdata =
     (if sig = [] then Inr execdata
      else if \<not> m_validation_weight_left_init execdata then Inl Aborts
      else let left = m_validation_weight_left execdata - VALIDATION_WEIGHT_PER_SIGOP_PASSED
           in if left < 0 then fails SCRIPT_ERR_TAPSCRIPT_VALIDATION_WEIGHT
              else Inr (execdata\<lparr>m_validation_weight_left := left\<rparr>))"

definition EvalChecksigTapscript ::
  "eval_ctx \<Rightarrow> valtype \<Rightarrow> valtype \<Rightarrow> ScriptExecutionData \<Rightarrow> (bool \<times> ScriptExecutionData) script_result" where
  "EvalChecksigTapscript X sig pubkey execdata =
     (if ctx_sigversion X \<noteq> TAPSCRIPT then Inl Aborts
      else let success = (sig \<noteq> []) in
           bind_script (spend_weight sig execdata) (\<lambda>execdata1.
             if pubkey = [] then fails SCRIPT_ERR_PUBKEYTYPE
             else if length pubkey = 32
             then if success
                  then bind_script (CheckSchnorrSignature (ctx_checker X) SCRIPT_ERR_UNKNOWN_ERROR sig pubkey TAPSCRIPT execdata1)
                         (\<lambda>execdata2. Inr (success, execdata2))
                  else Inr (success, execdata1)
             else if flag X SCRIPT_VERIFY_DISCOURAGE_UPGRADABLE_PUBKEYTYPE
             then fails SCRIPT_ERR_DISCOURAGE_UPGRADABLE_PUBKEYTYPE
             else Inr (success, execdata1)))"

definition EvalChecksig ::
  "eval_ctx \<Rightarrow> valtype \<Rightarrow> valtype \<Rightarrow> CScript \<Rightarrow> ScriptExecutionData \<Rightarrow> (bool \<times> ScriptExecutionData) script_result" where
  "EvalChecksig X sig pubkey pbegincodehash execdata =
     (case ctx_sigversion X of
        BASE \<Rightarrow> bind_script (EvalChecksigPreTapscript X sig pubkey pbegincodehash) (\<lambda>success. Inr (success, execdata))
      | WITNESS_V0 \<Rightarrow> bind_script (EvalChecksigPreTapscript X sig pubkey pbegincodehash) (\<lambda>success. Inr (success, execdata))
      | TAPSCRIPT \<Rightarrow> EvalChecksigTapscript X sig pubkey execdata
      | TAPROOT \<Rightarrow> Inl Aborts)"

section \<open>Instructions\<close>

record eval_state =
  stk :: "valtype list"
  altstk :: "valtype list"
  vfExec :: ConditionStack
  nOpCount :: int
  pbegincodehash :: CScript
  opcode_pos :: uint32
  execdata :: ScriptExecutionData

abbreviation (input) invalid_stack :: "'a script_result" where
  "invalid_stack \<equiv> fails SCRIPT_ERR_INVALID_STACK_OPERATION"

definition fRequireMinimal :: "eval_ctx \<Rightarrow> bool" where
  "fRequireMinimal X \<longleftrightarrow> flag X SCRIPT_VERIFY_MINIMALDATA"

text \<open>Reading a number from the stack; the exception is caught by the interpreter.\<close>

definition stack_num :: "eval_ctx \<Rightarrow> valtype \<Rightarrow> nat \<Rightarrow> int script_result" where
  "stack_num X vch nMaxNumSize =
     (case CScriptNum vch (fRequireMinimal X) nMaxNumSize of
        None \<Rightarrow> fails SCRIPT_ERR_UNKNOWN_ERROR | Some n \<Rightarrow> Inr n)"

definition op_checklocktimeverify :: "eval_ctx \<Rightarrow> eval_state \<Rightarrow> eval_state script_result" where
  "op_checklocktimeverify X st =
     (if \<not> flag X SCRIPT_VERIFY_CHECKLOCKTIMEVERIFY then Inr st
      else if length (stk st) < 1 then invalid_stack
      else bind_script (stack_num X (stk st ! 0) 5) (\<lambda>nLockTime.
        if nLockTime < 0 then fails SCRIPT_ERR_NEGATIVE_LOCKTIME
        else bind_script (CheckLockTime (ctx_checker X) nLockTime) (\<lambda>ok.
          if \<not> ok then fails SCRIPT_ERR_UNSATISFIED_LOCKTIME else Inr st)))"

definition SEQUENCE_LOCKTIME_DISABLE_FLAG :: int where
  "SEQUENCE_LOCKTIME_DISABLE_FLAG = 0x80000000"

definition op_checksequenceverify :: "eval_ctx \<Rightarrow> eval_state \<Rightarrow> eval_state script_result" where
  "op_checksequenceverify X st =
     (if \<not> flag X SCRIPT_VERIFY_CHECKSEQUENCEVERIFY then Inr st
      else if length (stk st) < 1 then invalid_stack
      else bind_script (stack_num X (stk st ! 0) 5) (\<lambda>nSequence.
        if nSequence < 0 then fails SCRIPT_ERR_NEGATIVE_LOCKTIME
        else if nSequence AND SEQUENCE_LOCKTIME_DISABLE_FLAG \<noteq> 0 then Inr st
        else bind_script (CheckSequence (ctx_checker X) nSequence) (\<lambda>ok.
          if \<not> ok then fails SCRIPT_ERR_UNSATISFIED_LOCKTIME else Inr st)))"

text \<open>\<open>OP_IF\<close> and \<open>OP_NOTIF\<close>; inside a branch that is not executed they only nest.\<close>

definition op_if :: "eval_ctx \<Rightarrow> bool \<Rightarrow> opcodetype \<Rightarrow> eval_state \<Rightarrow> eval_state script_result" where
  "op_if X fExec opcode st =
     (if \<not> fExec then Inr (st\<lparr>vfExec := cs_push_back False (vfExec st)\<rparr>)
      else if length (stk st) < 1 then fails SCRIPT_ERR_UNBALANCED_CONDITIONAL
      else let vch = stk st ! 0 in
        if ctx_sigversion X = TAPSCRIPT \<and> (length vch > 1 \<or> (length vch = 1 \<and> vch ! 0 \<noteq> 1))
        then fails SCRIPT_ERR_TAPSCRIPT_MINIMALIF
        else if ctx_sigversion X = WITNESS_V0 \<and> flag X SCRIPT_VERIFY_MINIMALIF \<and>
                (length vch > 1 \<or> (length vch = 1 \<and> vch ! 0 \<noteq> 1))
        then fails SCRIPT_ERR_MINIMALIF
        else let fValue = (if opcode = OP_NOTIF then \<not> CastToBool vch else CastToBool vch)
             in Inr (st\<lparr>stk := drop 1 (stk st), vfExec := cs_push_back fValue (vfExec st)\<rparr>))"

definition op_else :: "eval_state \<Rightarrow> eval_state script_result" where
  "op_else st =
     (if cs_empty (vfExec st) then fails SCRIPT_ERR_UNBALANCED_CONDITIONAL
      else bind_script (asserted (cs_toggle_top (vfExec st))) (\<lambda>cs. Inr (st\<lparr>vfExec := cs\<rparr>)))"

definition op_endif :: "eval_state \<Rightarrow> eval_state script_result" where
  "op_endif st =
     (if cs_empty (vfExec st) then fails SCRIPT_ERR_UNBALANCED_CONDITIONAL
      else bind_script (asserted (cs_pop_back (vfExec st))) (\<lambda>cs. Inr (st\<lparr>vfExec := cs\<rparr>)))"

definition op_verify :: "eval_state \<Rightarrow> eval_state script_result" where
  "op_verify st =
     (if length (stk st) < 1 then invalid_stack
      else if CastToBool (stk st ! 0) then Inr (st\<lparr>stk := drop 1 (stk st)\<rparr>)
      else fails SCRIPT_ERR_VERIFY)"

definition op_toaltstack :: "eval_state \<Rightarrow> eval_state script_result" where
  "op_toaltstack st =
     (if length (stk st) < 1 then invalid_stack
      else Inr (st\<lparr>stk := drop 1 (stk st), altstk := stk st ! 0 # altstk st\<rparr>))"

definition op_fromaltstack :: "eval_state \<Rightarrow> eval_state script_result" where
  "op_fromaltstack st =
     (if length (altstk st) < 1 then fails SCRIPT_ERR_INVALID_ALTSTACK_OPERATION
      else Inr (st\<lparr>stk := altstk st ! 0 # stk st, altstk := drop 1 (altstk st)\<rparr>))"

text \<open>The instructions that only rearrange the stack: the size they need and what they do to it.\<close>

definition stack_fun :: "opcodetype \<Rightarrow> (nat \<times> (valtype list \<Rightarrow> valtype list)) option" where
  "stack_fun opcode =
     (if opcode = OP_2DROP then Some (2, \<lambda>xs. drop 2 xs)
      else if opcode = OP_2DUP then Some (2, \<lambda>xs. xs ! 0 # xs ! 1 # xs)
      else if opcode = OP_3DUP then Some (3, \<lambda>xs. xs ! 0 # xs ! 1 # xs ! 2 # xs)
      else if opcode = OP_2OVER then Some (4, \<lambda>xs. xs ! 2 # xs ! 3 # xs)
      else if opcode = OP_2ROT then Some (6, \<lambda>xs. xs ! 4 # xs ! 5 # take 4 xs @ drop 6 xs)
      else if opcode = OP_2SWAP then Some (4, \<lambda>xs. xs ! 2 # xs ! 3 # xs ! 0 # xs ! 1 # drop 4 xs)
      else if opcode = OP_IFDUP then Some (1, \<lambda>xs. if CastToBool (xs ! 0) then xs ! 0 # xs else xs)
      else if opcode = OP_DEPTH then Some (0, \<lambda>xs. num_serialize (int (length xs)) # xs)
      else if opcode = OP_DROP then Some (1, \<lambda>xs. drop 1 xs)
      else if opcode = OP_DUP then Some (1, \<lambda>xs. xs ! 0 # xs)
      else if opcode = OP_NIP then Some (2, \<lambda>xs. xs ! 0 # drop 2 xs)
      else if opcode = OP_OVER then Some (2, \<lambda>xs. xs ! 1 # xs)
      else if opcode = OP_ROT then Some (3, \<lambda>xs. xs ! 2 # xs ! 0 # xs ! 1 # drop 3 xs)
      else if opcode = OP_SWAP then Some (2, \<lambda>xs. xs ! 1 # xs ! 0 # drop 2 xs)
      else if opcode = OP_TUCK then Some (2, \<lambda>xs. xs ! 0 # xs ! 1 # xs ! 0 # drop 2 xs)
      else if opcode = OP_SIZE then Some (1, \<lambda>xs. num_serialize (int (length (xs ! 0))) # xs)
      else None)"

definition op_stack :: "nat \<times> (valtype list \<Rightarrow> valtype list) \<Rightarrow> eval_state \<Rightarrow> eval_state script_result" where
  "op_stack nf st = (if length (stk st) < fst nf then invalid_stack else Inr (st\<lparr>stk := snd nf (stk st)\<rparr>))"

definition op_pick_roll :: "eval_ctx \<Rightarrow> opcodetype \<Rightarrow> eval_state \<Rightarrow> eval_state script_result" where
  "op_pick_roll X opcode st =
     (if length (stk st) < 2 then invalid_stack
      else bind_script (stack_num X (stk st ! 0) nDefaultMaxNumSize) (\<lambda>bn.
        let n = getint bn; xs = drop 1 (stk st) in
        if n < 0 \<or> n \<ge> int (length xs) then invalid_stack
        else let vch = xs ! nat n
             in Inr (st\<lparr>stk := vch # (if opcode = OP_ROLL then take (nat n) xs @ drop (nat n + 1) xs else xs)\<rparr>)))"

definition op_equal :: "opcodetype \<Rightarrow> eval_state \<Rightarrow> eval_state script_result" where
  "op_equal opcode st =
     (if length (stk st) < 2 then invalid_stack
      else let fEqual = (stk st ! 1 = stk st ! 0); r = drop 2 (stk st) in
        if opcode = OP_EQUALVERIFY
        then if fEqual then Inr (st\<lparr>stk := r\<rparr>) else fails SCRIPT_ERR_EQUALVERIFY
        else Inr (st\<lparr>stk := vch_bool fEqual # r\<rparr>))"

definition int_of_bool :: "bool \<Rightarrow> int" where
  "int_of_bool b = (if b then 1 else 0)"

definition unary_num :: "opcodetype \<Rightarrow> int \<Rightarrow> int option" where
  "unary_num opcode bn =
     (if opcode = OP_1ADD then num_add_assign bn 1
      else if opcode = OP_1SUB then num_sub_assign bn 1
      else if opcode = OP_NEGATE then num_neg bn
      else if opcode = OP_ABS then if bn < 0 then num_neg bn else Some bn
      else if opcode = OP_NOT then Some (int_of_bool (bn = 0))
      else if opcode = OP_0NOTEQUAL then Some (int_of_bool (bn \<noteq> 0))
      else None)"

definition op_unary :: "eval_ctx \<Rightarrow> opcodetype \<Rightarrow> eval_state \<Rightarrow> eval_state script_result" where
  "op_unary X opcode st =
     (if length (stk st) < 1 then invalid_stack
      else bind_script (stack_num X (stk st ! 0) nDefaultMaxNumSize) (\<lambda>bn.
           bind_script (asserted (unary_num opcode bn)) (\<lambda>bn'.
             Inr (st\<lparr>stk := num_serialize bn' # drop 1 (stk st)\<rparr>))))"

definition binary_num :: "opcodetype \<Rightarrow> int \<Rightarrow> int \<Rightarrow> int option" where
  "binary_num opcode bn1 bn2 =
     (if opcode = OP_ADD then Some (bn1 + bn2)
      else if opcode = OP_SUB then Some (bn1 - bn2)
      else if opcode = OP_BOOLAND then Some (int_of_bool (bn1 \<noteq> 0 \<and> bn2 \<noteq> 0))
      else if opcode = OP_BOOLOR then Some (int_of_bool (bn1 \<noteq> 0 \<or> bn2 \<noteq> 0))
      else if opcode = OP_NUMEQUAL \<or> opcode = OP_NUMEQUALVERIFY then Some (int_of_bool (bn1 = bn2))
      else if opcode = OP_NUMNOTEQUAL then Some (int_of_bool (bn1 \<noteq> bn2))
      else if opcode = OP_LESSTHAN then Some (int_of_bool (bn1 < bn2))
      else if opcode = OP_GREATERTHAN then Some (int_of_bool (bn1 > bn2))
      else if opcode = OP_LESSTHANOREQUAL then Some (int_of_bool (bn1 \<le> bn2))
      else if opcode = OP_GREATERTHANOREQUAL then Some (int_of_bool (bn1 \<ge> bn2))
      else if opcode = OP_MIN then Some (if bn1 < bn2 then bn1 else bn2)
      else if opcode = OP_MAX then Some (if bn1 > bn2 then bn1 else bn2)
      else None)"

definition op_binary :: "eval_ctx \<Rightarrow> opcodetype \<Rightarrow> eval_state \<Rightarrow> eval_state script_result" where
  "op_binary X opcode st =
     (if length (stk st) < 2 then invalid_stack
      else bind_script (stack_num X (stk st ! 1) nDefaultMaxNumSize) (\<lambda>bn1.
           bind_script (stack_num X (stk st ! 0) nDefaultMaxNumSize) (\<lambda>bn2.
           bind_script (asserted (binary_num opcode bn1 bn2)) (\<lambda>bn.
             let vch = num_serialize bn; r = drop 2 (stk st) in
             if opcode = OP_NUMEQUALVERIFY
             then if CastToBool vch then Inr (st\<lparr>stk := r\<rparr>) else fails SCRIPT_ERR_NUMEQUALVERIFY
             else Inr (st\<lparr>stk := vch # r\<rparr>)))))"

definition op_within :: "eval_ctx \<Rightarrow> eval_state \<Rightarrow> eval_state script_result" where
  "op_within X st =
     (if length (stk st) < 3 then invalid_stack
      else bind_script (stack_num X (stk st ! 2) nDefaultMaxNumSize) (\<lambda>bn1.
           bind_script (stack_num X (stk st ! 1) nDefaultMaxNumSize) (\<lambda>bn2.
           bind_script (stack_num X (stk st ! 0) nDefaultMaxNumSize) (\<lambda>bn3.
             Inr (st\<lparr>stk := vch_bool (bn2 \<le> bn1 \<and> bn1 < bn3) # drop 3 (stk st)\<rparr>)))))"

definition hash_fun :: "opcodetype \<Rightarrow> valtype \<Rightarrow> valtype" where
  "hash_fun opcode vch =
     (if opcode = OP_RIPEMD160 then CRIPEMD160_Finalize (CRIPEMD160_Write CRIPEMD160 vch)
      else if opcode = OP_SHA1 then CSHA1_Finalize (CSHA1_Write CSHA1 vch)
      else if opcode = OP_SHA256 then snd (Finalize (Write CSHA256_new vch))
      else if opcode = OP_HASH160 then CHash160_Finalize (Write CSHA256_new vch)
      else CHash256_Finalize (Write CSHA256_new vch))"

definition op_hash :: "opcodetype \<Rightarrow> eval_state \<Rightarrow> eval_state script_result" where
  "op_hash opcode st =
     (if length (stk st) < 1 then invalid_stack
      else Inr (st\<lparr>stk := hash_fun opcode (stk st ! 0) # drop 1 (stk st)\<rparr>))"

definition op_codeseparator :: "CScript \<Rightarrow> eval_state \<Rightarrow> eval_state script_result" where
  "op_codeseparator pc st =
     Inr (st\<lparr>pbegincodehash := pc, execdata := (execdata st)\<lparr>m_codeseparator_pos := opcode_pos st\<rparr>\<rparr>)"

definition op_checksig :: "eval_ctx \<Rightarrow> opcodetype \<Rightarrow> eval_state \<Rightarrow> eval_state script_result" where
  "op_checksig X opcode st =
     (if length (stk st) < 2 then invalid_stack
      else bind_script (EvalChecksig X (stk st ! 1) (stk st ! 0) (pbegincodehash st) (execdata st)) (\<lambda>(fSuccess, ed).
        let r = drop 2 (stk st) in
        if opcode = OP_CHECKSIGVERIFY
        then if fSuccess then Inr (st\<lparr>stk := r, execdata := ed\<rparr>) else fails SCRIPT_ERR_CHECKSIGVERIFY
        else Inr (st\<lparr>stk := vch_bool fSuccess # r, execdata := ed\<rparr>)))"

definition op_checksigadd :: "eval_ctx \<Rightarrow> eval_state \<Rightarrow> eval_state script_result" where
  "op_checksigadd X st =
     (if pre_tapscript (ctx_sigversion X) then fails SCRIPT_ERR_BAD_OPCODE
      else if length (stk st) < 3 then invalid_stack
      else bind_script (stack_num X (stk st ! 1) nDefaultMaxNumSize) (\<lambda>num.
           bind_script (EvalChecksig X (stk st ! 2) (stk st ! 0) (pbegincodehash st) (execdata st)) (\<lambda>(success, ed).
             Inr (st\<lparr>stk := num_serialize (num + int_of_bool success) # drop 3 (stk st), execdata := ed\<rparr>))))"

section \<open>Checking several signatures\<close>

fun drop_signatures :: "eval_ctx \<Rightarrow> valtype list \<Rightarrow> CScript \<Rightarrow> CScript script_result" where
  "drop_signatures X [] scriptCode = Inr scriptCode"
| "drop_signatures X (vchSig # sigs) scriptCode =
     (if ctx_sigversion X = BASE
      then case FindAndDelete scriptCode (push_data vchSig) of (scriptCode', found) \<Rightarrow>
        if found > 0 \<and> flag X SCRIPT_VERIFY_CONST_SCRIPTCODE then fails SCRIPT_ERR_SIG_FINDANDDELETE
        else drop_signatures X sigs scriptCode'
      else drop_signatures X sigs scriptCode)"

text \<open>The matching loop over the signatures and the keys that are left. It never runs out of keys
  first: it ends as soon as more signatures than keys are left.\<close>

fun multisig_loop :: "eval_ctx \<Rightarrow> CScript \<Rightarrow> valtype list \<Rightarrow> valtype list \<Rightarrow> bool script_result" where
  "multisig_loop X scriptCode [] keys = Inr True"
| "multisig_loop X scriptCode (vchSig # sigs) [] = Inr False"
| "multisig_loop X scriptCode (vchSig # sigs) (vchPubKey # keys) =
     bind_script (CheckSignatureEncoding (ctx_secp X) (ctx_flags X) vchSig) (\<lambda>_.
     bind_script (CheckPubKeyEncoding (ctx_flags X) (ctx_sigversion X) vchPubKey) (\<lambda>_.
     bind_script (CheckECDSASignature (ctx_checker X) vchSig vchPubKey scriptCode (ctx_sigversion X)) (\<lambda>fOk.
       let sigs' = (if fOk then sigs else vchSig # sigs) in
       if length sigs' > length keys then Inr False else multisig_loop X scriptCode sigs' keys)))"

text \<open>Popping the \<open>i - 1\<close> arguments; the elements below the first \<open>ikey2\<close> are the signatures.\<close>

fun multisig_cleanup :: "bool \<Rightarrow> nat \<Rightarrow> nat \<Rightarrow> valtype list \<Rightarrow> valtype list script_result" where
  "multisig_cleanup null_required 0 ikey2 xs = Inr xs"
| "multisig_cleanup null_required (Suc i) ikey2 [] = fails SCRIPT_ERR_UNKNOWN_ERROR"
| "multisig_cleanup null_required (Suc i) ikey2 (x # xs) =
     (if null_required \<and> ikey2 = 0 \<and> x \<noteq> [] then fails SCRIPT_ERR_SIG_NULLFAIL
      else multisig_cleanup null_required i (ikey2 - 1) xs)"

definition multisig_finish :: "eval_ctx \<Rightarrow> opcodetype \<Rightarrow> bool \<Rightarrow> valtype list \<Rightarrow> eval_state \<Rightarrow> eval_state script_result" where
  "multisig_finish X opcode fSuccess xs st =
     (if length xs < 1 then invalid_stack
      else if flag X SCRIPT_VERIFY_NULLDUMMY \<and> xs ! 0 \<noteq> [] then fails SCRIPT_ERR_SIG_NULLDUMMY
      else let r = drop 1 xs in
        if opcode = OP_CHECKMULTISIGVERIFY
        then if fSuccess then Inr (st\<lparr>stk := r\<rparr>) else fails SCRIPT_ERR_CHECKMULTISIGVERIFY
        else Inr (st\<lparr>stk := vch_bool fSuccess # r\<rparr>))"

definition op_checkmultisig :: "eval_ctx \<Rightarrow> opcodetype \<Rightarrow> eval_state \<Rightarrow> eval_state script_result" where
  "op_checkmultisig X opcode st =
     (if ctx_sigversion X = TAPSCRIPT then fails SCRIPT_ERR_TAPSCRIPT_CHECKMULTISIG
      else if length (stk st) < 1 then invalid_stack
      else bind_script (stack_num X (stk st ! 0) nDefaultMaxNumSize) (\<lambda>bnKeys.
        let nKeysCount = getint bnKeys in
        if nKeysCount < 0 \<or> nKeysCount > MAX_PUBKEYS_PER_MULTISIG then fails SCRIPT_ERR_PUBKEY_COUNT
        else let st1 = st\<lparr>nOpCount := nOpCount st + nKeysCount\<rparr>; k = nat nKeysCount in
        if nOpCount st1 > MAX_OPS_PER_SCRIPT then fails SCRIPT_ERR_OP_COUNT
        else if length (stk st) < k + 2 then invalid_stack
        else bind_script (stack_num X (stk st ! (k + 1)) nDefaultMaxNumSize) (\<lambda>bnSigs.
          let nSigsCount = getint bnSigs in
          if nSigsCount < 0 \<or> nSigsCount > nKeysCount then fails SCRIPT_ERR_SIG_COUNT
          else let n = nat nSigsCount in
          if length (stk st) < k + n + 3 then invalid_stack
          else let keys = take k (drop 1 (stk st)); sigs = take n (drop (k + 2) (stk st)) in
          bind_script (drop_signatures X sigs (pbegincodehash st)) (\<lambda>scriptCode.
          bind_script (multisig_loop X scriptCode sigs keys) (\<lambda>fSuccess.
          bind_script (multisig_cleanup (\<not> fSuccess \<and> flag X SCRIPT_VERIFY_NULLFAIL) (k + n + 2) (k + 2) (stk st)) (\<lambda>xs.
            multisig_finish X opcode fSuccess xs st1))))))"

section \<open>The interpreter loop\<close>

definition is_disabled :: "opcodetype \<Rightarrow> bool" where
  "is_disabled opcode \<longleftrightarrow> opcode \<in> {OP_CAT, OP_SUBSTR, OP_LEFT, OP_RIGHT, OP_INVERT, OP_AND, OP_OR, OP_XOR, OP_2MUL,
     OP_2DIV, OP_MUL, OP_DIV, OP_MOD, OP_LSHIFT, OP_RSHIFT}"

definition exec_opcode :: "eval_ctx \<Rightarrow> bool \<Rightarrow> opcodetype \<Rightarrow> CScript \<Rightarrow> eval_state \<Rightarrow> eval_state script_result" where
  "exec_opcode X fExec opcode pc st =
     (if opcode = OP_1NEGATE \<or> (OP_1 \<le> opcode \<and> opcode \<le> OP_16)
      then Inr (st\<lparr>stk := num_serialize (int (unat opcode) - 0x50) # stk st\<rparr>)
      else if opcode = OP_NOP then Inr st
      else if opcode = OP_CHECKLOCKTIMEVERIFY then op_checklocktimeverify X st
      else if opcode = OP_CHECKSEQUENCEVERIFY then op_checksequenceverify X st
      else if opcode = OP_NOP1 \<or> (OP_NOP4 \<le> opcode \<and> opcode \<le> OP_NOP10)
      then if flag X SCRIPT_VERIFY_DISCOURAGE_UPGRADABLE_NOPS then fails SCRIPT_ERR_DISCOURAGE_UPGRADABLE_NOPS else Inr st
      else if opcode = OP_IF \<or> opcode = OP_NOTIF then op_if X fExec opcode st
      else if opcode = OP_ELSE then op_else st
      else if opcode = OP_ENDIF then op_endif st
      else if opcode = OP_VERIFY then op_verify st
      else if opcode = OP_RETURN then fails SCRIPT_ERR_OP_RETURN
      else if opcode = OP_TOALTSTACK then op_toaltstack st
      else if opcode = OP_FROMALTSTACK then op_fromaltstack st
      else if stack_fun opcode \<noteq> None then op_stack (the (stack_fun opcode)) st
      else if opcode = OP_PICK \<or> opcode = OP_ROLL then op_pick_roll X opcode st
      else if opcode = OP_EQUAL \<or> opcode = OP_EQUALVERIFY then op_equal opcode st
      else if opcode \<in> {OP_1ADD, OP_1SUB, OP_NEGATE, OP_ABS, OP_NOT, OP_0NOTEQUAL} then op_unary X opcode st
      else if opcode = OP_ADD \<or> opcode = OP_SUB \<or> (OP_BOOLAND \<le> opcode \<and> opcode \<le> OP_MAX) then op_binary X opcode st
      else if opcode = OP_WITHIN then op_within X st
      else if OP_RIPEMD160 \<le> opcode \<and> opcode \<le> OP_HASH256 then op_hash opcode st
      else if opcode = OP_CODESEPARATOR then op_codeseparator pc st
      else if opcode = OP_CHECKSIG \<or> opcode = OP_CHECKSIGVERIFY then op_checksig X opcode st
      else if opcode = OP_CHECKSIGADD then op_checksigadd X st
      else if opcode = OP_CHECKMULTISIG \<or> opcode = OP_CHECKMULTISIGVERIFY then op_checkmultisig X opcode st
      else fails SCRIPT_ERR_BAD_OPCODE)"

definition exec_push :: "eval_ctx \<Rightarrow> opcodetype \<Rightarrow> valtype \<Rightarrow> eval_state \<Rightarrow> eval_state script_result" where
  "exec_push X opcode vchPushValue st =
     (if fRequireMinimal X
      then bind_script (asserted (CheckMinimalPush vchPushValue opcode)) (\<lambda>ok.
        if \<not> ok then fails SCRIPT_ERR_MINIMALDATA else Inr (st\<lparr>stk := vchPushValue # stk st\<rparr>))
      else Inr (st\<lparr>stk := vchPushValue # stk st\<rparr>))"

text \<open>One round of the loop: the rest of the script and the new state.\<close>

definition eval_step :: "eval_ctx \<Rightarrow> CScript \<Rightarrow> eval_state \<Rightarrow> (CScript \<times> eval_state) script_result" where
  "eval_step X pc st =
     (case GetScriptOp pc of (ok, pc', opcode, vchPushValue) \<Rightarrow>
        let fExec = cs_all_true (vfExec st);
            counted = (pre_tapscript (ctx_sigversion X) \<and> opcode > OP_16);
            st1 = (if counted then st\<lparr>nOpCount := nOpCount st + 1\<rparr> else st) in
        if \<not> ok then fails SCRIPT_ERR_BAD_OPCODE
        else if length vchPushValue > MAX_SCRIPT_ELEMENT_SIZE then fails SCRIPT_ERR_PUSH_SIZE
        else if counted \<and> nOpCount st1 > MAX_OPS_PER_SCRIPT then fails SCRIPT_ERR_OP_COUNT
        else if is_disabled opcode then fails SCRIPT_ERR_DISABLED_OPCODE
        else if opcode = OP_CODESEPARATOR \<and> ctx_sigversion X = BASE \<and> flag X SCRIPT_VERIFY_CONST_SCRIPTCODE
        then fails SCRIPT_ERR_OP_CODESEPARATOR
        else bind_script
          (if fExec \<and> opcode \<le> OP_PUSHDATA4 then exec_push X opcode vchPushValue st1
           else if fExec \<or> (OP_IF \<le> opcode \<and> opcode \<le> OP_ENDIF) then exec_opcode X fExec opcode pc' st1
           else Inr st1)
          (\<lambda>st2. if length (stk st2) + length (altstk st2) > MAX_STACK_SIZE then fails SCRIPT_ERR_STACK_SIZE
                 else Inr (pc', st2\<lparr>opcode_pos := opcode_pos st2 + 1\<rparr>)))"

lemma bind_script_Inr: "bind_script r f = Inr y \<longleftrightarrow> (\<exists>x. r = Inr x \<and> f x = Inr y)"
  by (auto simp: bind_script_def split: sum.splits)

lemma eval_step_shorter: "eval_step X pc st = Inr (pc', st') \<Longrightarrow> length pc' < length pc"
  by (auto simp: eval_step_def Let_def bind_script_Inr dest: GetScriptOp_shorter split: prod.splits if_splits)

function eval_loop :: "eval_ctx \<Rightarrow> CScript \<Rightarrow> eval_state \<Rightarrow> eval_state script_result" where
  "eval_loop X pc st =
     (if pc = [] then Inr st
      else case eval_step X pc st of Inl e \<Rightarrow> Inl e | Inr (pc', st') \<Rightarrow> eval_loop X pc' st')"
  by auto
termination by (relation "measure (\<lambda>(X, pc, st). length pc)") (auto intro: eval_step_shorter)

declare eval_loop.simps [simp del]

definition eval_start :: "valtype list \<Rightarrow> CScript \<Rightarrow> ScriptExecutionData \<Rightarrow> eval_state" where
  "eval_start stack sc ed =
     \<lparr>stk = stack, altstk = [], vfExec = ConditionStack_new, nOpCount = 0, pbegincodehash = sc, opcode_pos = 0,
      execdata = ed\<lparr>m_codeseparator_pos := 0xFFFFFFFF, m_codeseparator_pos_init := True\<rparr>\<rparr>"

definition EvalScript ::
  "eval_ctx \<Rightarrow> valtype list \<Rightarrow> CScript \<Rightarrow> ScriptExecutionData \<Rightarrow> (valtype list \<times> ScriptExecutionData) script_result" where
  "EvalScript X stack sc ed =
     (if ctx_sigversion X = TAPROOT then Inl Aborts
      else if pre_tapscript (ctx_sigversion X) \<and> length sc > MAX_SCRIPT_SIZE then fails SCRIPT_ERR_SCRIPT_SIZE
      else bind_script (eval_loop X sc (eval_start stack sc ed)) (\<lambda>st.
        if \<not> cs_empty (vfExec st) then fails SCRIPT_ERR_UNBALANCED_CONDITIONAL
        else Inr (stk st, execdata st)))"

end
