(* ===== verification/Script_Safety.thy ===== *)
theory Script_Safety
  imports Script_Interpreter
begin

text \<open>
  What holds of every evaluation of a script: the optimised condition stack of the interpreter behaves as
  a stack of booleans, no assertion of the interpreter fails, and the resource limits hold of every
  state, so no element of the stack exceeds 520 bytes and the two stacks together never exceed 1000
  elements.
\<close>

section \<open>The condition stack is a stack of booleans\<close>

datatype cond_op = Push bool | Pop | Toggle

text \<open>The interface the interpreter uses, with the stack of booleans (top first) it stands for.\<close>

locale condition_stack =
  fixes new :: 'c and empty :: "'c \<Rightarrow> bool" and all_true :: "'c \<Rightarrow> bool"
    and push_back :: "bool \<Rightarrow> 'c \<Rightarrow> 'c" and pop_back :: "'c \<Rightarrow> 'c option" and toggle_top :: "'c \<Rightarrow> 'c option"
    and stands_for :: "'c \<Rightarrow> bool list \<Rightarrow> bool" and capacity :: nat
  assumes new: "stands_for new []"
    and empty: "stands_for c bs \<Longrightarrow> empty c \<longleftrightarrow> bs = []"
    and all_true: "stands_for c bs \<Longrightarrow> all_true c \<longleftrightarrow> False \<notin> set bs"
    and push_back: "stands_for c bs \<Longrightarrow> length bs < capacity \<Longrightarrow> stands_for (push_back f c) (f # bs)"
    and pop_back: "stands_for c (b # bs) \<Longrightarrow> \<exists>c'. pop_back c = Some c' \<and> stands_for c' bs"
    and pop_empty: "stands_for c [] \<Longrightarrow> pop_back c = None"
    and toggle_top: "stands_for c (b # bs) \<Longrightarrow> \<exists>c'. toggle_top c = Some c' \<and> stands_for c' ((\<not> b) # bs)"
    and toggle_empty: "stands_for c [] \<Longrightarrow> toggle_top c = None"
begin

fun run :: "cond_op list \<Rightarrow> 'c \<Rightarrow> 'c option" where
  "run [] c = Some c"
| "run (Push f # ops) c = run ops (push_back f c)"
| "run (Pop # ops) c = Option.bind (pop_back c) (run ops)"
| "run (Toggle # ops) c = Option.bind (toggle_top c) (run ops)"

end

fun bool_run :: "cond_op list \<Rightarrow> bool list \<Rightarrow> bool list option" where
  "bool_run [] bs = Some bs"
| "bool_run (Push f # ops) bs = bool_run ops (f # bs)"
| "bool_run (Pop # ops) [] = None"
| "bool_run (Pop # ops) (b # bs) = bool_run ops bs"
| "bool_run (Toggle # ops) [] = None"
| "bool_run (Toggle # ops) (b # bs) = bool_run ops ((\<not> b) # bs)"

context condition_stack
begin

lemma run_stands_for:
  "stands_for c bs \<Longrightarrow> length bs + length ops \<le> capacity \<Longrightarrow>
   rel_option stands_for (run ops c) (bool_run ops bs)"
proof (induction ops bs arbitrary: c rule: bool_run.induct)
  case (2 f ops bs)
  then show ?case using push_back [OF 2(2), of f] by simp
next
  case (4 ops b bs)
  then show ?case using pop_back [OF 4(2)] by auto
next
  case (6 ops b bs)
  then show ?case using toggle_top [OF 6(2)] by auto
qed (simp_all add: pop_empty toggle_empty)

end

text \<open>The interpreter's representation: the size and the position, from the bottom, of the first false.\<close>

definition cs_stands_for :: "ConditionStack \<Rightarrow> bool list \<Rightarrow> bool" where
  "cs_stands_for cs bs \<longleftrightarrow> length bs < 2 ^ 32 \<and> m_stack_size cs = of_nat (length bs) \<and>
     m_first_false_pos cs = (if False \<notin> set bs then NO_FALSE else of_nat (length (takeWhile id (rev bs))))"

lemma first_false_less: "False \<in> set bs \<Longrightarrow> length (takeWhile id (rev bs)) < length bs"
proof -
  assume "False \<in> set bs"
  then have "takeWhile id (rev bs) \<noteq> rev bs" by (force simp: takeWhile_eq_all_conv)
  then show ?thesis by (metis length_rev length_takeWhile_le le_neq_implies_less takeWhile_eq_take take_all_iff order_refl)
qed

lemma first_false_Cons:
  "takeWhile id (rev (b # bs)) = (if False \<notin> set bs then rev bs @ (if b then [True] else []) else takeWhile id (rev bs))"
proof (cases "False \<in> set bs")
  case True
  then have "takeWhile id (rev bs @ [b]) = takeWhile id (rev bs)" by (intro takeWhile_append1 [of False]) simp_all
  then show ?thesis using True by simp
next
  case False
  then have "takeWhile id (rev bs @ [b]) = rev bs @ takeWhile id [b]" 
    by (intro takeWhile_append2) (metis (full_types) id_apply set_rev)
  then show ?thesis using False by simp
qed

lemma of_nat_NO_FALSE: "n < 2 ^ 32 - 1 \<Longrightarrow> (of_nat n :: uint32) \<noteq> NO_FALSE"
proof
  assume "n < 2 ^ 32 - 1" and "(of_nat n :: uint32) = NO_FALSE"
  then have "unat (of_nat n :: uint32) = unat NO_FALSE" and "n < 2 ^ LENGTH(32)" by simp_all
  then show False using \<open>n < 2 ^ 32 - 1\<close> by (simp add: unat_of_nat_small NO_FALSE_def)
qed

lemma of_nat_eq_32: "m < 2 ^ 32 \<Longrightarrow> n < 2 ^ 32 \<Longrightarrow> (of_nat m :: uint32) = of_nat n \<longleftrightarrow> m = n"
proof -
  assume "m < 2 ^ 32" and "n < 2 ^ 32"
  then have "unat (of_nat m :: uint32) = m" "unat (of_nat n :: uint32) = n"
    using unat_of_nat_small [of m, where ?'a = 32] unat_of_nat_small [of n, where ?'a = 32] by simp_all
  then show ?thesis by metis
qed

lemma cs_all_true_stands_for: "cs_stands_for cs bs \<Longrightarrow> cs_all_true cs \<longleftrightarrow> False \<notin> set bs"
  using first_false_less [of bs] of_nat_NO_FALSE [of "length (takeWhile id (rev bs))"]
  by (auto simp: cs_stands_for_def cs_all_true_def split: if_splits)

lemma cs_push_stands_for:
  assumes "cs_stands_for cs bs" and "length bs < 2 ^ 32 - 1"
  shows "cs_stands_for (cs_push_back f cs) (f # bs)"
proof -
  have e: "m_first_false_pos cs = NO_FALSE \<longleftrightarrow> False \<notin> set bs"
    using cs_all_true_stands_for [OF assms(1)] by (simp add: cs_all_true_def)
  have l: "length (f # bs) < 2 ^ 32" using assms(2) by simp
  have n: "m_stack_size cs + 1 = of_nat (length (f # bs))" using assms(1) by (simp add: cs_stands_for_def)
  have s: "m_stack_size cs = of_nat (length bs)" using assms(1) by (simp add: cs_stands_for_def)
  show ?thesis
  proof (cases "False \<notin> set bs")
    case True
    then have "m_first_false_pos cs = NO_FALSE" using e by simp
    then show ?thesis unfolding cs_stands_for_def cs_push_back_def first_false_Cons n using True l s
      by (simp only: ConditionStack.select_convs) auto
  next
    case False
    then have "m_first_false_pos cs = of_nat (length (takeWhile id (rev bs)))" "m_first_false_pos cs \<noteq> NO_FALSE"
      using assms(1) e by (simp_all only: cs_stands_for_def if_False simp_thms)
    then show ?thesis unfolding cs_stands_for_def cs_push_back_def first_false_Cons n using False l
      by (simp only: ConditionStack.select_convs) auto
  qed
qed

text \<open>What the representation says when the stack is not empty.\<close>

lemma cs_stands_for_Cons:
  assumes "cs_stands_for cs (b # bs)"
  shows "length bs < 2 ^ 32 - 1" and "m_stack_size cs > 0" and "m_stack_size cs - 1 = of_nat (length bs)"
    and "m_first_false_pos cs = (if False \<notin> set bs then if b then NO_FALSE else of_nat (length bs)
           else of_nat (length (takeWhile id (rev bs))))"
    and "m_first_false_pos cs = of_nat (length bs) \<longleftrightarrow> False \<notin> set bs \<and> \<not> b"
    and "m_first_false_pos cs = NO_FALSE \<longleftrightarrow> False \<notin> set bs \<and> b"
proof -
  show l: "length bs < 2 ^ 32 - 1" using assms by (simp add: cs_stands_for_def)
  have s: "m_stack_size cs = of_nat (length (b # bs))" using assms by (simp add: cs_stands_for_def)
  have "length (b # bs) < 2 ^ 32" using l by simp
  then have "m_stack_size cs \<noteq> 0" using of_nat_eq_32 [of "length (b # bs)" 0] unfolding s by simp_all
  then show "m_stack_size cs > 0" by (simp only: word_neq_0_conv)
  show "m_stack_size cs - 1 = of_nat (length bs)" unfolding s by simp
  show f: "m_first_false_pos cs = (if False \<notin> set bs then if b then NO_FALSE else of_nat (length bs)
      else of_nat (length (takeWhile id (rev bs))))"
    using assms unfolding cs_stands_for_def first_false_Cons by (cases b) auto
  show "m_first_false_pos cs = NO_FALSE \<longleftrightarrow> False \<notin> set bs \<and> b"
    using cs_all_true_stands_for [OF assms] by (auto simp: cs_all_true_def)
  show "m_first_false_pos cs = of_nat (length bs) \<longleftrightarrow> False \<notin> set bs \<and> \<not> b"
  proof (cases "False \<notin> set bs")
    case True
    then show ?thesis using of_nat_NO_FALSE [OF l] f by (cases b) (simp_all only: if_True if_False simp_thms)
  next
    case False
    then have "length (takeWhile id (rev bs)) < length bs" by (intro first_false_less) simp
    then have "(of_nat (length (takeWhile id (rev bs))) :: uint32) \<noteq> of_nat (length bs)"
      using of_nat_eq_32 [of "length (takeWhile id (rev bs))" "length bs"] l by linarith
    then show ?thesis using False f by (simp only: if_False simp_thms)
  qed
qed

lemma cs_pop_stands_for:
  assumes "cs_stands_for cs (b # bs)"
  shows "\<exists>cs'. cs_pop_back cs = Some cs' \<and> cs_stands_for cs' bs"
proof -
  note c = cs_stands_for_Cons [OF assms]
  have l: "length bs < 2 ^ 32" using c(1) by simp
  have "cs_pop_back cs = Some \<lparr>m_stack_size = of_nat (length bs),
      m_first_false_pos = (if False \<notin> set bs \<and> \<not> b then NO_FALSE else m_first_false_pos cs)\<rparr>"
    unfolding cs_pop_back_def Let_def c(3) c(5) using c(2) by (simp only: if_True)
  then show ?thesis using l c(4) unfolding cs_stands_for_def by (cases b) (auto simp del: of_nat_numeral)
qed

lemma cs_toggle_stands_for:
  assumes "cs_stands_for cs (b # bs)"
  shows "\<exists>cs'. cs_toggle_top cs = Some cs' \<and> cs_stands_for cs' ((\<not> b) # bs)"
proof -
  note c = cs_stands_for_Cons [OF assms]
  have l: "length (b # bs) < 2 ^ 32" and s: "m_stack_size cs = of_nat (length (b # bs))"
    using assms by (simp_all only: cs_stands_for_def)
  define cs' where "cs' = (if False \<notin> set bs then if b then cs\<lparr>m_first_false_pos := of_nat (length bs)\<rparr>
      else cs\<lparr>m_first_false_pos := NO_FALSE\<rparr> else cs)"
  have "cs_toggle_top cs = Some cs'"
    unfolding cs_toggle_top_def c(3) c(5) c(6) cs'_def using c(2) by (simp only: if_True) (cases b; simp)
  moreover have "cs_stands_for cs' ((\<not> b) # bs)"
    using l s c(4) unfolding cs_stands_for_def first_false_Cons cs'_def by (cases b) auto
  ultimately show ?thesis by blast
qed

interpretation cs: condition_stack ConditionStack_new cs_empty cs_all_true cs_push_back cs_pop_back cs_toggle_top
  cs_stands_for "2 ^ 32 - 1"
proof unfold_locales
  show "cs_stands_for ConditionStack_new []" by (simp add: cs_stands_for_def ConditionStack_new_def)
next
  fix c bs assume "cs_stands_for c bs"
  then have l: "length bs < 2 ^ 32" and n: "m_stack_size c = of_nat (length bs)" by (simp_all only: cs_stands_for_def)
  have "(of_nat (length bs) :: uint32) = of_nat 0 \<longleftrightarrow> length bs = 0" by (rule of_nat_eq_32 [OF l]) simp
  then show "cs_empty c \<longleftrightarrow> bs = []" unfolding cs_empty_def n by (simp only: semiring_1_class.of_nat_0 length_0_conv)
next
  fix c assume "cs_stands_for c []"
  then show "cs_pop_back c = None" "cs_toggle_top c = None" by (simp_all add: cs_pop_back_def cs_toggle_top_def cs_stands_for_def)
qed (fact cs_all_true_stands_for cs_push_stands_for cs_pop_stands_for cs_toggle_stands_for)+

section \<open>Opcode ranges\<close>

lemma numeric_range:
  assumes "OP_BOOLAND \<le> opcode" and "opcode \<le> OP_MAX"
  shows "opcode \<in> {OP_BOOLAND, OP_BOOLOR, OP_NUMEQUAL, OP_NUMEQUALVERIFY, OP_NUMNOTEQUAL, OP_LESSTHAN,
    OP_GREATERTHAN, OP_LESSTHANOREQUAL, OP_GREATERTHANOREQUAL, OP_MIN, OP_MAX}"
proof -
  have "154 \<le> unat opcode" "unat opcode \<le> 164" using assms by (simp_all add: word_le_nat_alt)
  then show ?thesis by (simp add: word_unat_eq_iff) arith
qed

section \<open>Safe results\<close>

text \<open>A result is safe for \<open>P\<close> when no assertion failed and a value that was returned satisfies \<open>P\<close>.\<close>

definition safe :: "('a \<Rightarrow> bool) \<Rightarrow> 'a script_result \<Rightarrow> bool" where
  "safe P r = (case r of Inl e \<Rightarrow> e \<noteq> Aborts | Inr x \<Rightarrow> P x)"

named_theorems safe_intros \<open>rules that establish a safe result\<close>

lemma safe_simps [simp]: "safe P (Inr x) \<longleftrightarrow> P x" "safe P (Inl (Fails e))" "\<not> safe P (Inl Aborts)"
  by (simp_all add: safe_def)

lemma safe_bind [safe_intros]: "safe P r \<Longrightarrow> (\<And>x. P x \<Longrightarrow> safe Q (f x)) \<Longrightarrow> safe Q (bind_script r f)"
  by (cases r) (simp_all add: safe_def bind_script_def)

lemma safe_mono: "safe P r \<Longrightarrow> (\<And>x. P x \<Longrightarrow> Q x) \<Longrightarrow> safe Q r"
  by (auto simp: safe_def split: sum.splits)

lemma safe_asserted: "x \<noteq> None \<Longrightarrow> safe (\<lambda>y. x = Some y) (asserted x)"
  by (auto simp: asserted_def)

section \<open>Numbers\<close>

lemma CScriptNum_bound: "CScriptNum vch m n = Some v \<Longrightarrow> n \<le> 8 \<Longrightarrow> \<bar>v\<bar> < 2 ^ (8 * n - 1)"
proof (cases "vch = []")
  case False
  assume "CScriptNum vch m n = Some v" and n: "n \<le> 8"
  then have l: "length vch \<le> n" and v: "v = set_vch vch" by (auto simp: CScriptNum_def split: if_splits)
  have "int (magnitude vch) < int (2 ^ (8 * length vch - 1))" using magnitude_less [OF False] by (simp only: of_nat_less_iff)
  also have "\<dots> \<le> int (2 ^ (8 * n - 1))" using l by (simp only: of_nat_le_iff) (intro power_increasing, simp_all)
  finally show ?thesis using set_vch_sign_magnitude [of vch] l n v False by simp
qed (auto simp: CScriptNum_def set_vch_def split: if_splits)

lemma safe_stack_num [safe_intros]: "safe (\<lambda>v. \<bar>v\<bar> < 2 ^ 31) (stack_num X vch 4)" "safe (\<lambda>v. \<bar>v\<bar> < 2 ^ 39) (stack_num X vch 5)"
  using CScriptNum_bound [of vch _ 4] CScriptNum_bound [of vch _ 5] by (auto simp: stack_num_def split: option.splits)

section \<open>Sizes\<close>

definition well_sized :: "valtype list \<Rightarrow> bool" where
  "well_sized xs \<longleftrightarrow> (\<forall>x\<in>set xs. length x \<le> MAX_SCRIPT_ELEMENT_SIZE)"

lemma well_sized_simps [simp]:
  "well_sized []" "well_sized (x # xs) \<longleftrightarrow> length x \<le> MAX_SCRIPT_ELEMENT_SIZE \<and> well_sized xs"
  "well_sized (xs @ ys) \<longleftrightarrow> well_sized xs \<and> well_sized ys"
  by (auto simp: well_sized_def)

lemma well_sized_drop [simp]: "well_sized xs \<Longrightarrow> well_sized (drop n xs)" "well_sized xs \<Longrightarrow> well_sized (take n xs)"
  by (auto simp: well_sized_def dest: in_set_dropD in_set_takeD)

lemma well_sized_nth [simp]: "well_sized xs \<Longrightarrow> i < length xs \<Longrightarrow> length (xs ! i) \<le> MAX_SCRIPT_ELEMENT_SIZE"
  by (auto simp: well_sized_def)

lemma length_num_serialize: "\<bar>v\<bar> < 2 ^ 39 \<Longrightarrow> length (num_serialize v) \<le> MAX_SCRIPT_ELEMENT_SIZE"
  using num_serialize_length [of v 5] by (simp add: MAX_SCRIPT_ELEMENT_SIZE_def)

lemma length_vch_bool [simp]: "length (vch_bool b) \<le> MAX_SCRIPT_ELEMENT_SIZE"
  by (simp add: vch_bool_def vchTrue_def vchFalse_def MAX_SCRIPT_ELEMENT_SIZE_def)

lemma hash_fun_digest:
  "hash_fun opcode vch =
     (if opcode = OP_RIPEMD160 then ripemd160_digest vch else if opcode = OP_SHA1 then sha1_digest vch
      else if opcode = OP_SHA256 then sha256_digest vch else if opcode = OP_HASH160 then hash160 vch
      else sha256_digest (sha256_digest vch))"
  using CRIPEMD160_digest [of "[vch]"] CSHA1_digest [of "[vch]"] CHash160_digest [of "[vch]"] CHash256_digest [of "[vch]"]
    Finalize_digest(1) [OF written_Write [OF written_new], of vch]
  by (simp add: hash_fun_def)

lemma length_hash_fun [simp]: "length (hash_fun opcode vch) \<le> MAX_SCRIPT_ELEMENT_SIZE"
  by (simp add: hash_fun_digest length_sha256_digest MAX_SCRIPT_ELEMENT_SIZE_def)

section \<open>The invariant\<close>

text \<open>A checker whose own assertions hold, and which leaves the weight budget initialised.\<close>

definition tame_checker :: "checker \<Rightarrow> bool" where
  "tame_checker C \<longleftrightarrow>
     (\<forall>a b c d. safe (\<lambda>_. True) (CheckECDSASignature C a b c d)) \<and>
     (\<forall>e a b v ed. safe (\<lambda>ed'. m_validation_weight_left_init ed' = m_validation_weight_left_init ed)
        (CheckSchnorrSignature C e a b v ed)) \<and>
     (\<forall>a b c d v. safe (\<lambda>_. True) (CheckSPHINCSSignature C a b c d v)) \<and>
     (\<forall>a b d v n. safe (\<lambda>_. True) (CheckPQCSignature C a b d v n)) \<and>
     (\<forall>n. safe (\<lambda>_. True) (CheckLockTime C n)) \<and> (\<forall>n. safe (\<lambda>_. True) (CheckSequence C n))"

definition tame_ctx :: "eval_ctx \<Rightarrow> bool" where
  "tame_ctx X \<longleftrightarrow> ctx_sigversion X \<noteq> TAPROOT \<and> tame_checker (ctx_checker X)"

definition sized :: "eval_ctx \<Rightarrow> eval_state \<Rightarrow> bool" where
  "sized X st \<longleftrightarrow> well_sized (stk st) \<and> well_sized (altstk st) \<and>
     (ctx_sigversion X = TAPSCRIPT \<longrightarrow> m_validation_weight_left_init (execdata st))"

text \<open>A segregated witness may hand over a longer stack than a script may build; \<open>n\<close> bounds both.\<close>

definition limited :: "nat \<Rightarrow> eval_ctx \<Rightarrow> eval_state \<Rightarrow> bool" where
  "limited n X st \<longleftrightarrow> sized X st \<and> length (stk st) + length (altstk st) \<le> n \<and> MAX_STACK_SIZE \<le> n \<and> n < 2 ^ 39"

lemma safe_checker:
  assumes "tame_ctx X"
  shows "safe (\<lambda>_. True) (CheckECDSASignature (ctx_checker X) a b c d)"
    "safe (\<lambda>ed'. m_validation_weight_left_init ed' = m_validation_weight_left_init ed)
       (CheckSchnorrSignature (ctx_checker X) e a b v ed)"
    "safe (\<lambda>_. True) (CheckLockTime (ctx_checker X) n)" "safe (\<lambda>_. True) (CheckSequence (ctx_checker X) n)"
    "safe (\<lambda>_. True) (CheckSPHINCSSignature (ctx_checker X) a b vchSig c v)" "safe (\<lambda>_. True) (CheckPQCSignature (ctx_checker X) a b c v h)"
  using assms by (auto simp: tame_ctx_def tame_checker_def)

lemma safe_encoding [safe_intros]:
  "safe (\<lambda>_. True) (CheckSignatureEncoding P flags vchSig)" "safe (\<lambda>_. True) (CheckPubKeyEncoding flags v vchPubKey)"
  by (auto simp: CheckSignatureEncoding_def CheckPubKeyEncoding_def IsLowDERSignature_def)

section \<open>Every instruction preserves it\<close>

lemma safe_locktime:
  "tame_ctx X \<Longrightarrow> limited N X st \<Longrightarrow> safe (sized X) (op_checklocktimeverify X st)"
  "tame_ctx X \<Longrightarrow> limited N X st \<Longrightarrow> safe (sized X) (op_checksequenceverify X st)"
  by (auto simp: op_checklocktimeverify_def op_checksequenceverify_def limited_def intro!: safe_intros safe_checker)

lemma safe_branches:
  "limited N X st \<Longrightarrow> safe (sized X) (op_if X fExec opcode st)"
  "limited N X st \<Longrightarrow> safe (sized X) (op_else st)" "limited N X st \<Longrightarrow> safe (sized X) (op_endif st)"
  by (auto simp: op_if_def op_else_def op_endif_def limited_def sized_def Let_def cs_empty_def word_gt_0 cs_toggle_top_def
      cs_pop_back_def intro!: safe_bind [OF safe_asserted])

lemma safe_alt:
  "limited N X st \<Longrightarrow> safe (sized X) (op_verify st)" "limited N X st \<Longrightarrow> safe (sized X) (op_toaltstack st)"
  "limited N X st \<Longrightarrow> safe (sized X) (op_fromaltstack st)"
  by (auto simp: op_verify_def op_toaltstack_def op_fromaltstack_def limited_def sized_def)

lemma stack_fun_sized:
  assumes "stack_fun opcode = Some (n, f)" and "n \<le> length xs" and "well_sized xs" and "length xs < 2 ^ 39"
  shows "well_sized (f xs)"
proof -
  have "length (num_serialize (int (length xs))) \<le> MAX_SCRIPT_ELEMENT_SIZE"
    using assms(4) by (intro length_num_serialize) simp
  moreover have "length (num_serialize (int (length (xs ! 0)))) \<le> MAX_SCRIPT_ELEMENT_SIZE" if "0 < length xs"
    using well_sized_nth [OF assms(3), of 0] that by (intro length_num_serialize) (simp add: MAX_SCRIPT_ELEMENT_SIZE_def)
  moreover note well_sized_nth [OF assms(3), intro]
  ultimately show ?thesis using assms(1-3) unfolding stack_fun_def by (auto simp del: length_greater_0_conv split: if_splits)
qed

lemma safe_stack: "limited N X st \<Longrightarrow> stack_fun opcode = Some nf \<Longrightarrow> safe (sized X) (op_stack nf st)"
  using stack_fun_sized [of opcode "fst nf" "snd nf" "stk st"] by (auto simp: op_stack_def limited_def sized_def)

lemma safe_pick_roll: "limited N X st \<Longrightarrow> safe (sized X) (op_pick_roll X opcode st)"
  by (auto simp: op_pick_roll_def limited_def sized_def Let_def intro!: safe_intros)

lemma safe_equal: "limited N X st \<Longrightarrow> safe (sized X) (op_equal opcode st)"
  by (auto simp: op_equal_def limited_def sized_def Let_def)

lemma unary_num_bound:
  "\<bar>bn\<bar> < 2 ^ 31 \<Longrightarrow> opcode \<in> {OP_1ADD, OP_1SUB, OP_NEGATE, OP_ABS, OP_NOT, OP_0NOTEQUAL} \<Longrightarrow>
   \<exists>v. unary_num opcode bn = Some v \<and> \<bar>v\<bar> < 2 ^ 39"
  by (auto simp: unary_num_def num_add_assign_def num_sub_assign_def num_neg_def int64_min_def int64_max_def int_of_bool_def)

lemma safe_unary:
  assumes "limited N X st" and "opcode \<in> {OP_1ADD, OP_1SUB, OP_NEGATE, OP_ABS, OP_NOT, OP_0NOTEQUAL}"
  shows "safe (sized X) (op_unary X opcode st)"
proof -
  have "safe (sized X) (bind_script (asserted (unary_num opcode bn)) (\<lambda>v. Inr (st\<lparr>stk := num_serialize v # drop 1 (stk st)\<rparr>)))"
    if "\<bar>bn\<bar> < 2 ^ 31" for bn
    using unary_num_bound [OF that assms(2)] assms(1) length_num_serialize
    by (auto simp: asserted_def bind_script_def limited_def sized_def)
  then show ?thesis unfolding op_unary_def by (auto intro!: safe_bind [OF safe_stack_num(1)] simp del: One_nat_def)
qed

lemma binary_num_bound:
  "\<bar>a\<bar> < 2 ^ 31 \<Longrightarrow> \<bar>b\<bar> < 2 ^ 31 \<Longrightarrow> opcode = OP_ADD \<or> opcode = OP_SUB \<or> (OP_BOOLAND \<le> opcode \<and> opcode \<le> OP_MAX) \<Longrightarrow>
   \<exists>v. binary_num opcode a b = Some v \<and> \<bar>v\<bar> < 2 ^ 39"
proof -
  assume ab: "\<bar>a\<bar> < 2 ^ 31" "\<bar>b\<bar> < 2 ^ 31" and o: "opcode = OP_ADD \<or> opcode = OP_SUB \<or> (OP_BOOLAND \<le> opcode \<and> opcode \<le> OP_MAX)"
  have "\<bar>v\<bar> < 2 ^ 39" if "binary_num opcode a b = Some v" for v
    using ab that by (auto simp: binary_num_def int_of_bool_def split: if_splits)
  moreover have "binary_num opcode a b \<noteq> None"
  proof -
    have "opcode \<in> {OP_ADD, OP_SUB, OP_BOOLAND, OP_BOOLOR, OP_NUMEQUAL, OP_NUMEQUALVERIFY, OP_NUMNOTEQUAL, OP_LESSTHAN,
        OP_GREATERTHAN, OP_LESSTHANOREQUAL, OP_GREATERTHANOREQUAL, OP_MIN, OP_MAX}"
      using o numeric_range [of opcode] by blast
    then show ?thesis by (auto simp: binary_num_def)
  qed
  ultimately show ?thesis by blast
qed

lemma safe_binary:
  assumes "limited N X st" and "opcode = OP_ADD \<or> opcode = OP_SUB \<or> (OP_BOOLAND \<le> opcode \<and> opcode \<le> OP_MAX)"
  shows "safe (sized X) (op_binary X opcode st)"
proof -
  have "safe (sized X) (bind_script (asserted (binary_num opcode a b)) (\<lambda>bn.
      let vch = num_serialize bn; r = drop 2 (stk st) in
      if opcode = OP_NUMEQUALVERIFY
      then if CastToBool vch then Inr (st\<lparr>stk := r\<rparr>) else fails SCRIPT_ERR_NUMEQUALVERIFY
      else Inr (st\<lparr>stk := vch # r\<rparr>)))"
    if "\<bar>a\<bar> < 2 ^ 31" "\<bar>b\<bar> < 2 ^ 31" for a b
    using binary_num_bound [OF that assms(2)] assms(1) length_num_serialize
    by (auto simp: asserted_def bind_script_def limited_def sized_def Let_def)
  then show ?thesis unfolding op_binary_def by (auto intro!: safe_bind [OF safe_stack_num(1)])
qed

lemma safe_within: "limited N X st \<Longrightarrow> safe (sized X) (op_within X st)"
  by (auto simp: op_within_def limited_def sized_def intro!: safe_bind [OF safe_stack_num(1)])

lemma safe_hash: "limited N X st \<Longrightarrow> safe (sized X) (op_hash opcode st)"
  by (auto simp: op_hash_def limited_def sized_def)

lemma safe_codeseparator: "limited N X st \<Longrightarrow> safe (sized X) (op_codeseparator pc st)"
  by (auto simp: op_codeseparator_def limited_def sized_def)

subsection \<open>Signatures\<close>

lemma safe_EvalChecksigPreTapscript:
  "tame_ctx X \<Longrightarrow> pre_tapscript (ctx_sigversion X) \<Longrightarrow> safe (\<lambda>_. True) (EvalChecksigPreTapscript X vchSig vchPubKey sc)"
  by (auto simp: EvalChecksigPreTapscript_def split: prod.splits intro!: safe_bind [OF safe_encoding(1)]
      safe_bind [OF safe_encoding(2)] safe_bind [OF safe_checker(1)])

lemma safe_EvalChecksigTapscript:
  assumes "tame_ctx X" and "ctx_sigversion X = TAPSCRIPT" and "m_validation_weight_left_init ed"
  shows "safe (\<lambda>(b, ed'). m_validation_weight_left_init ed') (EvalChecksigTapscript X sig pubkey ed)"
proof -
  have "safe m_validation_weight_left_init (spend_weight sig ed)"
    using assms(3) by (simp add: spend_weight_def Let_def)
  then show ?thesis unfolding EvalChecksigTapscript_def Let_def using assms(2)
    by (auto elim!: safe_bind intro!: safe_bind [OF safe_checker(2) [OF assms(1)]])
qed

lemma safe_EvalChecksig:
  assumes "tame_ctx X" and "ctx_sigversion X = TAPSCRIPT \<Longrightarrow> m_validation_weight_left_init ed"
  shows "safe (\<lambda>(b, ed'). ctx_sigversion X = TAPSCRIPT \<longrightarrow> m_validation_weight_left_init ed') (EvalChecksig X sig pubkey sc ed)"
proof (cases "ctx_sigversion X")
  case TAPSCRIPT
  then show ?thesis using safe_EvalChecksigTapscript [OF assms(1), of ed] assms(2) by (simp add: EvalChecksig_def)
qed (use assms(1) safe_EvalChecksigPreTapscript [OF assms(1), of sig pubkey sc] in
    \<open>auto simp: EvalChecksig_def tame_ctx_def elim!: safe_bind\<close>)

lemma safe_checksig: "tame_ctx X \<Longrightarrow> limited N X st \<Longrightarrow> safe (sized X) (op_checksig X opcode st)"
  by (auto simp: op_checksig_def limited_def sized_def Let_def intro!: safe_bind [OF safe_EvalChecksig])

lemma safe_checksigadd: "tame_ctx X \<Longrightarrow> limited N X st \<Longrightarrow> safe (sized X) (op_checksigadd X st)"
  by (auto simp: op_checksigadd_def limited_def sized_def int_of_bool_def
      intro!: safe_bind [OF safe_stack_num(1)] safe_bind [OF safe_EvalChecksig] length_num_serialize)

lemma safe_drop_signatures: "safe (\<lambda>_. True) (drop_signatures X sigs scriptCode)"
  by (induction X sigs scriptCode rule: drop_signatures.induct) (auto split: prod.splits)

lemma safe_multisig_loop: "tame_ctx X \<Longrightarrow> safe (\<lambda>_. True) (multisig_loop X scriptCode sigs keys)"
  by (induction X scriptCode sigs keys rule: multisig_loop.induct)
    (auto simp: Let_def intro!: safe_bind [OF safe_encoding(1)] safe_bind [OF safe_encoding(2)] safe_bind [OF safe_checker(1)])

lemma safe_multisig_cleanup: "well_sized xs \<Longrightarrow> safe well_sized (multisig_cleanup nr i ikey2 xs)"
  by (induction nr i ikey2 xs rule: multisig_cleanup.induct) auto

lemma safe_multisig_finish: "sized X st \<Longrightarrow> well_sized xs \<Longrightarrow> safe (sized X) (multisig_finish X opcode b xs st)"
  by (auto simp: multisig_finish_def sized_def Let_def)

lemma safe_checkmultisig: "tame_ctx X \<Longrightarrow> limited N X st \<Longrightarrow> safe (sized X) (op_checkmultisig X opcode st)"
  unfolding op_checkmultisig_def Let_def
  by (auto simp: limited_def sized_def intro!: safe_bind [OF safe_stack_num(1)] safe_bind [OF safe_drop_signatures]
      safe_bind [OF safe_multisig_loop] safe_bind [OF safe_multisig_cleanup] safe_multisig_finish)

section \<open>The whole evaluation\<close>

lemma small_int_push: "OP_1 \<le> opcode \<Longrightarrow> opcode \<le> OP_16 \<Longrightarrow> \<bar>int (unat opcode) - 0x50\<bar> < 2 ^ 39"
proof -
  assume "OP_1 \<le> opcode" "opcode \<le> OP_16"
  then have "81 \<le> unat opcode" "unat opcode \<le> 96" by (simp_all add: word_le_nat_alt)
  then have "\<bar>int (unat opcode) - 0x50\<bar> \<le> 16" by linarith
  also have "\<dots> < 2 ^ 39" by simp
  finally show ?thesis .
qed

lemma safe_exec_opcode:
  assumes "tame_ctx X" and "limited N X st"
  shows "safe (sized X) (exec_opcode X fExec opcode pc st)"
proof -
  have "length (num_serialize (int (unat opcode) - 0x50)) \<le> MAX_SCRIPT_ELEMENT_SIZE"
    if "opcode = OP_1NEGATE \<or> (OP_1 \<le> opcode \<and> opcode \<le> OP_16)"
    using that small_int_push [of opcode] by (intro length_num_serialize) auto
  then have "sized X (st\<lparr>stk := num_serialize (int (unat opcode) - 0x50) # stk st\<rparr>)"
    if "opcode = OP_1NEGATE \<or> (OP_1 \<le> opcode \<and> opcode \<le> OP_16)"
    using that assms(2) by (simp add: limited_def sized_def)
  moreover have "sized X st" using assms(2) by (simp add: limited_def)
  moreover have "safe (sized X) (op_stack (the (stack_fun opcode)) st)" if "stack_fun opcode \<noteq> None"
    using safe_stack [OF assms(2), of opcode] that by auto
  ultimately show ?thesis unfolding exec_opcode_def
    using safe_locktime [OF assms] safe_branches [OF assms(2)] safe_alt [OF assms(2)] safe_pick_roll [OF assms(2)]
      safe_equal [OF assms(2)] safe_unary [OF assms(2)] safe_binary [OF assms(2)] safe_within [OF assms(2)]
      safe_hash [OF assms(2)] safe_codeseparator [OF assms(2)] safe_checksig [OF assms] safe_checksigadd [OF assms]
      safe_checkmultisig [OF assms]
    by (simp only: safe_simps if_split simp_thms) blast
qed

lemma safe_exec_push:
  assumes "limited N X st" and "length vch \<le> MAX_SCRIPT_ELEMENT_SIZE" and "opcode \<le> OP_PUSHDATA4"
  shows "safe (sized X) (exec_push X opcode vch st)"
proof -
  have "CheckMinimalPush vch opcode \<noteq> None" using assms(3) by (simp add: CheckMinimalPush_def)
  then show ?thesis using assms(1,2) by (auto simp: exec_push_def limited_def sized_def asserted_def bind_script_def)
qed

lemma safe_eval_step:
  assumes "tame_ctx X" and "limited N X st"
  shows "safe (\<lambda>(pc', st'). limited N X st') (eval_step X pc st)"
proof -
  have l: "limited N X (st\<lparr>nOpCount := n\<rparr>)" for n using assms(2) by (simp add: limited_def sized_def)
  have t: "sized X st' \<Longrightarrow> safe (\<lambda>(pc', st'). limited N X st')
      (if length (stk st') + length (altstk st') > MAX_STACK_SIZE then fails SCRIPT_ERR_STACK_SIZE
       else Inr (pc', st'\<lparr>opcode_pos := opcode_pos st' + 1\<rparr>))" for st' pc'
    using assms(2) by (auto simp: limited_def sized_def)
  obtain ok pc' opcode vch where g: "GetScriptOp pc = (ok, pc', opcode, vch)" by (cases "GetScriptOp pc") auto
  define st1 where "st1 = (if pre_tapscript (ctx_sigversion X) \<and> opcode > OP_16 then st\<lparr>nOpCount := nOpCount st + 1\<rparr> else st)"
  have l1: "limited N X st1" using l assms(2) by (simp add: st1_def)
  have "safe (\<lambda>(pc', st'). limited N X st') (bind_script
      (if cs_all_true (vfExec st) \<and> opcode \<le> OP_PUSHDATA4 then exec_push X opcode vch st1
      else if cs_all_true (vfExec st) \<or> (OP_IF \<le> opcode \<and> opcode \<le> OP_ENDIF)
      then exec_opcode X (cs_all_true (vfExec st)) opcode pc' st1 else Inr st1)
      (\<lambda>st'. if length (stk st') + length (altstk st') > MAX_STACK_SIZE then fails SCRIPT_ERR_STACK_SIZE
        else Inr (pc', st'\<lparr>opcode_pos := opcode_pos st' + 1\<rparr>)))" if "length vch \<le> MAX_SCRIPT_ELEMENT_SIZE"
    using safe_exec_push [OF l1 that] safe_exec_opcode [OF assms(1) l1] l1
    by (intro safe_bind [where P = "sized X", OF _ t]) (simp_all add: limited_def)
  then show ?thesis unfolding eval_step_def g prod.case Let_def st1_def [symmetric]
    by (cases "length vch \<le> MAX_SCRIPT_ELEMENT_SIZE") (simp_all only: if_split safe_simps simp_thms not_le)
qed

lemma safe_eval_loop: "tame_ctx X \<Longrightarrow> limited N X st \<Longrightarrow> safe (limited N X) (eval_loop X pc st)"
proof (induction X pc st rule: eval_loop.induct)
  case (1 X pc st)
  note s = safe_eval_step [OF 1(2,3), of pc]
  show ?case
  proof (cases "eval_step X pc st")
    case (Inl e)
    then show ?thesis using s 1(3) by (subst eval_loop.simps) (simp add: safe_def)
  next
    case (Inr r)
    then obtain pc' st' where r: "eval_step X pc st = Inr (pc', st')" by (cases r) simp
    then have "pc \<noteq> [] \<Longrightarrow> safe (limited N X) (eval_loop X pc' st')" using s 1 by (simp add: safe_def)
    then show ?thesis using r 1(3) by (subst eval_loop.simps) simp
  qed
qed

lemma safe_EvalScript:
  assumes "tame_ctx X" and "well_sized stack" and "length stack \<le> n" and "MAX_STACK_SIZE \<le> n" and "n < 2 ^ 39"
    and "ctx_sigversion X = TAPSCRIPT \<Longrightarrow> m_validation_weight_left_init ed"
  shows "safe (\<lambda>(stack', ed'). well_sized stack' \<and> length stack' \<le> n) (EvalScript X stack sc ed)"
proof -
  have "limited n X (eval_start stack sc ed)" using assms(2-6) by (simp add: limited_def sized_def eval_start_def)
  then show ?thesis unfolding EvalScript_def using assms(1)
    by (auto simp: tame_ctx_def intro!: safe_bind [OF safe_eval_loop [OF assms(1)]]) (auto simp: limited_def sized_def)
qed

section \<open>The properties\<close>

text \<open>A sequence of operations on the interpreter's condition stack.\<close>

fun cs_run :: "cond_op list \<Rightarrow> ConditionStack \<Rightarrow> ConditionStack option" where
  "cs_run [] cs = Some cs"
| "cs_run (Push f # ops) cs = cs_run ops (cs_push_back f cs)"
| "cs_run (Pop # ops) cs = Option.bind (cs_pop_back cs) (cs_run ops)"
| "cs_run (Toggle # ops) cs = Option.bind (cs_toggle_top cs) (cs_run ops)"

lemma cs_run_eq: "cs_run ops c = cs.run ops c"
  by (induction ops c rule: cs_run.induct) (auto simp: Option.bind_eq_Some_conv split: Option.bind_splits)

text \<open>C14: The interpreter keeps the nesting of conditionals as two counters instead of a vector of
  booleans. For any sequence of at most 4294967295 operations the counters and the vector agree: an
  operation hits an assertion exactly when it needs an element that is not there, and otherwise
  \<open>all_true\<close> and \<open>empty\<close> answer what they would answer on the vector.\<close>

theorem condition_stack_refines_booleans:
  assumes "length ops \<le> 2 ^ 32 - 1"
  shows "(case bool_run ops [] of
            None \<Rightarrow> cs_run ops ConditionStack_new = None
          | Some bs \<Rightarrow> \<exists>c. cs_run ops ConditionStack_new = Some c \<and> (cs_all_true c \<longleftrightarrow> False \<notin> set bs) \<and> (cs_empty c \<longleftrightarrow> bs = []))"
proof -
  have "rel_option cs_stands_for (cs_run ops ConditionStack_new) (bool_run ops [])"
    using cs.run_stands_for [OF cs.new, of ops] assms by (simp add: cs_run_eq)
  then show ?thesis by (auto simp: rel_option_iff cs.all_true cs.empty split: option.splits)
qed

theorem condition_stack_refines_booleans_witness:
  "\<exists>c. cs_run [Push True, Push False, Toggle, Push False, Pop, Toggle] ConditionStack_new = Some c \<and> \<not> cs_all_true c \<and> \<not> cs_empty c"
  using condition_stack_refines_booleans [of "[Push True, Push False, Toggle, Push False, Pop, Toggle]"] by simp

text \<open>A checker that accepts everything and an interpreter run with it, for the examples.\<close>

definition accepting :: checker where
  "accepting = \<lparr>CheckECDSASignature = \<lambda>_ _ _ _. Inr True, CheckSchnorrSignature = \<lambda>_ _ _ _ ed. Inr ed,
     CheckSPHINCSSignature = \<lambda>_ _ _ _ _. Inr True, CheckPQCSignature = \<lambda>_ _ _ _ _. Inr True,
     CheckLockTime = \<lambda>_. Inr True, CheckSequence = \<lambda>_. Inr True\<rparr>"

definition accepting_ctx :: "SigVersion \<Rightarrow> uint32 \<Rightarrow> eval_ctx" where
  "accepting_ctx v flags = \<lparr>ctx_secp = \<lparr>CheckLowS = \<lambda>_. True, CheckTapTweak = \<lambda>_ _ _ _. True\<rparr>, ctx_flags = flags,
     ctx_checker = accepting, ctx_sigversion = v\<rparr>"

lemma accepting_ctx_simps [simp]:
  "ctx_sigversion (accepting_ctx v flags) = v" "ctx_flags (accepting_ctx v flags) = flags" "ctx_checker (accepting_ctx v flags) = accepting"
  by (simp_all add: accepting_ctx_def)

lemma tame_accepting [simp]: "v \<noteq> TAPROOT \<Longrightarrow> tame_ctx (accepting_ctx v flags)"
  by (simp add: tame_ctx_def tame_checker_def accepting_ctx_def accepting_def)

text \<open>C13: Running a script keeps the stack well formed: started on at most 1000 elements of at most
  520 bytes each, a script that succeeds leaves at most 1000 elements of at most 520 bytes each,
  whatever its instructions are.\<close>

theorem EvalScript_keeps_stack_limits:
  assumes "tame_ctx X" and "ctx_sigversion X = TAPSCRIPT \<longrightarrow> m_validation_weight_left_init ed"
    and "\<forall>x\<in>set stack. length x \<le> 520" and "length stack \<le> 1000"
    and "EvalScript X stack sc ed = Inr (stack', ed')"
  shows "(\<forall>x\<in>set stack'. length x \<le> 520) \<and> length stack' \<le> 1000"
  using safe_EvalScript [of X stack 1000 ed sc] assms
  by (simp add: well_sized_def MAX_STACK_SIZE_def MAX_SCRIPT_ELEMENT_SIZE_def)

lemma eval_example:
  "EvalScript (accepting_ctx WITNESS_V0 0) [[2]]
     [OP_DUP, OP_IF, OP_1ADD, OP_ELSE, OP_RETURN, OP_ENDIF, OP_DUP, OP_SIZE] ScriptExecutionData_new =
   Inr ([[1], [3], [3]], ScriptExecutionData_new\<lparr>m_codeseparator_pos := 0xFFFFFFFF, m_codeseparator_pos_init := True\<rparr>)"
  by code_simp

theorem EvalScript_keeps_stack_limits_witness:
  "case EvalScript (accepting_ctx WITNESS_V0 0) [[2]]
     [OP_DUP, OP_IF, OP_1ADD, OP_ELSE, OP_RETURN, OP_ENDIF, OP_DUP, OP_SIZE] ScriptExecutionData_new of
     Inl e \<Rightarrow> False | Inr (stack', ed') \<Rightarrow> list_all (\<lambda>x. length x \<le> 520) stack' \<and> length stack' \<le> 1000"
  using EvalScript_keeps_stack_limits [OF _ _ _ _ eval_example] by (simp add: eval_example)

text \<open>C12: No assertion of the interpreter can fail, whatever script it is given: with a checker whose
  own assertions hold, \<open>EvalScript\<close> returns, and it returns a stack or one of the script errors.\<close>

theorem EvalScript_never_aborts:
  assumes "tame_ctx X" and "ctx_sigversion X = TAPSCRIPT \<longrightarrow> m_validation_weight_left_init ed"
    and "\<forall>x\<in>set stack. length x \<le> 520" and "length stack < 2 ^ 39"
  shows "EvalScript X stack sc ed \<noteq> Inl Aborts"
  using safe_EvalScript [of X stack "2 ^ 39 - 1" ed sc] assms
  by (auto simp: well_sized_def MAX_STACK_SIZE_def MAX_SCRIPT_ELEMENT_SIZE_def safe_def split: sum.splits)

theorem EvalScript_never_aborts_witness:
  "EvalScript (accepting_ctx BASE 0) [[1]] [OP_IF, OP_1, OP_ELSE, OP_RETURN, OP_ENDIF, OP_ELSE] ScriptExecutionData_new \<noteq> Inl Aborts"
  by (rule EvalScript_never_aborts) simp_all

end
