(* ===== verification/Witness_Program.thy ===== *)
theory Witness_Program
  imports Script_Safety
begin

unbundle bit_operations_syntax

text \<open>
  Verifying an input: \<open>VerifyScript\<close>, \<open>VerifyWitnessProgram\<close> with the hybrid key-hash outputs, the
  Taproot commitment, and the signature operation count of a witness
  (\<^verbatim>\<open>src/src/script/interpreter.cpp\<close>). A witness is a list with its first element first; the stack of
  the interpreter has its top first, so it starts as the reversed witness.
\<close>

section \<open>Sizes of the post-quantum schemes\<close>

definition Dilithium_SIGNATURE_SIZE :: nat where "Dilithium_SIGNATURE_SIZE = 2420"
definition Dilithium_PUBLIC_KEY_SIZE :: nat where "Dilithium_PUBLIC_KEY_SIZE = 1312"
definition Falcon_SIGNATURE_SIZE :: nat where "Falcon_SIGNATURE_SIZE = 666"
definition Falcon_PUBLIC_KEY_SIZE :: nat where "Falcon_PUBLIC_KEY_SIZE = 897"
definition Falcon1024_SIGNATURE_SIZE :: nat where "Falcon1024_SIGNATURE_SIZE = 1280"
definition Falcon1024_PUBLIC_KEY_SIZE :: nat where "Falcon1024_PUBLIC_KEY_SIZE = 1793"
definition SPHINCS_SIGNATURE_SIZE :: nat where "SPHINCS_SIGNATURE_SIZE = 17088"
definition SPHINCS_PUBLIC_KEY_SIZE :: nat where "SPHINCS_PUBLIC_KEY_SIZE = 32"

definition is_dilithium :: "valtype \<Rightarrow> valtype \<Rightarrow> bool" where
  "is_dilithium pqc_sig pqc_pubkey \<longleftrightarrow>
     length pqc_sig = Dilithium_SIGNATURE_SIZE \<and> length pqc_pubkey = Dilithium_PUBLIC_KEY_SIZE"

definition is_sphincs :: "valtype \<Rightarrow> valtype \<Rightarrow> bool" where
  "is_sphincs pqc_sig pqc_pubkey \<longleftrightarrow>
     length pqc_sig = SPHINCS_SIGNATURE_SIZE \<and> length pqc_pubkey = SPHINCS_PUBLIC_KEY_SIZE"

definition is_falcon :: "valtype \<Rightarrow> valtype \<Rightarrow> bool" where
  "is_falcon pqc_sig pqc_pubkey \<longleftrightarrow>
     length pqc_sig = Falcon_SIGNATURE_SIZE \<and> length pqc_pubkey = Falcon_PUBLIC_KEY_SIZE"

definition is_falcon1024 :: "valtype \<Rightarrow> valtype \<Rightarrow> bool" where
  "is_falcon1024 pqc_sig pqc_pubkey \<longleftrightarrow>
     length pqc_sig = Falcon1024_SIGNATURE_SIZE \<and> length pqc_pubkey = Falcon1024_PUBLIC_KEY_SIZE"

section \<open>Running the script of a witness\<close>

text \<open>The scan for \<open>OP_SUCCESSx\<close>: whether it ends the verification with success.\<close>

function op_success_scan :: "uint32 \<Rightarrow> CScript \<Rightarrow> bool script_result" where
  "op_success_scan flags pc =
     (if pc = [] then Inr False
      else case GetScriptOp pc of (ok, pc', opcode, vch) \<Rightarrow>
        if \<not> ok then fails SCRIPT_ERR_BAD_OPCODE
        else if IsOpSuccess opcode
        then if has_flag flags SCRIPT_VERIFY_DISCOURAGE_OP_SUCCESS then fails SCRIPT_ERR_DISCOURAGE_OP_SUCCESS else Inr True
        else op_success_scan flags pc')"
  by auto
termination by (relation "measure (\<lambda>(flags, pc). length pc)") (auto dest: GetScriptOp_shorter [OF sym])

declare op_success_scan.simps [simp del]

definition with_version :: "SigVersion \<Rightarrow> eval_ctx \<Rightarrow> eval_ctx" where
  "with_version v X = X\<lparr>ctx_sigversion := v\<rparr>"

definition run_witness_script :: "eval_ctx \<Rightarrow> valtype list \<Rightarrow> CScript \<Rightarrow> ScriptExecutionData \<Rightarrow> unit script_result" where
  "run_witness_script X stack exec_script ed =
     (if (\<exists>elem\<in>set stack. length elem > MAX_SCRIPT_ELEMENT_SIZE) then fails SCRIPT_ERR_PUSH_SIZE
      else bind_script (EvalScript X (rev stack) exec_script ed) (\<lambda>(stack', ed').
        if length stack' \<noteq> 1 then fails SCRIPT_ERR_CLEANSTACK
        else if \<not> CastToBool (hd stack') then fails SCRIPT_ERR_EVAL_FALSE
        else Inr ()))"

definition ExecuteWitnessScript :: "eval_ctx \<Rightarrow> valtype list \<Rightarrow> CScript \<Rightarrow> ScriptExecutionData \<Rightarrow> unit script_result" where
  "ExecuteWitnessScript X stack exec_script ed =
     (if ctx_sigversion X = TAPSCRIPT
      then bind_script (op_success_scan (ctx_flags X) exec_script) (\<lambda>success.
        if success then Inr ()
        else if length stack > MAX_STACK_SIZE then fails SCRIPT_ERR_STACK_SIZE
        else run_witness_script X stack exec_script ed)
      else run_witness_script X stack exec_script ed)"

section \<open>Taproot\<close>

definition HashWriter_GetSHA256 :: "CSHA256 \<Rightarrow> uint8 list" where
  "HashWriter_GetSHA256 ctx = snd (Finalize ctx)"

definition TaggedHash :: "string \<Rightarrow> CSHA256" where
  "TaggedHash tag =
     (let taghash = snd (Finalize (Write CSHA256_new (map of_char tag)))
      in Write (Write CSHA256_new taghash) taghash)"

text \<open>A vector of bytes with its length in front, and a vector of such vectors.\<close>

definition vector_Serialize :: "valtype \<Rightarrow> uint8 list" where
  "vector_Serialize v = WriteCompactSize (of_nat (length v)) @ v"

definition stack_Serialize :: "valtype list \<Rightarrow> uint8 list" where
  "stack_Serialize vs = WriteCompactSize (of_nat (length vs)) @ concat (map vector_Serialize vs)"

definition ComputeTapleafHash :: "uint8 \<Rightarrow> CScript \<Rightarrow> valtype" where
  "ComputeTapleafHash leaf_version sc =
     HashWriter_GetSHA256 (Write (Write (Write (TaggedHash ''TapLeaf'') [leaf_version])
       (WriteCompactSize (of_nat (length sc)))) sc)"

fun lexicographical_compare :: "uint8 list \<Rightarrow> uint8 list \<Rightarrow> bool" where
  "lexicographical_compare xs [] = False"
| "lexicographical_compare [] (y # ys) = True"
| "lexicographical_compare (x # xs) (y # ys) = (if x < y then True else if y < x then False else lexicographical_compare xs ys)"

definition ComputeTapbranchHash :: "valtype \<Rightarrow> valtype \<Rightarrow> valtype" where
  "ComputeTapbranchHash a b =
     (let ss_branch = TaggedHash ''TapBranch'' in
      HashWriter_GetSHA256 (if lexicographical_compare a b then Write (Write ss_branch a) b else Write (Write ss_branch b) a))"

definition TAPROOT_LEAF_MASK :: uint8 where "TAPROOT_LEAF_MASK = 0xfe"
definition TAPROOT_LEAF_TAPSCRIPT :: uint8 where "TAPROOT_LEAF_TAPSCRIPT = 0xc0"
definition TAPROOT_CONTROL_BASE_SIZE :: nat where "TAPROOT_CONTROL_BASE_SIZE = 33"
definition TAPROOT_CONTROL_NODE_SIZE :: nat where "TAPROOT_CONTROL_NODE_SIZE = 32"
definition TAPROOT_CONTROL_MAX_NODE_COUNT :: nat where "TAPROOT_CONTROL_MAX_NODE_COUNT = 128"

definition TAPROOT_CONTROL_MAX_SIZE :: nat where
  "TAPROOT_CONTROL_MAX_SIZE = TAPROOT_CONTROL_BASE_SIZE + TAPROOT_CONTROL_NODE_SIZE * TAPROOT_CONTROL_MAX_NODE_COUNT"

definition control_size_ok :: "valtype \<Rightarrow> bool" where
  "control_size_ok control \<longleftrightarrow> length control \<ge> TAPROOT_CONTROL_BASE_SIZE \<and> length control \<le> TAPROOT_CONTROL_MAX_SIZE \<and>
     (length control - TAPROOT_CONTROL_BASE_SIZE) mod TAPROOT_CONTROL_NODE_SIZE = 0"

definition ComputeTaprootMerkleRoot :: "valtype \<Rightarrow> valtype \<Rightarrow> valtype option" where
  "ComputeTaprootMerkleRoot control tapleaf_hash =
     (if \<not> control_size_ok control then None
      else let path_len = (length control - TAPROOT_CONTROL_BASE_SIZE) div TAPROOT_CONTROL_NODE_SIZE
           in Some (fold (\<lambda>i k. ComputeTapbranchHash k (take TAPROOT_CONTROL_NODE_SIZE
                (drop (TAPROOT_CONTROL_BASE_SIZE + TAPROOT_CONTROL_NODE_SIZE * i) control))) [0..<path_len] tapleaf_hash))"

definition VerifyTaprootCommitment :: "secp \<Rightarrow> valtype \<Rightarrow> valtype \<Rightarrow> valtype \<Rightarrow> bool option" where
  "VerifyTaprootCommitment P control program tapleaf_hash =
     (if \<not> (length control \<ge> TAPROOT_CONTROL_BASE_SIZE \<and> length program \<ge> 32) then None
      else map_option (\<lambda>merkle_root. CheckTapTweak P program (take (TAPROOT_CONTROL_BASE_SIZE - 1) (drop 1 control)) merkle_root
             (control ! 0 AND 1 \<noteq> 0))
           (ComputeTaprootMerkleRoot control tapleaf_hash))"

text \<open>Dropping the annex and recording it.\<close>

definition split_annex :: "valtype list \<Rightarrow> valtype list \<times> ScriptExecutionData" where
  "split_annex stack =
     (if length stack \<ge> 2 \<and> last stack \<noteq> [] \<and> last stack ! 0 = ANNEX_TAG
      then (butlast stack, ScriptExecutionData_new\<lparr>m_annex_hash := HashWriter_GetSHA256 (Write CSHA256_new (vector_Serialize (last stack))),
              m_annex_present := True, m_annex_init := True\<rparr>)
      else (stack, ScriptExecutionData_new\<lparr>m_annex_present := False, m_annex_init := True\<rparr>))"

definition verify_script_path ::
  "eval_ctx \<Rightarrow> valtype list \<Rightarrow> valtype list \<Rightarrow> valtype \<Rightarrow> ScriptExecutionData \<Rightarrow> unit script_result" where
  "verify_script_path X witness stack program ed =
     (let control = last stack; sc = last (butlast stack); stack' = butlast (butlast stack);
          leaf = control ! 0 AND TAPROOT_LEAF_MASK in
      if \<not> control_size_ok control then fails SCRIPT_ERR_TAPROOT_WRONG_CONTROL_SIZE
      else let tapleaf_hash = ComputeTapleafHash leaf sc in
      bind_script (asserted (VerifyTaprootCommitment (ctx_secp X) control program tapleaf_hash)) (\<lambda>ok.
        if \<not> ok then fails SCRIPT_ERR_WITNESS_PROGRAM_MISMATCH
        else if leaf = TAPROOT_LEAF_TAPSCRIPT
        then ExecuteWitnessScript (with_version TAPSCRIPT X) stack' sc
               (ed\<lparr>m_tapleaf_hash := tapleaf_hash, m_tapleaf_hash_init := True,
                   m_validation_weight_left := int (length (stack_Serialize witness)) + VALIDATION_WEIGHT_OFFSET,
                   m_validation_weight_left_init := True\<rparr>)
        else if flag X SCRIPT_VERIFY_DISCOURAGE_UPGRADABLE_TAPROOT_VERSION
        then fails SCRIPT_ERR_DISCOURAGE_UPGRADABLE_TAPROOT_VERSION
        else Inr ()))"

text \<open>The caller has just run a script with success, so the error recorded so far is \<open>SCRIPT_ERR_OK\<close>.\<close>

definition verify_taproot :: "eval_ctx \<Rightarrow> valtype list \<Rightarrow> valtype \<Rightarrow> unit script_result" where
  "verify_taproot X witness program =
     (if \<not> flag X SCRIPT_VERIFY_TAPROOT then Inr ()
      else if witness = [] then fails SCRIPT_ERR_WITNESS_PROGRAM_WITNESS_EMPTY
      else case split_annex witness of (stack, ed) \<Rightarrow>
        if length stack = 1
        then bind_script (CheckSchnorrSignature (ctx_checker X) SCRIPT_ERR_OK (hd stack) program TAPROOT ed) (\<lambda>_. Inr ())
        else verify_script_path X witness stack program ed)"

section \<open>Key-hash programs\<close>

definition WITNESS_V0_SCRIPTHASH_SIZE :: nat where "WITNESS_V0_SCRIPTHASH_SIZE = 32"
definition WITNESS_V0_KEYHASH_SIZE :: nat where "WITNESS_V0_KEYHASH_SIZE = 20"
definition WITNESS_V1_TAPROOT_SIZE :: nat where "WITNESS_V1_TAPROOT_SIZE = 32"

text \<open>The script that a key-hash program implies.\<close>

definition implied_script :: "valtype \<Rightarrow> CScript" where
  "implied_script program = [OP_DUP, OP_HASH160] @ push_data program @ [OP_EQUALVERIFY, OP_CHECKSIG]"

text \<open>\<open>std::equal\<close> over the 20 bytes of the hash; the program has 20 bytes here.\<close>

definition hash_matches :: "valtype list \<Rightarrow> valtype \<Rightarrow> bool" where
  "hash_matches parts program \<longleftrightarrow> CHash160_Finalize (foldl Write CSHA256_new parts) = program"

definition check_ecdsa :: "eval_ctx \<Rightarrow> valtype \<Rightarrow> valtype \<Rightarrow> CScript \<Rightarrow> unit script_result" where
  "check_ecdsa X sig pubkey scriptCode =
     bind_script (CheckSignatureEncoding (ctx_secp X) (ctx_flags X) sig) (\<lambda>_.
     bind_script (CheckPubKeyEncoding (ctx_flags X) WITNESS_V0 pubkey) (\<lambda>_.
     bind_script (CheckECDSASignature (ctx_checker X) sig pubkey scriptCode WITNESS_V0) (\<lambda>ok.
       if \<not> ok then fails SCRIPT_ERR_CHECKSIGVERIFY else Inr ())))"

definition check_pqc :: "eval_ctx \<Rightarrow> valtype \<Rightarrow> valtype \<Rightarrow> valtype \<Rightarrow> CScript \<Rightarrow> unit script_result" where
  "check_pqc X sig pqc_sig pqc_pubkey scriptCode =
     (if is_falcon pqc_sig pqc_pubkey \<or> is_falcon1024 pqc_sig pqc_pubkey \<or> is_dilithium pqc_sig pqc_pubkey
      then bind_script (CheckPQCSignature (ctx_checker X) pqc_sig pqc_pubkey scriptCode WITNESS_V0 (last sig)) (\<lambda>ok.
        if \<not> ok then fails SCRIPT_ERR_PQC_SIG else Inr ())
      else bind_script (CheckSPHINCSSignature (ctx_checker X) pqc_sig pqc_pubkey sig scriptCode WITNESS_V0) (\<lambda>ok.
        if \<not> ok then fails SCRIPT_ERR_PQC_SIG else Inr ()))"

text \<open>Two elements: the implied script is run, unless hybrid signatures are mandatory.\<close>

definition verify_key_hash :: "eval_ctx \<Rightarrow> valtype list \<Rightarrow> valtype \<Rightarrow> unit script_result" where
  "verify_key_hash X stack program =
     (if length stack \<noteq> 2 then fails SCRIPT_ERR_WITNESS_PROGRAM_MISMATCH
      else if flag X SCRIPT_VERIFY_HYBRID_SIG then fails SCRIPT_ERR_PQC_SIG
      else ExecuteWitnessScript (with_version WITNESS_V0 X) stack (implied_script program) ScriptExecutionData_new)"

text \<open>Three elements: signature, key and post-quantum key.\<close>

definition verify_classical_hybrid :: "eval_ctx \<Rightarrow> valtype list \<Rightarrow> valtype \<Rightarrow> unit script_result" where
  "verify_classical_hybrid X witness program =
     (let pqc_pubkey = last witness; stack = butlast witness in
      if length stack \<noteq> 2 \<or> stack ! 0 = [] \<or> stack ! 1 = [] then fails SCRIPT_ERR_WITNESS_PROGRAM_MISMATCH
      else if \<not> hash_matches [stack ! 1, pqc_pubkey] program then fails SCRIPT_ERR_WITNESS_PROGRAM_MISMATCH
      else check_ecdsa X (stack ! 0) (stack ! 1) (implied_script program))"

text \<open>Four elements: signature, key, post-quantum signature and post-quantum key.\<close>

definition verify_hybrid :: "eval_ctx \<Rightarrow> valtype list \<Rightarrow> valtype \<Rightarrow> unit script_result" where
  "verify_hybrid X witness program =
     (let pqc_pubkey = last witness; pqc_sig = last (butlast witness); stack = butlast (butlast witness) in
      if \<not> is_dilithium pqc_sig pqc_pubkey \<and> \<not> is_sphincs pqc_sig pqc_pubkey \<and> \<not> is_falcon pqc_sig pqc_pubkey \<and>
         \<not> is_falcon1024 pqc_sig pqc_pubkey then fails SCRIPT_ERR_PQC_SIG_SIZE
      else if length stack \<noteq> 2 \<or> stack ! 0 = [] \<or> stack ! 1 = [] then fails SCRIPT_ERR_WITNESS_PROGRAM_MISMATCH
      else let is_hybrid_addr = hash_matches [stack ! 1, pqc_pubkey] program; is_legacy_addr = hash_matches [stack ! 1] program in
      if \<not> is_hybrid_addr \<and> \<not> is_legacy_addr then fails SCRIPT_ERR_WITNESS_PROGRAM_MISMATCH
      else bind_script (check_pqc X (stack ! 0) pqc_sig pqc_pubkey (implied_script program)) (\<lambda>_.
        if is_hybrid_addr then check_ecdsa X (stack ! 0) (stack ! 1) (implied_script program)
        else verify_key_hash X stack program))"

definition verify_p2wpkh :: "eval_ctx \<Rightarrow> valtype list \<Rightarrow> valtype \<Rightarrow> unit script_result" where
  "verify_p2wpkh X witness program =
     (if length witness = 4 then verify_hybrid X witness program
      else if length witness = 3 then verify_classical_hybrid X witness program
      else verify_key_hash X witness program)"

definition verify_p2wsh :: "eval_ctx \<Rightarrow> valtype list \<Rightarrow> valtype \<Rightarrow> unit script_result" where
  "verify_p2wsh X witness program =
     (if witness = [] then fails SCRIPT_ERR_WITNESS_PROGRAM_WITNESS_EMPTY
      else let exec_script = last witness in
      if snd (Finalize (Write CSHA256_new exec_script)) \<noteq> program then fails SCRIPT_ERR_WITNESS_PROGRAM_MISMATCH
      else ExecuteWitnessScript (with_version WITNESS_V0 X) (butlast witness) exec_script ScriptExecutionData_new)"

definition VerifyWitnessProgram ::
  "eval_ctx \<Rightarrow> valtype list \<Rightarrow> nat \<Rightarrow> valtype \<Rightarrow> bool \<Rightarrow> unit script_result" where
  "VerifyWitnessProgram X witness witversion program is_p2sh =
     (if witversion = 0
      then if length program = WITNESS_V0_SCRIPTHASH_SIZE then verify_p2wsh X witness program
           else if length program = WITNESS_V0_KEYHASH_SIZE then verify_p2wpkh X witness program
           else fails SCRIPT_ERR_WITNESS_PROGRAM_WRONG_LENGTH
      else if witversion = 1 \<and> length program = WITNESS_V1_TAPROOT_SIZE \<and> \<not> is_p2sh then verify_taproot X witness program
      else if \<not> is_p2sh \<and> IsPayToAnchor witversion program then Inr ()
      else if flag X SCRIPT_VERIFY_DISCOURAGE_UPGRADABLE_WITNESS_PROGRAM
      then fails SCRIPT_ERR_DISCOURAGE_UPGRADABLE_WITNESS_PROGRAM
      else Inr ())"

section \<open>Verifying an input\<close>

text \<open>Running a script on its own execution data; what is left of the stack must end in true.\<close>

definition eval_base :: "eval_ctx \<Rightarrow> valtype list \<Rightarrow> CScript \<Rightarrow> valtype list script_result" where
  "eval_base X stack sc = bind_script (EvalScript (with_version BASE X) stack sc ScriptExecutionData_new) (\<lambda>(stack', ed). Inr stack')"

definition eval_true :: "eval_ctx \<Rightarrow> valtype list \<Rightarrow> CScript \<Rightarrow> valtype list script_result" where
  "eval_true X stack sc = bind_script (eval_base X stack sc) (\<lambda>stack'.
     if stack' = [] then fails SCRIPT_ERR_EVAL_FALSE
     else if \<not> CastToBool (hd stack') then fails SCRIPT_ERR_EVAL_FALSE
     else Inr stack')"

text \<open>A script that is a witness program: whether there was one, and the stack it leaves.\<close>

definition verify_nested ::
  "eval_ctx \<Rightarrow> CScript \<Rightarrow> bool \<Rightarrow> ScriptError \<Rightarrow> valtype list \<Rightarrow> bool \<Rightarrow> valtype list \<Rightarrow> (bool \<times> valtype list) script_result" where
  "verify_nested X sc malleated err witness is_p2sh stack =
     (case (if flag X SCRIPT_VERIFY_WITNESS then IsWitnessProgram sc else None) of
        None \<Rightarrow> Inr (False, stack)
      | Some (version, program) \<Rightarrow>
          if malleated then fails err
          else bind_script (VerifyWitnessProgram X witness version program is_p2sh) (\<lambda>_. Inr (True, [last stack])))"

definition verify_p2sh :: "eval_ctx \<Rightarrow> CScript \<Rightarrow> valtype list \<Rightarrow> valtype list \<Rightarrow> (bool \<times> valtype list) script_result" where
  "verify_p2sh X scriptSig witness stackCopy =
     (if \<not> IsPushOnly scriptSig then fails SCRIPT_ERR_SIG_PUSHONLY
      else case stackCopy of [] \<Rightarrow> Inl Aborts | pubKey2 # stack \<Rightarrow>
        bind_script (eval_true X stack pubKey2) (\<lambda>stack'.
          verify_nested X pubKey2 (scriptSig \<noteq> push_data pubKey2) SCRIPT_ERR_WITNESS_MALLEATED_P2SH witness True stack'))"

definition verify_final :: "eval_ctx \<Rightarrow> valtype list \<Rightarrow> bool \<Rightarrow> valtype list \<Rightarrow> unit script_result" where
  "verify_final X witness hadWitness stack =
     (if flag X SCRIPT_VERIFY_CLEANSTACK \<and> \<not> (flag X SCRIPT_VERIFY_P2SH \<and> flag X SCRIPT_VERIFY_WITNESS) then Inl Aborts
      else if flag X SCRIPT_VERIFY_CLEANSTACK \<and> length stack \<noteq> 1 then fails SCRIPT_ERR_CLEANSTACK
      else if flag X SCRIPT_VERIFY_WITNESS
      then if \<not> flag X SCRIPT_VERIFY_P2SH then Inl Aborts
           else if \<not> hadWitness \<and> witness \<noteq> [] then fails SCRIPT_ERR_WITNESS_UNEXPECTED
           else Inr ()
      else Inr ())"

definition VerifyScript :: "eval_ctx \<Rightarrow> CScript \<Rightarrow> CScript \<Rightarrow> valtype list \<Rightarrow> unit script_result" where
  "VerifyScript X scriptSig scriptPubKey witness =
     (if flag X SCRIPT_VERIFY_SIGPUSHONLY \<and> \<not> IsPushOnly scriptSig then fails SCRIPT_ERR_SIG_PUSHONLY
      else bind_script (eval_base X [] scriptSig) (\<lambda>stackCopy.
        bind_script (eval_true X stackCopy scriptPubKey) (\<lambda>stack.
        bind_script (verify_nested X scriptPubKey (scriptSig \<noteq> []) SCRIPT_ERR_WITNESS_MALLEATED witness False stack) (\<lambda>(had1, stack1).
        bind_script (if flag X SCRIPT_VERIFY_P2SH \<and> IsPayToScriptHash scriptPubKey
                     then verify_p2sh X scriptSig witness stackCopy else Inr (False, stack1)) (\<lambda>(had2, stack2).
          verify_final X witness (had1 \<or> had2) stack2)))))"

section \<open>Counting the signature operations of a witness\<close>

definition WitnessSigOps :: "nat \<Rightarrow> valtype \<Rightarrow> valtype list \<Rightarrow> nat" where
  "WitnessSigOps witversion witprogram witness =
     (if witversion = 0
      then if length witprogram = WITNESS_V0_KEYHASH_SIZE then 1
           else if length witprogram = WITNESS_V0_SCRIPTHASH_SIZE \<and> length witness > 0 then GetSigOpCount True (last witness)
           else 0
      else 0)"

text \<open>The loop over a push-only script that leaves its last element is \<open>last_push\<close>.\<close>

definition CountWitnessSigOps :: "CScript \<Rightarrow> CScript \<Rightarrow> valtype list \<Rightarrow> uint32 \<Rightarrow> nat option" where
  "CountWitnessSigOps scriptSig scriptPubKey witness flags =
     (if \<not> has_flag flags SCRIPT_VERIFY_WITNESS then Some 0
      else if \<not> has_flag flags SCRIPT_VERIFY_P2SH then None
      else case IsWitnessProgram scriptPubKey of
        Some (version, program) \<Rightarrow> Some (WitnessSigOps version program witness)
      | None \<Rightarrow>
          if IsPayToScriptHash scriptPubKey \<and> IsPushOnly scriptSig
          then case Option.bind (last_push [] scriptSig) IsWitnessProgram of
                 Some (version, program) \<Rightarrow> Some (WitnessSigOps version program witness)
               | None \<Rightarrow> Some 0
          else Some 0)"

end
