(* ===== verification/Script_Execution.thy ===== *)
theory Script_Execution
  imports Witness_Program
begin

unbundle bit_operations_syntax

text \<open>
  How the interpreter runs a script that is given with parameters: one rule per kind of instruction,
  and with them the exact result of the script that a key-hash program implies and of the two branches
  of the hash time lock script of the atomic swap.
\<close>

section \<open>Reading back what was pushed\<close>

lemma unat_byte: "n < 256 \<Longrightarrow> unat (of_nat n :: uint8) = n"
  using unat_of_nat_small [of n, where ?'a = 8] by simp

lemma small_push_opcode:
  "n < 0x4c \<Longrightarrow> (of_nat n :: uint8) < 0x4c" "n < 0x4c \<Longrightarrow> (of_nat n :: uint8) \<le> 0x4e"
  by (simp_all add: word_less_nat_alt word_le_nat_alt unat_byte)

lemma GetScriptOp_push_data:
  assumes "length b < 2 ^ 32"
  shows "\<exists>opcode. GetScriptOp (push_data b @ pc) = (True, pc, opcode, b) \<and> opcode \<le> OP_PUSHDATA4 \<and>
    opcode = hd (push_data b)"
proof -
  consider "length b < 0x4c" | "0x4c \<le> length b" "length b \<le> 0xff" | "0xff < length b" "length b \<le> 0xffff" | "0xffff < length b"
    by linarith
  then show ?thesis
  proof cases
    case 1
    then show ?thesis using small_push_opcode [of "length b"] by (simp add: push_data_def read_operand_def unat_byte)
  next
    case 2
    then show ?thesis by (simp add: push_data_def read_operand_def read_sized_operand_def unat_byte)
  next
    case 3
    then show ?thesis by (simp add: push_data_def read_operand_def read_sized_operand_def le_val_le_bytes)
  next
    case 4
    then show ?thesis using assms by (simp add: push_data_def read_operand_def read_sized_operand_def le_val_le_bytes)
  qed
qed

lemma CheckMinimalPush_data:
  assumes "length b \<noteq> 1" and "length b < 2 ^ 32"
  shows "CheckMinimalPush b (hd (push_data b)) = Some True"
proof (cases "b = []")
  case False
  then show ?thesis using assms small_push_opcode(2) [of "length b"] unat_byte [of "length b"]
    by (auto simp: CheckMinimalPush_def push_data_def)
qed (simp add: CheckMinimalPush_def push_data_def)

section \<open>One instruction\<close>

definition next_op :: "eval_ctx \<Rightarrow> CScript \<Rightarrow> eval_state \<Rightarrow> eval_state script_result" where
  "next_op X pc st =
     (if length (stk st) + length (altstk st) > MAX_STACK_SIZE then fails SCRIPT_ERR_STACK_SIZE
      else eval_loop X pc (st\<lparr>opcode_pos := opcode_pos st + 1\<rparr>))"

lemma bind_script_simps [simp]: "bind_script (Inr x) f = f x" "bind_script (Inl e) f = Inl e"
  by (simp_all add: bind_script_def)

lemma bind_script_assoc: "bind_script (bind_script r f) g = bind_script r (\<lambda>x. bind_script (f x) g)"
  by (cases r) simp_all

lemma eval_loop_Nil [simp]: "eval_loop X [] st = Inr st"
  by (subst eval_loop.simps) simp

lemma eval_loop_bind:
  "pc \<noteq> [] \<Longrightarrow> eval_loop X pc st = bind_script (eval_step X pc st) (\<lambda>(pc', st'). eval_loop X pc' st')"
  by (subst eval_loop.simps) (simp add: bind_script_def)

lemma eval_loop_op:
  assumes "OP_16 < opcode" and "\<not> is_disabled opcode" and "opcode \<noteq> OP_CODESEPARATOR" and "nOpCount st < 201"
    and "pre_tapscript (ctx_sigversion X)"
  shows "eval_loop X (opcode # pc) st =
    bind_script (if cs_all_true (vfExec st) \<or> (OP_IF \<le> opcode \<and> opcode \<le> OP_ENDIF)
                 then exec_opcode X (cs_all_true (vfExec st)) opcode pc (st\<lparr>nOpCount := nOpCount st + 1\<rparr>)
                 else Inr (st\<lparr>nOpCount := nOpCount st + 1\<rparr>)) (next_op X pc)"
proof -
  have p: "\<not> opcode \<le> OP_PUSHDATA4" using assms(1) by (simp add: word_less_nat_alt word_le_nat_alt)
  then have g: "GetScriptOp (opcode # pc) = (True, pc, opcode, [])" by simp
  have c: "\<not> nOpCount st + 1 > MAX_OPS_PER_SCRIPT" using assms(4) by (simp add: MAX_OPS_PER_SCRIPT_def)
  show ?thesis unfolding eval_loop_bind [OF list.simps(3)] eval_step_def g prod.case Let_def
    using assms(1-3,5) p c by (simp add: bind_script_assoc next_op_def [abs_def] if_distrib [of "\<lambda>r. bind_script r f" for f] cong: if_cong)
qed

lemma eval_loop_push:
  assumes "length b \<noteq> 1" and "length b \<le> MAX_SCRIPT_ELEMENT_SIZE"
  shows "eval_loop X (push_data b @ pc) st =
    (if cs_all_true (vfExec st) then next_op X pc (st\<lparr>stk := b # stk st\<rparr>) else next_op X pc st)"
proof -
  have l: "length b < 2 ^ 32" using assms(2) by (simp add: MAX_SCRIPT_ELEMENT_SIZE_def)
  then obtain opcode where g: "GetScriptOp (push_data b @ pc) = (True, pc, opcode, b)" "opcode \<le> OP_PUSHDATA4" "opcode = hd (push_data b)"
    using GetScriptOp_push_data by blast
  have m: "CheckMinimalPush b opcode = Some True" using CheckMinimalPush_data [OF assms(1) l] g(3) by simp
  have n: "push_data b @ pc \<noteq> []" by (simp add: push_data_def)
  have o: "\<not> OP_16 < opcode" "\<not> (OP_IF \<le> opcode)" "\<not> is_disabled opcode" "opcode \<noteq> OP_CODESEPARATOR"
    using g(2) by (auto simp: word_less_nat_alt word_le_nat_alt is_disabled_def)
  show ?thesis unfolding eval_loop_bind [OF n] eval_step_def g(1) prod.case Let_def
    using assms(2) o g(2) m by (simp add: exec_push_def asserted_def next_op_def)
qed

section \<open>The instructions of the two scripts\<close>

lemma exec_stack_opcodes:
  "exec_opcode X b OP_DUP pc st = op_stack (1, \<lambda>xs. xs ! 0 # xs) st"
  "exec_opcode X b OP_DROP pc st = op_stack (1, \<lambda>xs. drop 1 xs) st"
  by (simp_all add: exec_opcode_def stack_fun_def)

lemma exec_hash_opcodes:
  "exec_opcode X b OP_HASH160 pc st = op_hash OP_HASH160 st" "exec_opcode X b OP_SHA256 pc st = op_hash OP_SHA256 st"
  by (simp_all add: exec_opcode_def stack_fun_def)

lemma exec_check_opcodes:
  "exec_opcode X b OP_EQUALVERIFY pc st = op_equal OP_EQUALVERIFY st" "exec_opcode X b OP_CHECKSIG pc st = op_checksig X OP_CHECKSIG st"
  "exec_opcode X b OP_CHECKLOCKTIMEVERIFY pc st = op_checklocktimeverify X st"
  by (simp_all add: exec_opcode_def stack_fun_def)

lemma exec_branch_opcodes:
  "exec_opcode X b OP_IF pc st = op_if X b OP_IF st" "exec_opcode X b OP_ELSE pc st = op_else st"
  "exec_opcode X b OP_ENDIF pc st = op_endif st"
  by (simp_all add: exec_opcode_def stack_fun_def)

lemmas exec_opcodes = exec_stack_opcodes exec_hash_opcodes exec_check_opcodes exec_branch_opcodes

definition start_data :: "ScriptExecutionData \<Rightarrow> ScriptExecutionData" where
  "start_data ed = ed\<lparr>m_codeseparator_pos := 0xFFFFFFFF, m_codeseparator_pos_init := True\<rparr>"

lemmas run_simps = next_op_def eval_loop_op eval_loop_push exec_opcodes op_stack_def op_hash_def op_equal_def op_checksig_def
  hash_fun_digest MAX_STACK_SIZE_def MAX_SCRIPT_ELEMENT_SIZE_def is_disabled_def bind_script_assoc

lemma eval_implied_script:
  assumes "ctx_sigversion X = WITNESS_V0" and "length program = 20"
  shows "EvalScript X [pubkey, sig] (implied_script program) ed =
    (if hash160 pubkey \<noteq> program then fails SCRIPT_ERR_EQUALVERIFY
     else bind_script (EvalChecksig X sig pubkey (implied_script program) (start_data ed)) (\<lambda>(ok, ed'). Inr ([vch_bool ok], ed')))"
proof -
  have l: "length (implied_script program) \<le> MAX_SCRIPT_SIZE"
    using assms(2) by (simp add: implied_script_def push_data_def MAX_SCRIPT_SIZE_def)
  have c: "cs_all_true ConditionStack_new" "cs_empty ConditionStack_new" by (simp_all add: cs_all_true_def ConditionStack_new_def cs_empty_def)
  have "eval_loop X (implied_script program) (eval_start [pubkey, sig] (implied_script program) ed) =
    (if hash160 pubkey \<noteq> program then fails SCRIPT_ERR_EQUALVERIFY
     else bind_script (EvalChecksig X sig pubkey (implied_script program) (start_data ed)) (\<lambda>(ok, ed'). 
       Inr \<lparr>stk = [vch_bool ok], altstk = [], vfExec = ConditionStack_new, nOpCount = 4, pbegincodehash = implied_script program,
         opcode_pos = 5, execdata = ed'\<rparr>))"
    unfolding implied_script_def append_Cons append_Nil
    using assms c by (auto simp: run_simps eval_start_def start_data_def bind_script_def split: sum.splits)
  then show ?thesis using assms(1) l c(2) unfolding EvalScript_def by (simp add: bind_script_def split: sum.splits prod.splits)
qed

section \<open>The hash time lock script\<close>

text \<open>The script of the QBTC leg of an atomic swap (\<^verbatim>\<open>src/ATOMIC-SWAP-REPORT.md\<close>): the buyer claims with the
  preimage of the hash, the seller refunds after the lock time.\<close>

definition htlc_script :: "valtype \<Rightarrow> valtype \<Rightarrow> int \<Rightarrow> valtype \<Rightarrow> CScript" where
  "htlc_script secretHash buyerPubKey locktime sellerPubKey =
     [OP_IF, OP_SHA256] @ push_data secretHash @ [OP_EQUALVERIFY] @ push_data buyerPubKey @ [OP_CHECKSIG, OP_ELSE] @
     push_int64 locktime @ [OP_CHECKLOCKTIMEVERIFY, OP_DROP] @ push_data sellerPubKey @ [OP_CHECKSIG, OP_ENDIF]"

text \<open>Lock times as they occur: above the numbers with an opcode of their own, within the field of a
  transaction.\<close>

definition htlc_terms :: "valtype \<Rightarrow> valtype \<Rightarrow> int \<Rightarrow> valtype \<Rightarrow> bool" where
  "htlc_terms secretHash buyerPubKey locktime sellerPubKey \<longleftrightarrow>
     length secretHash = 32 \<and> length buyerPubKey = 33 \<and> length sellerPubKey = 33 \<and> 256 \<le> locktime \<and> locktime < 2 ^ 32"

lemma CScriptNum_num_serialize:
  assumes "v \<noteq> 0" and "\<bar>v\<bar> < 2 ^ (8 * n - 1)" and "n \<le> 8"
  shows "CScriptNum (num_serialize v) m n = Some v"
proof -
  obtain ys b where y: "num_serialize v = ys @ [b]" "minimal ys b" "length ys < n" "set_vch (ys @ [b]) = v"
    using set_vch_num_serialize [OF assms] by blast
  then have "CScriptNum (ys @ [b]) True n = Some v" by (simp add: CScriptNum_minimal)
  then show ?thesis unfolding y(1) by (cases m) (simp_all add: CScriptNum_def split: if_splits)
qed

lemma length_num_serialize_locktime:
  assumes "256 \<le> v" and "v < 2 ^ 32"
  shows "2 \<le> length (num_serialize v)" and "length (num_serialize v) \<le> 5" and "CScriptNum (num_serialize v) m 5 = Some v"
proof -
  show l: "length (num_serialize v) \<le> 5" using num_serialize_length [of v 5] assms by simp
  show s: "CScriptNum (num_serialize v) m 5 = Some v" for m
    using CScriptNum_num_serialize [of v 5 m] assms by simp
  show "2 \<le> length (num_serialize v)"
  proof (rule ccontr)
    assume "\<not> 2 \<le> length (num_serialize v)"
    then have "CScriptNum (num_serialize v) False 1 = Some v" using s [of False] by (simp add: CScriptNum_def split: if_splits)
    then show False using CScriptNum_bound [of "num_serialize v" False 1 v] assms(1) by simp
  qed
qed

lemma push_int64_locktime: "256 \<le> v \<Longrightarrow> push_int64 v = push_data (num_serialize v)"
  by (simp add: push_int64_def)

lemma htlc_termsD:
  assumes "htlc_terms h buyer locktime seller"
  shows "length h = 32" "length buyer = 33" "length seller = 33" "256 \<le> locktime" "length (num_serialize locktime) \<noteq> 1"
    "length (num_serialize locktime) \<le> 520" "CScriptNum (num_serialize locktime) m 5 = Some locktime"
  using assms length_num_serialize_locktime [of locktime] by (auto simp: htlc_terms_def intro: order_trans)

lemma length_htlc_script:
  "htlc_terms h buyer locktime seller \<Longrightarrow> length (htlc_script h buyer locktime seller) \<le> MAX_SCRIPT_SIZE"
  using length_num_serialize_locktime(2) [of locktime]
  by (simp add: htlc_terms_def htlc_script_def push_int64_locktime push_data_def MAX_SCRIPT_SIZE_def)

text \<open>What \<open>OP_IF\<close> accepts as its argument under the policy rule.\<close>

definition minimal_if :: "eval_ctx \<Rightarrow> valtype \<Rightarrow> bool" where
  "minimal_if X vch \<longleftrightarrow> flag X SCRIPT_VERIFY_MINIMALIF \<longrightarrow> vch = [] \<or> vch = [1]"

lemma new_condition_simps [simp]: "cs_all_true ConditionStack_new" "cs_empty ConditionStack_new"
  by (simp_all add: cs_all_true_def ConditionStack_new_def cs_empty_def)

text \<open>The condition stack inside the two branches.\<close>

lemma branch_conditions [simp]:
  "cs_all_true (cs_push_back True ConditionStack_new)" "\<not> cs_all_true (cs_push_back False ConditionStack_new)"
  "\<not> cs_empty (cs_push_back b ConditionStack_new)"
  "cs_toggle_top (cs_push_back b ConditionStack_new) = Some (cs_push_back (\<not> b) ConditionStack_new)"
  "cs_pop_back (cs_push_back b ConditionStack_new) = Some ConditionStack_new"
  by (cases b; simp add: cs_all_true_def ConditionStack_new_def cs_empty_def cs_push_back_def cs_toggle_top_def cs_pop_back_def
      NO_FALSE_def Let_def)+

lemmas htlc_simps = run_simps htlc_script_def push_int64_locktime op_if_def op_else_def op_endif_def op_checklocktimeverify_def
  asserted_def stack_num_def eval_start_def start_data_def bind_script_def

lemma eval_htlc_claim:
  assumes "ctx_sigversion X = WITNESS_V0" and "htlc_terms h buyer locktime seller"
  shows "EvalScript X [[1], secret, sig] (htlc_script h buyer locktime seller) ed =
    (if sha256_digest secret \<noteq> h then fails SCRIPT_ERR_EQUALVERIFY
     else bind_script (EvalChecksig X sig buyer (htlc_script h buyer locktime seller) (start_data ed)) (\<lambda>(ok, ed'). Inr ([vch_bool ok], ed')))"
proof -
  note t = htlc_termsD [OF assms(2)]
  define sc where "sc = htlc_script h buyer locktime seller"
  have "eval_loop X (htlc_script h buyer locktime seller) (eval_start [[1], secret, sig] sc ed) =
    (if sha256_digest secret \<noteq> h then fails SCRIPT_ERR_EQUALVERIFY
     else bind_script (EvalChecksig X sig buyer sc (start_data ed)) (\<lambda>(ok, ed').
       Inr \<lparr>stk = [vch_bool ok], altstk = [], vfExec = ConditionStack_new, nOpCount = 9, pbegincodehash = sc, opcode_pos = 13, execdata = ed'\<rparr>))"
    using assms(1) t by (auto simp: htlc_simps split: sum.splits)
  then show ?thesis using assms(1) length_htlc_script [OF assms(2)] unfolding EvalScript_def sc_def
    by (simp add: bind_script_def split: sum.splits prod.splits)
qed

lemma eval_htlc_refund:
  assumes "ctx_sigversion X = WITNESS_V0" and "htlc_terms h buyer locktime seller"
  shows "EvalScript X [[], sig] (htlc_script h buyer locktime seller) ed =
    bind_script (if flag X SCRIPT_VERIFY_CHECKLOCKTIMEVERIFY
                 then bind_script (CheckLockTime (ctx_checker X) locktime) (\<lambda>ok. if \<not> ok then fails SCRIPT_ERR_UNSATISFIED_LOCKTIME else Inr ())
                 else Inr ()) (\<lambda>_.
    bind_script (EvalChecksig X sig seller (htlc_script h buyer locktime seller) (start_data ed)) (\<lambda>(ok, ed'). Inr ([vch_bool ok], ed')))"
proof -
  note t = htlc_termsD [OF assms(2)]
  define sc where "sc = htlc_script h buyer locktime seller"
  have "eval_loop X (htlc_script h buyer locktime seller) (eval_start [[], sig] sc ed) =
    bind_script (if flag X SCRIPT_VERIFY_CHECKLOCKTIMEVERIFY
                 then bind_script (CheckLockTime (ctx_checker X) locktime) (\<lambda>ok. if \<not> ok then fails SCRIPT_ERR_UNSATISFIED_LOCKTIME else Inr ())
                 else Inr ()) (\<lambda>_.
    bind_script (EvalChecksig X sig seller sc (start_data ed)) (\<lambda>(ok, ed').
       Inr \<lparr>stk = [vch_bool ok], altstk = [], vfExec = ConditionStack_new, nOpCount = 9, pbegincodehash = sc, opcode_pos = 13, execdata = ed'\<rparr>))"
    using assms(1) t by (auto simp: htlc_simps split: sum.splits)
  then show ?thesis using assms(1) length_htlc_script [OF assms(2)] unfolding EvalScript_def sc_def
    by (auto simp: bind_script_def split: sum.splits prod.splits)
qed

text \<open>With only a signature and the secret on the stack the secret is taken for the condition.\<close>

lemma eval_htlc_two_elements:
  assumes "ctx_sigversion X = WITNESS_V0" and "htlc_terms h buyer locktime seller" and "CastToBool secret"
  shows "EvalScript X [secret, sig] (htlc_script h buyer locktime seller) ed =
    (if \<not> minimal_if X secret then fails SCRIPT_ERR_MINIMALIF
     else if sha256_digest sig \<noteq> h then fails SCRIPT_ERR_EQUALVERIFY
     else invalid_stack)"
proof -
  note t = htlc_termsD [OF assms(2)]
  have m: "minimal_if X secret \<longleftrightarrow> (flag X SCRIPT_VERIFY_MINIMALIF \<longrightarrow> \<not> (length secret > 1 \<or> length secret = 1 \<and> secret ! 0 \<noteq> 1))"
    unfolding minimal_if_def by (cases secret; cases "tl secret") auto
  have "eval_loop X (htlc_script h buyer locktime seller) (eval_start [secret, sig] sc ed) =
    (if \<not> minimal_if X secret then fails SCRIPT_ERR_MINIMALIF
     else if sha256_digest sig \<noteq> h then fails SCRIPT_ERR_EQUALVERIFY
     else invalid_stack)" for sc
    unfolding m using assms(1,3) t by (auto simp: htlc_simps split: sum.splits)
  then show ?thesis using assms(1) length_htlc_script [OF assms(2)] unfolding EvalScript_def
    by (simp add: bind_script_def split: sum.splits prod.splits)
qed

end
