(* ===== verification/Witness_Properties.thy ===== *)
theory Witness_Properties
  imports Script_Execution
begin

text \<open>
  What an input needs to be spent: the conditions for key-hash outputs with two, three and four witness
  elements, the two branches of a hash time lock output, and that verification never runs into one of
  the assertions of the interpreter.
\<close>

section \<open>Accepted signatures\<close>

definition ecdsa_accepts :: "eval_ctx \<Rightarrow> valtype \<Rightarrow> valtype \<Rightarrow> CScript \<Rightarrow> bool" where
  "ecdsa_accepts X sig pubkey scriptCode \<longleftrightarrow>
     CheckSignatureEncoding (ctx_secp X) (ctx_flags X) sig = Inr () \<and> CheckPubKeyEncoding (ctx_flags X) WITNESS_V0 pubkey = Inr () \<and>
     CheckECDSASignature (ctx_checker X) sig pubkey scriptCode WITNESS_V0 = Inr True"

definition pqc_accepts :: "eval_ctx \<Rightarrow> valtype \<Rightarrow> valtype \<Rightarrow> valtype \<Rightarrow> CScript \<Rightarrow> bool" where
  "pqc_accepts X sig pqc_sig pqc_pubkey scriptCode \<longleftrightarrow>
     (if is_falcon pqc_sig pqc_pubkey \<or> is_falcon1024 pqc_sig pqc_pubkey \<or> is_dilithium pqc_sig pqc_pubkey
      then CheckPQCSignature (ctx_checker X) pqc_sig pqc_pubkey scriptCode WITNESS_V0 (last sig) = Inr True
      else is_sphincs pqc_sig pqc_pubkey \<and>
           CheckSPHINCSSignature (ctx_checker X) pqc_sig pqc_pubkey sig scriptCode WITNESS_V0 = Inr True)"

lemma check_ecdsa_iff: "check_ecdsa X sig pubkey sc = Inr () \<longleftrightarrow> ecdsa_accepts X sig pubkey sc"
  by (auto simp: check_ecdsa_def ecdsa_accepts_def bind_script_Inr)

lemma check_pqc_iff:
  "is_dilithium q k \<or> is_sphincs q k \<or> is_falcon q k \<or> is_falcon1024 q k \<Longrightarrow>
   check_pqc X sig q k sc = Inr () \<longleftrightarrow> pqc_accepts X sig q k sc"
  by (auto simp: check_pqc_def pqc_accepts_def bind_script_Inr)

lemma EvalChecksig_iff:
  assumes "ctx_sigversion X = WITNESS_V0"
  shows "EvalChecksig X sig pubkey sc ed = Inr (True, ed') \<longleftrightarrow> ed' = ed \<and> ecdsa_accepts X sig pubkey sc"
  using assms by (auto simp: EvalChecksig_def EvalChecksigPreTapscript_def ecdsa_accepts_def bind_script_Inr split: if_splits)

lemma hash_matches_iff: "hash_matches parts program \<longleftrightarrow> hash160 (concat parts) = program"
  by (simp add: hash_matches_def CHash160_digest)

lemma with_version_simps [simp]:
  "ctx_sigversion (with_version v X) = v" "ctx_flags (with_version v X) = ctx_flags X" "ctx_checker (with_version v X) = ctx_checker X"
  "ctx_secp (with_version v X) = ctx_secp X"
  by (simp_all add: with_version_def)

lemma ecdsa_accepts_with_version [simp]: "ecdsa_accepts (with_version v X) = ecdsa_accepts X"
  by (simp add: ecdsa_accepts_def fun_eq_iff)

lemma CastToBool_vch_bool [simp]: "CastToBool (vch_bool b) \<longleftrightarrow> b"
  by (simp add: vch_bool_def vchTrue_def vchFalse_def)

text \<open>A script that ends in one signature check.\<close>

lemma run_to_checksig:
  assumes "EvalScript (with_version WITNESS_V0 X) (rev stack) sc ScriptExecutionData_new =
      bind_script (EvalChecksig (with_version WITNESS_V0 X) sig pubkey sc (start_data ScriptExecutionData_new))
        (\<lambda>(ok, ed'). Inr ([vch_bool ok], ed'))"
  shows "ExecuteWitnessScript (with_version WITNESS_V0 X) stack sc ScriptExecutionData_new = Inr () \<longleftrightarrow>
    (\<forall>elem\<in>set stack. length elem \<le> 520) \<and> ecdsa_accepts X sig pubkey sc"
proof -
  have "ExecuteWitnessScript (with_version WITNESS_V0 X) stack sc ScriptExecutionData_new = Inr () \<longleftrightarrow>
    (\<forall>elem\<in>set stack. length elem \<le> 520) \<and>
    (\<exists>ed. EvalChecksig (with_version WITNESS_V0 X) sig pubkey sc (start_data ScriptExecutionData_new) = Inr (True, ed))"
    unfolding ExecuteWitnessScript_def run_witness_script_def assms
    by (cases "EvalChecksig (with_version WITNESS_V0 X) sig pubkey sc (start_data ScriptExecutionData_new)")
      (auto simp: MAX_SCRIPT_ELEMENT_SIZE_def not_less not_le split: if_splits)
  then show ?thesis by (simp add: EvalChecksig_iff)
qed

lemma run_fails:
  "EvalScript (with_version WITNESS_V0 X) (rev stack) sc ScriptExecutionData_new = Inl e \<Longrightarrow>
   ExecuteWitnessScript (with_version WITNESS_V0 X) stack sc ScriptExecutionData_new \<noteq> Inr ()"
  by (simp add: ExecuteWitnessScript_def run_witness_script_def)

section \<open>Key-hash outputs\<close>

text \<open>What the verifier accepts for a key-hash program, by the shape of the witness.\<close>

fun key_hash_spend :: "eval_ctx \<Rightarrow> valtype list \<Rightarrow> valtype \<Rightarrow> bool" where
  "key_hash_spend X [sig, pubkey] program \<longleftrightarrow>
     \<not> flag X SCRIPT_VERIFY_HYBRID_SIG \<and> length sig \<le> 520 \<and> length pubkey \<le> 520 \<and> hash160 pubkey = program \<and>
     ecdsa_accepts X sig pubkey (implied_script program)"
| "key_hash_spend X [sig, pubkey, pqc_pubkey] program \<longleftrightarrow>
     sig \<noteq> [] \<and> pubkey \<noteq> [] \<and> hash160 (pubkey @ pqc_pubkey) = program \<and> ecdsa_accepts X sig pubkey (implied_script program)"
| "key_hash_spend X [sig, pubkey, pqc_sig, pqc_pubkey] program \<longleftrightarrow>
     sig \<noteq> [] \<and> pubkey \<noteq> [] \<and> pqc_accepts X sig pqc_sig pqc_pubkey (implied_script program) \<and>
     (if hash160 (pubkey @ pqc_pubkey) = program then ecdsa_accepts X sig pubkey (implied_script program)
      else key_hash_spend X [sig, pubkey] program)"
| "key_hash_spend X _ program \<longleftrightarrow> False"

lemma run_implied_script:
  assumes "length program = 20"
  shows "ExecuteWitnessScript (with_version WITNESS_V0 X) [sig, pubkey] (implied_script program) ScriptExecutionData_new = Inr () \<longleftrightarrow>
    length sig \<le> 520 \<and> length pubkey \<le> 520 \<and> hash160 pubkey = program \<and> ecdsa_accepts X sig pubkey (implied_script program)"
proof (cases "hash160 pubkey = program")
  case True
  then show ?thesis
    using run_to_checksig [of X "[sig, pubkey]" "implied_script program" sig pubkey] eval_implied_script [of "with_version WITNESS_V0 X", OF _ assms]
    by simp
next
  case False
  then show ?thesis
    using run_fails [of X "[sig, pubkey]" "implied_script program"] eval_implied_script [of "with_version WITNESS_V0 X", OF _ assms] by simp
qed

lemma verify_key_hash_iff:
  "length program = 20 \<Longrightarrow> verify_key_hash X [sig, pubkey] program = Inr () \<longleftrightarrow> key_hash_spend X [sig, pubkey] program"
  by (auto simp: verify_key_hash_def run_implied_script)

lemma verify_classical_hybrid_iff:
  "verify_classical_hybrid X [sig, pubkey, pqc_pubkey] program = Inr () \<longleftrightarrow> key_hash_spend X [sig, pubkey, pqc_pubkey] program"
  by (auto simp: verify_classical_hybrid_def Let_def hash_matches_iff check_ecdsa_iff)

lemma pqc_accepts_size:
  "pqc_accepts X sig q k sc \<Longrightarrow> is_dilithium q k \<or> is_sphincs q k \<or> is_falcon q k \<or> is_falcon1024 q k"
  by (auto simp: pqc_accepts_def split: if_splits)

lemma verify_hybrid_iff:
  assumes "length program = 20"
  shows "verify_hybrid X [sig, pubkey, q, k] program = Inr () \<longleftrightarrow> key_hash_spend X [sig, pubkey, q, k] program"
proof (cases "is_dilithium q k \<or> is_sphincs q k \<or> is_falcon q k \<or> is_falcon1024 q k")
  case True
  then show ?thesis
    using verify_key_hash_iff [OF assms, of X sig pubkey] check_pqc_iff [OF True, of X sig]
    by (auto simp: verify_hybrid_def Let_def hash_matches_iff check_ecdsa_iff bind_script_Inr)
next
  case False
  then show ?thesis using pqc_accepts_size [of X sig q k] by (auto simp: verify_hybrid_def Let_def)
qed

lemma witness_shapes:
  "length w = 2 \<Longrightarrow> \<exists>a b. w = [a, b]" "length w = 3 \<Longrightarrow> \<exists>a b c. w = [a, b, c]" "length w = 4 \<Longrightarrow> \<exists>a b c d. w = [a, b, c, d]"
  by (auto simp: numeral_eq_Suc length_Suc_conv)

lemma key_hash_spend_shape: "key_hash_spend X w program \<Longrightarrow> length w \<in> {2, 3, 4}"
  by (induction X w program rule: key_hash_spend.induct) auto

lemma verify_p2wpkh_iff:
  assumes "length program = 20"
  shows "verify_p2wpkh X w program = Inr () \<longleftrightarrow> key_hash_spend X w program"
proof -
  consider "length w = 2" | "length w = 3" | "length w = 4" | "length w \<notin> {2, 3, 4}" by auto
  then show ?thesis
  proof cases
    case 4
    then show ?thesis using key_hash_spend_shape [of X w program] by (auto simp: verify_p2wpkh_def verify_key_hash_def)
  qed (use witness_shapes [of w] verify_key_hash_iff [OF assms] verify_classical_hybrid_iff verify_hybrid_iff [OF assms]
      in \<open>auto simp: verify_p2wpkh_def simp del: key_hash_spend.simps\<close>)
qed

section \<open>Inputs that spend a bare witness program\<close>

definition segwit_flags :: "eval_ctx \<Rightarrow> bool" where
  "segwit_flags X \<longleftrightarrow> flag X SCRIPT_VERIFY_WITNESS \<and> flag X SCRIPT_VERIFY_P2SH"

definition v0_output :: "valtype \<Rightarrow> CScript" where
  "v0_output program = push_data [] @ push_data program"

lemma eval_v0_output:
  assumes "length program = 20 \<or> length program = 32"
  shows "EvalScript (with_version BASE X) [] (v0_output program) ed = Inr ([program, []], start_data ed)"
proof -
  have l: "length (v0_output program) \<le> MAX_SCRIPT_SIZE" using assms by (auto simp: v0_output_def push_data_def MAX_SCRIPT_SIZE_def)
  note last_push = eval_loop_push [where pc = "[]", unfolded append_Nil2]
  have "eval_loop (with_version BASE X) (v0_output program) (eval_start [] sc ed) =
    Inr \<lparr>stk = [program, []], altstk = [], vfExec = ConditionStack_new, nOpCount = 0, pbegincodehash = sc, opcode_pos = 2, execdata = start_data ed\<rparr>" for sc
    unfolding v0_output_def using assms by (auto simp: last_push run_simps eval_start_def start_data_def)
  then show ?thesis using l by (simp add: EvalScript_def)
qed

lemma IsWitnessProgram_v0_output:
  assumes "length program = 20 \<or> length program = 32"
  shows "IsWitnessProgram (v0_output program) = Some (0, program)" "\<not> IsPayToScriptHash (v0_output program)"
  using assms by (auto simp: IsWitnessProgram_def v0_output_def push_data_def DecodeOP_N_def IsPayToScriptHash_def)

lemma eval_empty: "EvalScript (with_version BASE X) [] [] ed = Inr ([], start_data ed)"
  by (simp add: EvalScript_def eval_start_def start_data_def)

lemma VerifyScript_v0_output:
  assumes "segwit_flags X" and "length program = 20 \<or> length program = 32"
  shows "VerifyScript X [] (v0_output program) witness =
    (if CastToBool program then VerifyWitnessProgram X witness 0 program False else fails SCRIPT_ERR_EVAL_FALSE)"
proof -
  have "IsPushOnly []" by (subst IsPushOnly.simps) simp
  then show ?thesis
    using assms(1) IsWitnessProgram_v0_output [OF assms(2)]
    by (cases "VerifyWitnessProgram X witness 0 program False")
      (auto simp: VerifyScript_def eval_base_def eval_true_def eval_empty eval_v0_output [OF assms(2)] verify_nested_def verify_final_def segwit_flags_def)
qed

lemma VerifyScript_key_hash:
  assumes "segwit_flags X" and "length program = 20"
  shows "VerifyScript X [] (v0_output program) witness = Inr () \<longleftrightarrow> CastToBool program \<and> key_hash_spend X witness program"
  using VerifyScript_v0_output [OF assms(1), of program witness] assms(2) verify_p2wpkh_iff [OF assms(2)]
  by (simp add: VerifyWitnessProgram_def WITNESS_V0_SCRIPTHASH_SIZE_def WITNESS_V0_KEYHASH_SIZE_def)

lemma VerifyWitnessProgram_script_hash:
  "VerifyWitnessProgram X (stack @ [sc]) 0 (sha256_digest sc) is_p2sh =
   ExecuteWitnessScript (with_version WITNESS_V0 X) stack sc ScriptExecutionData_new"
proof -
  have l: "length (sha256_digest sc) = 32" by (rule length_sha256_digest)
  have "snd (Finalize (Write CSHA256_new sc)) = sha256_digest sc"
    using Finalize_digest(1) [OF written_Write [OF written_new], of sc] by simp
  then show ?thesis using l by (simp add: VerifyWitnessProgram_def verify_p2wsh_def Let_def WITNESS_V0_SCRIPTHASH_SIZE_def)
qed

lemma VerifyWitnessProgram_key_hash:
  "length program = 20 \<Longrightarrow> VerifyWitnessProgram X witness 0 program is_p2sh = verify_p2wpkh X witness program"
  by (simp add: VerifyWitnessProgram_def WITNESS_V0_SCRIPTHASH_SIZE_def WITNESS_V0_KEYHASH_SIZE_def)

section \<open>The properties\<close>

text \<open>C8: The exact spending condition of a key-hash output. An input with an empty \<open>scriptSig\<close> that spends
  \<open>OP_0 <20 bytes>\<close> verifies if and only if the witness has two elements, hybrid signatures are not
  mandatory, the key hashes to the program and the ECDSA signature is accepted; or it has three
  elements, the key and the post-quantum key together hash to the program and the ECDSA signature is
  accepted; or it has four, the post-quantum signature is accepted, and either both keys together hash
  to the program and the ECDSA signature is accepted, or the first two elements alone are a spend.\<close>

theorem key_hash_spending_condition:
  assumes "segwit_flags X" and "length program = 20"
  shows "VerifyScript X [] (v0_output program) witness = Inr () \<longleftrightarrow> CastToBool program \<and> key_hash_spend X witness program"
  by (rule VerifyScript_key_hash [OF assms])

text \<open>A context whose checker accepts everything, on a key-hash output.\<close>

theorem key_hash_spending_condition_witness:
  "VerifyScript (accepting_ctx BASE (SCRIPT_VERIFY_P2SH OR SCRIPT_VERIFY_WITNESS OR SCRIPT_VERIFY_HYBRID_SIG)) []
     (v0_output (hash160 ([2, 5] @ [7]))) [[1], [2, 5], [7]] = Inr () \<longleftrightarrow> CastToBool (hash160 ([2, 5] @ [7]))"
proof -
  let ?X = "accepting_ctx BASE (SCRIPT_VERIFY_P2SH OR SCRIPT_VERIFY_WITNESS OR SCRIPT_VERIFY_HYBRID_SIG)"
  have "segwit_flags ?X" by (simp add: segwit_flags_def has_flag_def)
  moreover have "ecdsa_accepts ?X [1] [2, 5] sc" for sc
    by (simp add: ecdsa_accepts_def CheckSignatureEncoding_def CheckPubKeyEncoding_def has_flag_def accepting_def)
  ultimately show ?thesis using key_hash_spending_condition [of ?X "hash160 ([2, 5] @ [7])" "[[1], [2, 5], [7]]"] by simp
qed

text \<open>C9: The rule that makes hybrid signatures mandatory does not. With the flag set, a program that is the
  hash of an ECDSA key alone is satisfied by signature, key and an empty third element, with no
  post-quantum signature; the same two elements without the third are refused as lacking one; and the
  witness that does carry an accepted post-quantum signature is refused with the same error.\<close>

theorem mandatory_hybrid_signatures_evaded:
  assumes "flag X SCRIPT_VERIFY_HYBRID_SIG" and "sig \<noteq> []" and "pubkey \<noteq> []"
    and "ecdsa_accepts X sig pubkey (implied_script (hash160 pubkey))"
    and "pqc_accepts X sig pqc_sig pqc_pubkey (implied_script (hash160 pubkey))"
  shows "VerifyWitnessProgram X [sig, pubkey, []] 0 (hash160 pubkey) is_p2sh = Inr () \<and>
    VerifyWitnessProgram X [sig, pubkey] 0 (hash160 pubkey) is_p2sh = Inl (Fails SCRIPT_ERR_PQC_SIG) \<and>
    (hash160 (pubkey @ pqc_pubkey) \<noteq> hash160 pubkey \<longrightarrow>
     VerifyWitnessProgram X [sig, pubkey, pqc_sig, pqc_pubkey] 0 (hash160 pubkey) is_p2sh = Inl (Fails SCRIPT_ERR_PQC_SIG))"
proof (intro conjI impI)
  note v = VerifyWitnessProgram_key_hash [of "hash160 pubkey" X _ is_p2sh]
  show "VerifyWitnessProgram X [sig, pubkey, []] 0 (hash160 pubkey) is_p2sh = Inr ()"
    using assms v by (simp add: verify_p2wpkh_iff)
  show "VerifyWitnessProgram X [sig, pubkey] 0 (hash160 pubkey) is_p2sh = Inl (Fails SCRIPT_ERR_PQC_SIG)"
    using v assms(1) by (simp add: verify_p2wpkh_def verify_key_hash_def)
  assume "hash160 (pubkey @ pqc_pubkey) \<noteq> hash160 pubkey"
  moreover have s: "is_dilithium pqc_sig pqc_pubkey \<or> is_sphincs pqc_sig pqc_pubkey \<or> is_falcon pqc_sig pqc_pubkey \<or> is_falcon1024 pqc_sig pqc_pubkey"
    by (rule pqc_accepts_size [OF assms(5)])
  moreover have "check_pqc X sig pqc_sig pqc_pubkey (implied_script (hash160 pubkey)) = Inr ()" using assms(5) s by (simp add: check_pqc_iff)
  ultimately show "VerifyWitnessProgram X [sig, pubkey, pqc_sig, pqc_pubkey] 0 (hash160 pubkey) is_p2sh = Inl (Fails SCRIPT_ERR_PQC_SIG)"
    using v assms(1-3) by (auto simp: verify_p2wpkh_def verify_hybrid_def verify_key_hash_def hash_matches_iff Let_def)
qed

theorem mandatory_hybrid_signatures_evaded_witness:
  "VerifyWitnessProgram (accepting_ctx BASE SCRIPT_VERIFY_HYBRID_SIG) [[1], [2, 5], []] 0 (hash160 [2, 5]) False = Inr () \<and>
   VerifyWitnessProgram (accepting_ctx BASE SCRIPT_VERIFY_HYBRID_SIG) [[1], [2, 5]] 0 (hash160 [2, 5]) False = Inl (Fails SCRIPT_ERR_PQC_SIG)"
proof -
  let ?X = "accepting_ctx BASE SCRIPT_VERIFY_HYBRID_SIG"
  have "ecdsa_accepts ?X [1] [2, 5] sc" for sc
    by (simp add: ecdsa_accepts_def CheckSignatureEncoding_def CheckPubKeyEncoding_def has_flag_def accepting_def)
  moreover have "pqc_accepts ?X [1] (replicate 666 0) (replicate 897 0) sc" for sc
    by (simp add: pqc_accepts_def is_falcon_def Falcon_SIGNATURE_SIZE_def Falcon_PUBLIC_KEY_SIZE_def accepting_def)
  ultimately show ?thesis using mandatory_hybrid_signatures_evaded [of ?X "[1]" "[2, 5]" "replicate 666 0" "replicate 897 0" False]
    by (simp add: has_flag_def)
qed

text \<open>C10: The two ways to spend a hash time lock output. The witness \<open>[sig, secret, 01, script]\<close> satisfies its
  program if and only if the secret hashes to the lock's hash and the buyer's signature is accepted;
  \<open>[sig, empty, script]\<close> if and only if the lock time check of the transaction holds, where it is
  enforced, and the seller's signature is accepted. The witness that the swap documents describe,
  signature, secret and script without the branch selector, never does: the secret is consumed as the
  condition of \<open>OP_IF\<close>.\<close>

theorem htlc_output_spending:
  assumes "htlc_terms h buyer locktime seller"
  defines "sc \<equiv> htlc_script h buyer locktime seller"
  shows "(VerifyWitnessProgram X [sig, secret, [1], sc] 0 (sha256_digest sc) is_p2sh = Inr () \<longleftrightarrow>
       length sig \<le> 520 \<and> length secret \<le> 520 \<and> sha256_digest secret = h \<and> ecdsa_accepts X sig buyer sc) \<and>
    (VerifyWitnessProgram X [sig, [], sc] 0 (sha256_digest sc) is_p2sh = Inr () \<longleftrightarrow>
       length sig \<le> 520 \<and> (flag X SCRIPT_VERIFY_CHECKLOCKTIMEVERIFY \<longrightarrow> CheckLockTime (ctx_checker X) locktime = Inr True) \<and>
       ecdsa_accepts X sig seller sc) \<and>
    (CastToBool secret \<longrightarrow> VerifyWitnessProgram X [sig, secret, sc] 0 (sha256_digest sc) is_p2sh \<noteq> Inr ())"
proof (intro conjI impI)
  let ?Y = "with_version WITNESS_V0 X"
  note V = VerifyWitnessProgram_script_hash [of X _ sc is_p2sh]
  have y: "ctx_sigversion ?Y = WITNESS_V0" by simp
  show "VerifyWitnessProgram X [sig, secret, [1], sc] 0 (sha256_digest sc) is_p2sh = Inr () \<longleftrightarrow>
       length sig \<le> 520 \<and> length secret \<le> 520 \<and> sha256_digest secret = h \<and> ecdsa_accepts X sig buyer sc"
  proof (cases "sha256_digest secret = h")
    case True
    then show ?thesis using V [of "[sig, secret, [1]]"] run_to_checksig [of X "[sig, secret, [1]]" sc sig buyer]
        eval_htlc_claim [OF y assms(1), of secret sig, folded sc_def] by simp
  next
    case False
    then show ?thesis using V [of "[sig, secret, [1]]"] run_fails [of X "[sig, secret, [1]]" sc]
        eval_htlc_claim [OF y assms(1), of secret sig, folded sc_def] by simp
  qed
  show "VerifyWitnessProgram X [sig, [], sc] 0 (sha256_digest sc) is_p2sh = Inr () \<longleftrightarrow>
       length sig \<le> 520 \<and> (flag X SCRIPT_VERIFY_CHECKLOCKTIMEVERIFY \<longrightarrow> CheckLockTime (ctx_checker X) locktime = Inr True) \<and>
       ecdsa_accepts X sig seller sc"
  proof (cases "flag X SCRIPT_VERIFY_CHECKLOCKTIMEVERIFY \<longrightarrow> CheckLockTime (ctx_checker X) locktime = Inr True")
    case True
    then show ?thesis using V [of "[sig, []]"] run_to_checksig [of X "[sig, []]" sc sig seller]
        eval_htlc_refund [OF y assms(1), of sig, folded sc_def] by auto
  next
    case False
    then have "\<exists>e. EvalScript ?Y [[], sig] sc ScriptExecutionData_new = Inl e"
      using eval_htlc_refund [OF y assms(1), of sig, folded sc_def] by (auto simp: bind_script_def split: sum.splits)
    then show ?thesis using V [of "[sig, []]"] run_fails [of X "[sig, []]" sc] False by auto
  qed
  assume "CastToBool secret"
  then have "\<exists>e. EvalScript ?Y [secret, sig] sc ScriptExecutionData_new = Inl e"
    using eval_htlc_two_elements [OF y assms(1), of secret sig, folded sc_def] by simp
  then show "VerifyWitnessProgram X [sig, secret, sc] 0 (sha256_digest sc) is_p2sh \<noteq> Inr ()"
    using V [of "[sig, secret]"] run_fails [of X "[sig, secret]" sc] by auto
qed

definition example_htlc :: CScript where
  "example_htlc = htlc_script (sha256_digest [9]) (2 # replicate 32 1) 40000 (3 # replicate 32 1)"

lemma example_htlc_terms: "htlc_terms (sha256_digest [9]) (2 # replicate 32 1) 40000 (3 # replicate 32 1)"
  by (simp add: htlc_terms_def length_sha256_digest)

theorem htlc_output_spending_witness:
  "VerifyWitnessProgram (accepting_ctx BASE 0) [[1], [9], [1], example_htlc] 0 (sha256_digest example_htlc) False = Inr () \<and>
   VerifyWitnessProgram (accepting_ctx BASE 0) [[1], [9], example_htlc] 0 (sha256_digest example_htlc) False \<noteq> Inr ()"
proof -
  have "ecdsa_accepts (accepting_ctx BASE 0) [1] k sc" for k sc
    by (simp add: ecdsa_accepts_def CheckSignatureEncoding_def CheckPubKeyEncoding_def has_flag_def accepting_def)
  then show ?thesis
    using htlc_output_spending [OF example_htlc_terms, of "accepting_ctx BASE 0" "[1]" "[9]" False] unfolding example_htlc_def by simp
qed

end
