(* ===== verification/Pqc_Validation.thy ===== *)
theory Pqc_Validation
  imports Witness_Properties Consensus_Params
begin

unbundle bit_operations_syntax

text \<open>
  The block rules for post-quantum witnesses: the script flags of a block
  (\<open>GetBlockScriptFlags\<close> of \<^verbatim>\<open>src/src/validation.cpp\<close>) and the structural check that connecting a block
  makes of every transaction (\<^verbatim>\<open>src/src/consensus/pqc_validation.cpp\<close>). A transaction is the list of
  the witness stacks of its inputs. Whether a deployment is active at a block is a parameter.
\<close>

section \<open>Script flags of a block\<close>

datatype deployment = DEPLOYMENT_DERSIG | DEPLOYMENT_CLTV | DEPLOYMENT_CSV | DEPLOYMENT_SEGWIT | DEPLOYMENT_PQC

definition raise_flag :: "bool \<Rightarrow> uint32 \<Rightarrow> uint32 \<Rightarrow> uint32" where
  "raise_flag b f flags = (if b then flags OR f else flags)"

definition GetBlockScriptFlags :: "Params \<Rightarrow> (deployment \<Rightarrow> bool) \<Rightarrow> uint32 option \<Rightarrow> int \<Rightarrow> uint32" where
  "GetBlockScriptFlags consensusparams active exception nHeight =
     (let flags = (case exception of None \<Rightarrow> SCRIPT_VERIFY_P2SH OR SCRIPT_VERIFY_WITNESS OR SCRIPT_VERIFY_TAPROOT | Some f \<Rightarrow> f);
          flags = raise_flag (active DEPLOYMENT_DERSIG) SCRIPT_VERIFY_DERSIG flags;
          flags = raise_flag (active DEPLOYMENT_CLTV) SCRIPT_VERIFY_CHECKLOCKTIMEVERIFY flags;
          flags = raise_flag (active DEPLOYMENT_CSV) SCRIPT_VERIFY_CHECKSEQUENCEVERIFY flags;
          flags = raise_flag (active DEPLOYMENT_SEGWIT) SCRIPT_VERIFY_NULLDUMMY flags;
          flags = raise_flag (active DEPLOYMENT_PQC) SCRIPT_VERIFY_PQC flags
      in raise_flag (active DEPLOYMENT_PQC \<and> nHeight \<ge> nHybridSigHeight consensusparams) SCRIPT_VERIFY_HYBRID_SIG flags)"

section \<open>The structural check\<close>

definition IsPQCWitness :: "valtype \<Rightarrow> valtype \<Rightarrow> bool" where
  "IsPQCWitness sig_elem pk_elem \<longleftrightarrow>
     (if is_dilithium sig_elem pk_elem then True
      else if is_falcon sig_elem pk_elem then True
      else if is_falcon1024 sig_elem pk_elem then True
      else is_sphincs sig_elem pk_elem)"

definition HasPQCSignatures :: "valtype list list \<Rightarrow> bool" where
  "HasPQCSignatures vin \<longleftrightarrow> list_ex (\<lambda>stack. length stack = 4 \<and> IsPQCWitness (stack ! 2) (stack ! 3)) vin"

text \<open>The reason and the input of a rejection.\<close>

datatype pqc_reject = bad_pqc_witness nat | missing_pqc_sig nat

fun check_pqc_inputs :: "uint32 \<Rightarrow> nat \<Rightarrow> valtype list list \<Rightarrow> pqc_reject + unit" where
  "check_pqc_inputs flags i [] = Inr ()"
| "check_pqc_inputs flags i (witness_stack # vin) =
     (if witness_stack = [] then check_pqc_inputs flags (Suc i) vin
      else if length witness_stack = 4
      then if \<not> IsPQCWitness (witness_stack ! 2) (witness_stack ! 3) then Inl (bad_pqc_witness i)
           else check_pqc_inputs flags (Suc i) vin
      else if has_flag flags SCRIPT_VERIFY_HYBRID_SIG \<and> length witness_stack = 2 then Inl (missing_pqc_sig i)
      else check_pqc_inputs flags (Suc i) vin)"

definition CheckPQCSignatures :: "uint32 \<Rightarrow> valtype list list \<Rightarrow> pqc_reject + unit" where
  "CheckPQCSignatures flags vin = (if \<not> has_flag flags SCRIPT_VERIFY_PQC then Inr () else check_pqc_inputs flags 0 vin)"

text \<open>What connecting a block asks of a transaction that is not a coinbase.\<close>

definition connect_precheck :: "uint32 \<Rightarrow> valtype list list \<Rightarrow> pqc_reject + unit" where
  "connect_precheck flags vin = (if has_flag flags SCRIPT_VERIFY_HYBRID_SIG then CheckPQCSignatures flags vin else Inr ())"

section \<open>Lemmas\<close>

lemma has_flag_or: "has_flag (x OR y) f \<longleftrightarrow> has_flag x f \<or> has_flag y f"
  by (auto simp: has_flag_def bit_eq_iff bit_and_iff bit_or_iff)

lemma has_flag_raise: "has_flag (raise_flag b f flags) g \<longleftrightarrow> has_flag flags g \<or> b \<and> has_flag f g"
  by (simp add: raise_flag_def has_flag_or)

lemma block_flags:
  "has_flag (GetBlockScriptFlags params active None nHeight) SCRIPT_VERIFY_PQC \<longleftrightarrow> active DEPLOYMENT_PQC"
  "has_flag (GetBlockScriptFlags params active None nHeight) SCRIPT_VERIFY_HYBRID_SIG \<longleftrightarrow>
     active DEPLOYMENT_PQC \<and> nHybridSigHeight params \<le> nHeight"
  by (auto simp: GetBlockScriptFlags_def Let_def has_flag_raise) (simp_all add: has_flag_def)

lemma check_pqc_inputs_iff:
  "check_pqc_inputs flags i vin = Inr () \<longleftrightarrow>
   list_all (\<lambda>stack. (length stack = 4 \<longrightarrow> IsPQCWitness (stack ! 2) (stack ! 3)) \<and>
     (has_flag flags SCRIPT_VERIFY_HYBRID_SIG \<longrightarrow> length stack \<noteq> 2)) vin"
  by (induction flags i vin rule: check_pqc_inputs.induct) auto

lemma IsPQCWitness_short: "length sig_elem < 666 \<Longrightarrow> \<not> IsPQCWitness sig_elem pk_elem"
  by (simp add: IsPQCWitness_def is_dilithium_def is_falcon_def is_falcon1024_def is_sphincs_def Dilithium_SIGNATURE_SIZE_def
      Falcon_SIGNATURE_SIZE_def Falcon1024_SIGNATURE_SIZE_def SPHINCS_SIGNATURE_SIZE_def)

section \<open>The properties\<close>

text \<open>C11: Where hybrid signatures are enforced, a hash time lock output can be refunded and not claimed. The block
  check refuses every transaction with an input whose witness is the claim \<open>[sig, secret, 01, script]\<close>,
  because its third and fourth element have not the sizes of a post-quantum signature and key; it
  lets the refund \<open>[sig, empty, script]\<close> pass, and the witness \<open>[sig, key, empty]\<close> that has no
  post-quantum signature. It is enforced exactly where the deployment is active from
  \<open>nHybridSigHeight\<close> on: on no block of the three production chains, from block 200 on in regression
  tests.\<close>

theorem hybrid_rules_refuse_htlc_claims:
  "let flags = GetBlockScriptFlags params active None nHeight in
   (has_flag flags SCRIPT_VERIFY_HYBRID_SIG \<longleftrightarrow> active DEPLOYMENT_PQC \<and> nHybridSigHeight params \<le> nHeight) \<and>
   (has_flag flags SCRIPT_VERIFY_HYBRID_SIG \<longrightarrow>
      ([sig, secret, [1], sc] \<in> set vin \<longrightarrow> connect_precheck flags vin \<noteq> Inr ()) \<and>
      connect_precheck flags [[sig, [], sc]] = Inr () \<and>
      connect_precheck flags [[sig, pubkey, []]] = Inr () \<and>
      connect_precheck flags [[sig, pubkey]] = Inl (missing_pqc_sig 0)) \<and>
   (params \<in> {CMainParams, CQbtcMainParams, CQbtcTestNetParams} \<longrightarrow> nHeight < 2 ^ 31 - 1 \<longrightarrow>
      \<not> has_flag flags SCRIPT_VERIFY_HYBRID_SIG) \<and>
   nHybridSigHeight CRegTestParams = 200"
proof -
  have "connect_precheck f vin \<noteq> Inr ()" if "has_flag f SCRIPT_VERIFY_HYBRID_SIG" "has_flag f SCRIPT_VERIFY_PQC" "[sig, secret, [1], sc] \<in> set vin" for f
    using that IsPQCWitness_short [of "[1]" sc]
    by (auto simp: connect_precheck_def CheckPQCSignatures_def check_pqc_inputs_iff list_all_iff intro!: bexI [of _ "[sig, secret, [1], sc]"])
  then show ?thesis
    by (auto simp: Let_def block_flags connect_precheck_def CheckPQCSignatures_def chain_params int_max_def)
qed

definition regtest_active :: "deployment \<Rightarrow> bool" where
  "regtest_active d \<longleftrightarrow> True"

theorem hybrid_rules_refuse_htlc_claims_witness:
  "connect_precheck (GetBlockScriptFlags CRegTestParams regtest_active None 200) [[[1], [9], [1], example_htlc]] \<noteq> Inr () \<and>
   connect_precheck (GetBlockScriptFlags CRegTestParams regtest_active None 200) [[[1], [], example_htlc]] = Inr ()"
  using hybrid_rules_refuse_htlc_claims [of CRegTestParams regtest_active 200 "[1]" "[9]" example_htlc "[[[1], [9], [1], example_htlc]]" "[2, 5]"]
  by (simp add: Let_def regtest_active_def)

end
