(* ===== verification/Spec2Isabelle.thy ===== *)
theory Spec2Isabelle
  imports Dag_Tip_Set Topological_Order Catalogue Deploy Htlc_Safety Subsidy Pow_Properties Pqc_Validation
begin

text \<open>
  QuantBTC is a fork of Bitcoin Core whose blocks form a DAG ordered by GHOSTDAG, together with a
  hash time lock contract for Ethereum and the scripts that deploy it, through which QBTC is swapped
  against USDC.

  \<^bold>\<open>Parts and their theories.\<close>
  \<^item> \<open>Js_Runtime\<close>, \<open>Hardhat_Config\<close>, \<open>Deploy\<close>: the deployment. \<open>Hardhat_Config\<close> is the object
    exported by \<^verbatim>\<open>src/contrib/evm-htlc/hardhat.config.js\<close> as a function of the environment
    variables; \<open>Deploy\<close> is \<^verbatim>\<open>src/contrib/evm-htlc/scripts/deploy.js\<close> as a computation over a trace of
    calls and printed lines. An asynchronous function returns a value, throws, or stays pending
    (\<open>outcome\<close>). Hardhat, ethers, Etherscan and the terminal are the record \<open>hre\<close>, arbitrary
    functions of the calls made so far; \<open>ethers_laws\<close> says what is relied on of a deployment.
  \<^item> \<open>Htlc\<close>, \<open>Htlc_Safety\<close>: \<^verbatim>\<open>src/contrib/evm-htlc/contracts/QBTCUSDCHTLC.sol\<close>. \<open>world\<close> is the contract's
    storage, its event log and the token's own state; \<open>message_call\<close> dispatches one call and rolls
    back when it reverts. The token, the reentrancy guard and keccak256 are parameters (\<open>evm\<close>): token code may call
    back into the contract; the named hypotheses \<open>guard_laws\<close> and \<open>standard_token\<close> say what is relied
    on, and the examples instantiate them. Whether the token accepts a transfer is never assumed.
  \<^item> \<open>Tip_Tracker\<close>, \<open>Dag_Tip_Set\<close>: \<^verbatim>\<open>src/src/dag/dagtipset.cpp\<close>. The locale \<open>tip_tracker\<close> is the contract of a
    tracker of childless blocks; \<open>Dag_Tip_Set\<close> interprets it.
  \<^item> \<open>Ghostdag\<close>, \<open>Dag_Provider\<close>, \<open>Ghostdag_BlockIndex\<close>, \<open>Ghostdag_Scoring\<close>, \<open>Topological_Order\<close>:
    \<^verbatim>\<open>src/src/dag/ghostdag.cpp\<close> and the provider \<^verbatim>\<open>src/src/dag/ghostdag_blockindex.h\<close>. The locale \<open>dag_provider\<close> is
    what scoring relies on; it is interpreted on the block index.
  \<^item> \<open>Block_Index\<close>: \<^verbatim>\<open>CBlockIndex\<close>, the skip list and \<^verbatim>\<open>AddToBlockIndex\<close> (\<^verbatim>\<open>src/src/chain.cpp\<close>,
    \<^verbatim>\<open>src/src/node/blockstorage.cpp\<close>).
  \<^item> \<open>Consensus_Params\<close>, \<open>Subsidy\<close>, \<open>Pow\<close>, \<open>Pow_Bounds\<close>, \<open>Pow_Properties\<close>: the parameters of the chains
    (\<^verbatim>\<open>src/src/kernel/chainparams.cpp\<close>), the block subsidy (\<^verbatim>\<open>src/src/validation.cpp\<close>), difficulty
    adjustment and the proof-of-work check (\<^verbatim>\<open>src/src/pow.cpp\<close>).
  \<^item> \<open>Serialize\<close>, \<open>Sha256\<close>, \<open>Block_Header\<close>, \<open>Arith_Uint256\<close>: the byte formats, hashing and
    256-bit numbers these parts share.
  \<^item> \<open>Script\<close>, \<open>Hash_Stream\<close>, \<open>Script_Interpreter\<close>, \<open>Witness_Program\<close>: scripts, their numbers and templates
    (\<^verbatim>\<open>src/src/script/script.h\<close>), RIPEMD-160 and SHA-1, and the interpreter with every instruction up to
    \<open>VerifyScript\<close> (\<^verbatim>\<open>src/src/script/interpreter.cpp\<close>); \<open>Pqc_Validation\<close>: the flags of a block and the
    structural check of post-quantum witnesses (\<^verbatim>\<open>src/src/consensus/pqc_validation.cpp\<close>). \<open>eval_state\<close> is the state of one evaluation,
    \<open>eval_step\<close> one round of its loop; the signature checker is the record \<open>checker\<close> of its virtual
    methods. \<open>Script_Safety\<close>, \<open>Script_Execution\<close> and \<open>Witness_Properties\<close> hold the lemmas; the locale
    \<open>condition_stack\<close> is the contract of the stack of nested conditionals, \<open>block_hash\<close> that of the
    buffered hash classes.
  \<^item> \<open>Tinyformat\<close>, \<open>Catalogue\<close>: the format strings of log and error messages and their translations.

  \<^bold>\<open>Conventions.\<close> Unsigned integers that may wrap are words of their width, other integers are
  \<open>int\<close> or \<open>nat\<close>. Pointers into the block index are hashes. Exceptions, failed assertions, reverts and
  rejected promises are values of sum types or of \<open>outcome\<close>. State is passed explicitly.

  \<^bold>\<open>What the lemmas show.\<close>
  \<^item> Deployment: every run is an initial part of one planned trace; mainnet needs a typed confirmation;
    the run completes when its environment answers; source verification is never fatal; what a run
    reports of the deployment is true of the contract.
  \<^item> Contract: reentrant calls revert, locks keep their terms, settle exactly once and on time, the event log
    mirrors storage, the contract is solvent, and an open lock settles whenever the token accepts the payment.
  \<^item> DAG: tips are the childless blocks; scoring is total within its caps, independent of iteration order, bounded by \<open>K\<close> and
    increases along edges; the ancestor search is exact within its bounds; ordering refines a greedy reference.
  \<^item> Consensus arithmetic: compact targets round trip, subsidies are bounded by the supply, difficulty changes by a
    bounded factor per block and stays within the limit; required bits depend on the headers alone unless the
    transaction load counts, and header synchronisation refuses targets that the adjustment requires.
  \<^item> Scripts: the interpreter keeps the stack limits and never runs into one of its assertions; the exact conditions
    under which key-hash and hash time lock outputs are spent, with and without mandatory hybrid signatures.
  \<^item> Encodings: script numbers and headers round trip; the hash of a DAG block commits to its parents; the streaming hash is the hash of the whole.

  \<^bold>\<open>Bounds and fuel.\<close> \<open>message_call\<close> takes the depth of nested calls the token may make; the lemmas hold
  for every depth. Loops of the C++ code whose end depends on the index are \<open>partial_function (option)\<close> with
  separate theorems that they return. The caps \<open>MAX_MERGESET_SIZE\<close> and \<open>MAX_ANCESTOR_BFS_NODES\<close> are those of the
  source.

  \<^bold>\<open>Not modelled.\<close> The test token and the tests of the contract; the parts inherited from Bitcoin Core
  that are dominated by I/O, databases and locking (networking, RPC, wallet, GUI, storage); the signature hash and the transaction checker, which enter
  as an arbitrary \<open>checker\<close>; libsecp256k1 and the lattice and hash based
  signature schemes, which are parameters; SIMD variants of the hash functions.
\<close>

section \<open>The two legs of a swap\<close>

text \<open>\<open>OP_SHA256\<close> of \<^verbatim>\<open>src/src/script/interpreter.cpp\<close>: replaces the top of the stack (the last
  element) by its hash; fails on an empty stack.\<close>

definition op_sha256 :: "uint8 list list \<Rightarrow> uint8 list list option" where
  "op_sha256 stack =
     (if stack = [] then None
      else Some (butlast stack @ [snd (Finalize (Write CSHA256_new (last stack)))]))"

lemma Finalize_Write_new: "snd (Finalize (Write CSHA256_new bs)) = sha256_digest bs"
  using Finalize_digest(1) [OF written_Write [OF written_new, of bs]] by simp

lemma be_bytes_digest: "length d = 32 \<Longrightarrow> be_bytes 32 (unat (digest_uint256 d)) = d"
proof -
  assume l: "length d = 32"
  have "le_val (rev d) < 2 ^ LENGTH(256)" using le_val_bound [of "rev d"] l by simp
  then have "unat (digest_uint256 d) = le_val (rev d)" unfolding digest_uint256_def by (rule unat_of_nat_small)
  then show ?thesis using le_bytes_le_val [of "rev d"] l by (simp add: be_bytes_def)
qed

text \<open>C7: A secret revealed on one chain opens the other. If a lock of the Ethereum contract was
  withdrawn, then pushing the preimage stored with it on the stack of a QBTC script and executing
  \<open>OP_SHA256\<close> leaves exactly the bytes of that lock's hashlock, and the preimage can also be read from
  the event log.\<close>

theorem preimage_opens_both_legs:
  assumes "guard_laws P idle busy" and "reachable_htlc P idle balanceOf now w"
    and "c = getContract i w" and "withdrawn c"
  shows "op_sha256 (stack @ [be_bytes 32 (unat (preimage c))]) = Some (stack @ [be_bytes 32 (unat (hashlock c))]) \<and>
    HTLCWithdraw i (preimage c) \<in> set (events w)"
proof -
  note inv = reachable_htlc_inv [OF assms(1,2)]
  have "hashlock c = sha256_word (preimage c)"
    using inv assms(3,4) by (simp add: htlc_inv_def lock_ok_def getContract_def)
  then have "be_bytes 32 (unat (hashlock c)) = sha256_digest (be_bytes 32 (unat (preimage c)))"
    by (simp add: sha256_word_def be_bytes_digest length_sha256_digest)
  then show ?thesis
    using inv assms(3,4) by (simp add: op_sha256_def Finalize_Write_new htlc_inv_def getContract_def)
qed

theorem preimage_opens_both_legs_witness:
  "\<exists>w. message_call plain_evm (Suc 0) 200 8 (Withdraw 5 11) example_locked = (ReturnsNothing, w) \<and>
     op_sha256 [be_bytes 32 (unat (preimage (getContract 5 w)))] = Some [be_bytes 32 (unat (hashlock (getContract 5 w)))]"
proof -
  obtain w where w: "message_call plain_evm (Suc 0) 200 8 (Withdraw 5 11) example_locked = (ReturnsNothing, w)"
    and c: "claimed plain_evm True 200 5 11 example_locked w"
    using example_withdraw by blast
  have "reachable_htlc plain_evm False (\<lambda>t. t) 200 w"
    by (rule reachable_htlc.called [OF example_reachable _ _ _ w]) (simp_all add: plain_evm_def)
  moreover have "withdrawn (getContract 5 w)" using c by (simp add: claimed_def Let_def getContract_def)
  ultimately show ?thesis
    using preimage_opens_both_legs [OF plain_guard_laws _ refl, of "\<lambda>t. t" 200 w 5 "[]"] w by auto
qed

section \<open>From the script to the contract\<close>

text \<open>What ethers documents of a deployment. \<open>deploy\<close> resolves to a contract object as soon as the
  transaction is sent, whatever becomes of it; \<open>waitForDeployment\<close> waits until it is mined and does
  not resolve if the constructor reverted. A getter of the contract, when it answers, returns what
  the deployed contract holds; addresses are read by \<open>parse\<close> and printed by \<open>render\<close>. The contract
  object itself (\<open>'h\<close>) is opaque; what was deployed is known from the calls made so far.\<close>

fun deployments :: "call list \<Rightarrow> js_string list" where
  "deployments [] = []"
| "deployments (FactoryDeploy t # cs) = t # deployments cs"
| "deployments (_ # cs) = deployments cs"

definition ethers_laws :: "'g \<Rightarrow> (js_string \<Rightarrow> address) \<Rightarrow> (address \<Rightarrow> js_string) \<Rightarrow> 'h hre \<Rightarrow> bool" where
  "ethers_laws idle parse render H \<longleftrightarrow>
     (\<forall>cs t c e. deployments cs = [t] \<and> constructor idle (parse t) = Inl e \<longrightarrow> waitForDeployment H cs c \<noteq> Value ()) \<and>
     (\<forall>cs t c st v. deployments cs = [t] \<and> constructor idle (parse t) = Inr st \<and> read_TOKEN H cs c = Value v \<longrightarrow>
        v = render (TOKEN st)) \<and>
     (\<forall>cs t c st v. deployments cs = [t] \<and> constructor idle (parse t) = Inr st \<and> read_MIN_LOCKTIME H cs c = Value v \<longrightarrow>
        v = unat MIN_LOCKTIME)"

text \<open>What the printed lines and the verification request say about the contract, for the resolved
  token \<open>t\<close>: that it exists, its token, its minimum lock time, and its constructor argument.\<close>

fun true_line :: "'g \<Rightarrow> (js_string \<Rightarrow> address) \<Rightarrow> (address \<Rightarrow> js_string) \<Rightarrow> js_string \<Rightarrow> line \<Rightarrow> bool" where
  "true_line idle parse render t (LogDeployedAt a) = (\<exists>st. constructor idle (parse t) = Inr st)"
| "true_line idle parse render t (LogTokenImmutable v) = (\<exists>st. constructor idle (parse t) = Inr st \<and> v = render (TOKEN st))"
| "true_line idle parse render t (LogMinLocktime x y) = (x = unat MIN_LOCKTIME \<and> y = unat MIN_LOCKTIME)"
| "true_line idle parse render t LogVerified = (\<exists>st. constructor idle (parse t) = Inr st)"
| "true_line idle parse render t (LogSummary n a t' d b) = (t' = t \<and> (\<exists>st. constructor idle (parse t) = Inr st))"
| "true_line idle parse render t _ = True"

fun true_call :: "'g \<Rightarrow> (js_string \<Rightarrow> address) \<Rightarrow> js_string \<Rightarrow> call \<Rightarrow> bool" where
  "true_call idle parse t (FactoryDeploy t') = (t' = t)"
| "true_call idle parse t (RunVerify a args) = (args = [t] \<and> (\<exists>st. constructor idle (parse t) = Inr st))"
| "true_call idle parse t _ = True"

definition true_io :: "'g \<Rightarrow> (js_string \<Rightarrow> address) \<Rightarrow> (address \<Rightarrow> js_string) \<Rightarrow> js_string \<Rightarrow> io \<Rightarrow> bool" where
  "true_io idle parse render t u \<longleftrightarrow>
     list_all (true_line idle parse render t) (console u) \<and> list_all (true_call idle parse t) (calls u)"

lemma deployments_append: "deployments (xs @ ys) = deployments xs @ deployments ys"
  by (induction xs rule: deployments.induct) simp_all

lemmas script_steps = await_then_def external_def console_log_def resolve_def throw_def try_catch_def

lemma preparation_true:
  assumes "true_io idle parse render t u"
  shows "true_io idle parse render t (snd (preparation env H u))"
  using assms
  by (auto simp: true_io_def preparation_def resolve_token_eq deployer_info_def confirm_mainnet_def script_steps
      split: outcome.splits option.splits list.splits)

text \<open>After the deployment of \<open>t\<close> nothing else is deployed and everything reported stays true.\<close>

definition deployed_io :: "'g \<Rightarrow> (js_string \<Rightarrow> address) \<Rightarrow> (address \<Rightarrow> js_string) \<Rightarrow> js_string \<Rightarrow> io \<Rightarrow> bool" where
  "deployed_io idle parse render t u \<longleftrightarrow> true_io idle parse render t u \<and> deployments (calls u) = [t]"

lemma deployed_io_external:
  "deployed_io idle parse render t u \<Longrightarrow> true_call idle parse t c \<Longrightarrow> deployments [c] = [] \<Longrightarrow>
   deployed_io idle parse render t (snd (external c r u))"
  by (simp add: deployed_io_def true_io_def external_def deployments_append)

lemma deployed_io_console:
  "deployed_io idle parse render t u \<Longrightarrow> true_line idle parse render t l \<Longrightarrow> deployed_io idle parse render t (snd (console_log l u))"
  by (simp add: deployed_io_def true_io_def console_log_def)

lemma deployed_io_calls:
  "external c r u = (Value x, v) \<Longrightarrow> deployed_io idle parse render t v \<Longrightarrow> deployments [c] = [] \<Longrightarrow>
   r (calls u) = Value x \<and> deployments (calls u) = [t]"
  by (auto simp: external_def deployed_io_def deployments_append)

lemma ethers_lawsD:
  assumes "ethers_laws idle parse render H" and "deployments cs = [t]"
  shows "waitForDeployment H cs c = Value () \<Longrightarrow> \<exists>st. constructor idle (parse t) = Inr st"
    and "constructor idle (parse t) = Inr st \<Longrightarrow> read_TOKEN H cs c = Value v \<Longrightarrow> v = render (TOKEN st)"
    and "constructor idle (parse t) = Inr st \<Longrightarrow> read_MIN_LOCKTIME H cs c = Value n \<Longrightarrow> n = unat MIN_LOCKTIME"
proof -
  note laws = assms(1) [unfolded ethers_laws_def]
  show "\<exists>st. constructor idle (parse t) = Inr st" if "waitForDeployment H cs c = Value ()"
    using laws [THEN conjunct1, rule_format, of cs t _ c] assms(2) that by (cases "constructor idle (parse t)") auto
  show "v = render (TOKEN st)" if "constructor idle (parse t) = Inr st" "read_TOKEN H cs c = Value v"
    using laws [THEN conjunct2, THEN conjunct1, rule_format, of cs t st c v] assms(2) that by blast
  show "n = unat MIN_LOCKTIME" if "constructor idle (parse t) = Inr st" "read_MIN_LOCKTIME H cs c = Value n"
    using laws [THEN conjunct2, THEN conjunct2, rule_format, of cs t st c n] assms(2) that by blast
qed

lemma reports_true:
  assumes laws: "ethers_laws idle parse render H" and st: "constructor idle (parse t) = Inr st"
    and u: "deployed_io idle parse render t u"
  shows "deployed_io idle parse render t (snd (
     await_then (external GetAddress (\<lambda>h. getAddress H h c)) (\<lambda>address.
     await_then (console_log (LogDeployedAt address)) (\<lambda>_.
     await_then (external ReadTOKEN (\<lambda>h. read_TOKEN H h c)) (\<lambda>token.
     await_then (console_log (LogTokenImmutable token)) (\<lambda>_.
     await_then (external ReadMIN_LOCKTIME (\<lambda>h. read_MIN_LOCKTIME H h c)) (\<lambda>seconds.
     await_then (external ReadMIN_LOCKTIME (\<lambda>h. read_MIN_LOCKTIME H h c)) (\<lambda>seconds'.
     await_then (console_log (LogMinLocktime seconds seconds')) (\<lambda>_.
     resolve (c, address)))))))) u))"
proof (intro await_then_state [where P = "deployed_io idle parse render t"] deployed_io_external deployed_io_console)
  fix v w x
  show "true_line idle parse render t (LogTokenImmutable x)"
    if "external ReadTOKEN (\<lambda>h. read_TOKEN H h c) v = (Value x, w)" "deployed_io idle parse render t w"
    using deployed_io_calls [OF that] ethers_lawsD(2) [OF laws _ st] st by auto
next
  fix v w v' w' x y
  show "true_line idle parse render t (LogMinLocktime x y)"
    if "external ReadMIN_LOCKTIME (\<lambda>h. read_MIN_LOCKTIME H h c) v = (Value x, w)" "deployed_io idle parse render t w"
      "external ReadMIN_LOCKTIME (\<lambda>h. read_MIN_LOCKTIME H h c) v' = (Value y, w')" "deployed_io idle parse render t w'"
    using deployed_io_calls [OF that(1,2)] deployed_io_calls [OF that(3,4)] ethers_lawsD(3) [OF laws _ st] by auto
qed (use u st in \<open>simp_all add: resolve_def\<close>)

lemma deploy_contract_true:
  assumes laws: "ethers_laws idle parse render H" and u: "true_io idle parse render t u" "deployments (calls u) = []"
  shows "true_io idle parse render t (snd (deploy_contract H t u))"
    and "deploy_contract H t u = (Value (c, a), v) \<Longrightarrow>
      \<exists>st. constructor idle (parse t) = Inr st \<and> LogTokenImmutable (render (TOKEN st)) \<in> set (console v)"
proof -
  let ?c1 = "calls u @ [GetContractFactory (lit ''QBTCUSDCHTLC'')]"
  let ?c2 = "?c1 @ [FactoryDeploy t]"
  have c2: "deployments ?c2 = [t]" by (simp add: deployments_append u)
  show "true_io idle parse render t (snd (deploy_contract H t u))"
  proof (cases "\<exists>x. getContractFactory H (calls u) = Value () \<and> factory_deploy H ?c1 t = Value x \<and> waitForDeployment H ?c2 x = Value ()")
    case True
    then obtain x where x: "getContractFactory H (calls u) = Value ()" "factory_deploy H ?c1 t = Value x"
      "waitForDeployment H ?c2 x = Value ()" by blast
    obtain st where st: "constructor idle (parse t) = Inr st" using ethers_lawsD(1) [OF laws c2 x(3)] by blast
    have "deployed_io idle parse render t (u\<lparr>console := console u @ [LogDeploying], calls := ?c2 @ [WaitForDeployment]\<rparr>)"
      using u by (simp add: deployed_io_def true_io_def deployments_append)
    from reports_true [OF laws st this, of x] show ?thesis
      using x by (simp add: deploy_contract_def deployed_io_def await_then_cases external_def console_log_def)
  next
    case False
    then show ?thesis using u
      by (auto simp: deploy_contract_def true_io_def await_then_def external_def console_log_def split: outcome.splits)
  qed
  assume "deploy_contract H t u = (Value (c, a), v)"
  then obtain x y cs where "waitForDeployment H ?c2 x = Value ()" "read_TOKEN H cs x = Value y" "cs = ?c2 @ [WaitForDeployment, GetAddress]"
      "LogTokenImmutable y \<in> set (console v)"
    by (auto simp: deploy_contract_def await_then_Value external_def console_log_def resolve_def)
  moreover from this have "deployments cs = [t]" by (simp add: deployments_append u)
  ultimately show "\<exists>st. constructor idle (parse t) = Inr st \<and> LogTokenImmutable (render (TOKEN st)) \<in> set (console v)"
    using ethers_lawsD [OF laws] c2 by metis
qed

lemma verify_source_true:
  assumes "true_io idle parse render t u" and "constructor idle (parse t) = Inr st"
  shows "true_io idle parse render t (snd (verify_source env H t c a u))"
  using assms by (auto simp: true_io_def verify_source_def script_steps split: outcome.splits)

lemma summary_true:
  assumes "true_io idle parse render t u" and "constructor idle (parse t) = Inr st"
  shows "true_io idle parse render t (snd (summary H t d c a u))"
  using assms by (auto simp: true_io_def summary_def script_steps split: outcome.splits)

lemma console_grows:
  "set (console u) \<subseteq> set (console (snd (verify_source env H t c a u)))"
  "set (console u) \<subseteq> set (console (snd (summary H t d c a u)))"
  by (auto simp: verify_source_def summary_def script_steps split: outcome.splits)

lemma deployment_true:
  assumes laws: "ethers_laws idle parse render H" and u: "true_io idle parse render t u" "deployments (calls u) = []"
  shows "true_io idle parse render t (snd (deployment env H (t, d) u))"
    and "deployment env H (t, d) u = (Value (), x) \<Longrightarrow>
      \<exists>st. constructor idle (parse t) = Inr st \<and> LogTokenImmutable (render (TOKEN st)) \<in> set (console x)"
proof -
  note dc = deploy_contract_true [OF laws u]
  show "true_io idle parse render t (snd (deployment env H (t, d) u))"
    unfolding deployment_def prod.case
  proof (rule await_then_state [where P = "true_io idle parse render t"])
    fix ca v
    assume ca: "deploy_contract H t u = (Value ca, v)" and v: "true_io idle parse render t v"
    obtain c a where [simp]: "ca = (c, a)" by fastforce
    obtain st where st: "constructor idle (parse t) = Inr st" using dc(2) [of c a v] ca by auto
    have "true_io idle parse render t (snd (await_then (verify_source env H t c a) (\<lambda>_. summary H t d c a) v))"
      by (rule await_then_state [where P = "true_io idle parse render t"])
        (rule verify_source_true [OF v st], rule summary_true [where parse = parse and t = t, OF _ st])
    then show "true_io idle parse render t (snd ((case ca of (c, a) \<Rightarrow>
        await_then (verify_source env H t c a) (\<lambda>_. summary H t d c a)) v))" by simp
  next
    show "true_io idle parse render t (snd (deploy_contract H t u))" by (rule dc(1))
  qed
  assume "deployment env H (t, d) u = (Value (), x)"
  then obtain c a v w where v: "deploy_contract H t u = (Value (c, a), v)" "verify_source env H t c a v = (Value (), w)"
      "summary H t d c a w = (Value (), x)"
    by (auto simp: deployment_def await_then_Value)
  then have "set (console v) \<subseteq> set (console x)"
    using console_grows(1) [of v env H t c a] console_grows(2) [of w H t d c a] by simp
  then show "\<exists>st. constructor idle (parse t) = Inr st \<and> LogTokenImmutable (render (TOKEN st)) \<in> set (console x)"
    using dc(2) [OF v(1)] by blast
qed

text \<open>C6: What the script reports about its deployment is true of the contract, in every run, also
  one that fails half-way. \<open>deploy\<close> resolves before the transaction is mined, so this rests on the script
  awaiting \<open>waitForDeployment\<close> before it reads and prints anything: if the constructor refuses the
  resolved token (the null address) then no address, verification or summary is printed, no
  source verification is requested and the script does not complete. Otherwise the printed
  token is the one the constructor stored, the printed lock time is \<open>MIN_LOCKTIME\<close>, and verification is
  requested with the argument that was deployed.\<close>

theorem script_reports_are_true:
  assumes "ethers_laws idle parse render H" and "selected_token env (network_chainId H) = Some t"
  shows "true_io idle parse render t (process_io (run_script env H)) \<and>
    (fst (main env H start) = Value () \<longrightarrow>
       parse t \<noteq> 0 \<and> LogTokenImmutable (render (parse t)) \<in> set (console (process_io (run_script env H))))"
proof -
  have p: "true_io idle parse render t (snd (preparation env H start))"
    by (rule preparation_true) (simp add: true_io_def start_def)
  have prep: "td = (t, snd td)" "deployments (calls u) = []" if "preparation env H start = (Value td, u)" for td u
    using preparation_Value [of env H start "fst td" "snd td" u] that assms(2)
    by (auto simp: start_def prompt_calls_def deployments_append prod_eq_iff split: if_splits)
  have "true_io idle parse render t (snd (main env H start))" unfolding main_split
  proof (rule await_then_state [where P = "true_io idle parse render t"])
    show "true_io idle parse render t (snd (preparation env H start))" by (rule p)
    fix td u
    assume u: "preparation env H start = (Value td, u)" "true_io idle parse render t u"
    show "true_io idle parse render t (snd (deployment env H td u))"
      by (subst prep(1) [OF u(1)]) (rule deployment_true(1) [OF assms(1) u(2) prep(2) [OF u(1)]])
  qed
  moreover have "\<exists>st. constructor idle (parse t) = Inr st \<and> LogTokenImmutable (render (TOKEN st)) \<in> set (console x)"
    if main: "main env H start = (Value (), x)" for x
  proof -
    obtain td u where u: "preparation env H start = (Value td, u)" and d: "deployment env H td u = (Value (), x)"
      using main by (auto simp: main_split await_then_Value)
    have "true_io idle parse render t u" using p u by simp
    from deployment_true(2) [OF assms(1) this prep(2) [OF u]] d prep(1) [OF u] show ?thesis by metis
  qed
  ultimately show ?thesis
    using constructor_Inr [of idle "parse t"]
    by (cases "main env H start"; cases "fst (main env H start)") (auto simp: run_script_def console_log_def true_io_def)
qed

text \<open>A chain on which \<open>deploy\<close> always resolves and the outcome is known from \<open>waitForDeployment\<close>
  on; the string \<open>0x0\<close> denotes the null address, every other one address 9.\<close>

definition example_chain :: "unit hre" where
  "example_chain = \<lparr>
     network_name = lit ''sepolia'', network_chainId = Some 11155111,
     getSigners = (\<lambda>_. Value [lit ''0xD'']), getBalance = (\<lambda>_ _. Value 5), rl_question = (\<lambda>_. Pending),
     getContractFactory = (\<lambda>_. Value ()), factory_deploy = (\<lambda>_ _. Value ()),
     waitForDeployment = (\<lambda>cs _. if deployments cs = [lit ''0x0''] then Throws (JsError (lit ''transaction execution reverted'')) else Value ()),
     getAddress = (\<lambda>_ _. Value (lit ''0xC'')), read_TOKEN = (\<lambda>_ _. Value (lit ''0x9'')),
     read_MIN_LOCKTIME = (\<lambda>_ _. Value 3600), wait_confirmations = (\<lambda>_ _ _. Value 9),
     run_verify = (\<lambda>_ _ _. Value ())\<rparr>"

theorem script_reports_are_true_witness:
  "LogTokenImmutable (lit ''0x9'') \<in> set (console (process_io (run_script (\<lambda>_. None) example_chain))) \<and>
   LogDeployedAt (lit ''0xC'') \<notin> set (console (process_io (run_script (\<lambda>_. Some (lit ''0x0'')) example_chain)))"
proof -
  let ?parse = "\<lambda>t. if t = lit ''0x0'' then 0 else 9" and ?render = "\<lambda>_. lit ''0x9''"
  have laws: "ethers_laws False ?parse ?render example_chain"
    by (simp add: ethers_laws_def example_chain_def constructor_def MIN_LOCKTIME_def)
  have known: "selected_token (\<lambda>_. None) (network_chainId example_chain) = KNOWN_USDC 11155111"
    "selected_token (\<lambda>_. Some (lit ''0x0'')) (network_chainId example_chain) = Some (lit ''0x0'')"
    by (simp_all add: selected_token_def example_chain_def lit_def)
  have "fst (main (\<lambda>_. None) example_chain start) = Value ()"
    by (simp add: main_def resolve_token_eq selected_token_def KNOWN_USDC_def deployer_info_def confirm_mainnet_def
        deploy_contract_def verify_source_def summary_def await_then_def external_def console_log_def resolve_def start_def
        example_chain_def lit_def)
  moreover obtain t where "KNOWN_USDC 11155111 = Some t" by (simp add: KNOWN_USDC_def)
  ultimately have "LogTokenImmutable (lit ''0x9'') \<in> set (console (process_io (run_script (\<lambda>_. None) example_chain)))"
    using script_reports_are_true [OF laws, of "\<lambda>_. None" t] known(1) by simp
  moreover have "LogDeployedAt (lit ''0xC'') \<notin> set (console (process_io (run_script (\<lambda>_. Some (lit ''0x0'')) example_chain)))"
    using script_reports_are_true [OF laws known(2)] by (auto simp: true_io_def list_all_iff constructor_def)
  ultimately show ?thesis by blast
qed

end
